(* ===== verification/Prelude.thy ===== *)
theory Prelude
  imports Main "HOL-Library.AList" "HOL-Library.Multiset"
begin

text \<open>
  Shared vocabulary of the development.
  \<^item> Go maps are association lists with distinct keys, read with \<^const>\<open>map_of\<close> and written
    with \<^const>\<open>AList.update\<close>. The lists stay executable and can be enumerated, which
    \<open>range\<close> over a Go map needs; \<open>al_get\<close> is the read of a map whose missing keys give
    the zero value of the element type.
  \<^item> The fact collections \<open>frame\<close> (what an operation leaves alone) and \<open>fine_intros\<close> (that
    composed code keeps an invariant) are filled by the components.
\<close>

named_theorems frame \<open>equations for the parts of the state an operation does not write\<close>
named_theorems fine_intros \<open>preservation of an invariant by composed code\<close>

subsection \<open>Go maps as association lists\<close>

definition al_get :: "'v \<Rightarrow> ('k \<times> 'v) list \<Rightarrow> 'k \<Rightarrow> 'v" where
  "al_get z m k = (case map_of m k of None \<Rightarrow> z | Some v \<Rightarrow> v)"

lemma al_get_Nil [simp]: "al_get z [] k = z"
  by (simp add: al_get_def)

lemma al_get_update [simp]:
  "al_get z (AList.update k v m) k' = (if k' = k then v else al_get z m k')"
  by (simp add: al_get_def update_conv)

lemma al_get_None: "map_of m k = None \<Longrightarrow> al_get z m k = z"
  by (simp add: al_get_def)

lemma map_of_update [simp]: "map_of (AList.update k v m) = (map_of m)(k \<mapsto> v)"
  by (rule ext) (simp add: update_conv)

subsection \<open>Lists\<close>

lemma list_update_id_if: "n < length xs \<Longrightarrow> xs ! n = x \<Longrightarrow> xs[n := x] = xs"
  by auto

lemma filter_length_update_less:
  assumes "i < length xs" and "P (xs ! i)" and "\<not> P y"
  shows "length (filter P (xs[i := y])) < length (filter P xs)"
proof -
  have "xs = take i xs @ xs ! i # drop (Suc i) xs"
    using assms(1) by (rule id_take_nth_drop)
  then have "length (filter P xs) = length (filter P (take i xs @ xs ! i # drop (Suc i) xs))"
    by simp
  then show ?thesis
    using assms by (simp add: upd_conv_take_nth_drop)
qed

lemma filter_length_update_le:
  assumes "i < length xs" and "P y \<Longrightarrow> P (xs ! i)"
  shows "length (filter P (xs[i := y])) \<le> length (filter P xs)"
proof -
  have "xs = take i xs @ xs ! i # drop (Suc i) xs"
    using assms(1) by (rule id_take_nth_drop)
  then have "length (filter P xs) = length (filter P (take i xs @ xs ! i # drop (Suc i) xs))"
    by simp
  then show ?thesis
    using assms by (simp add: upd_conv_take_nth_drop)
qed

end
