(* ===== verification/GoTypes.thy ===== *)
theory GoTypes
  imports Prelude
begin

text \<open>
  What the sources use of Go's \<open>reflect\<close> package about types, and the type tests of
  src/inout.go.

  A \<open>reflect.Type\<close> is a name, two method lists (the methods with a value receiver and the ones
  with a pointer receiver, promoted methods included) and an underlying shape. The name is empty
  for the literal types whose name follows from their parts (pointers, slices, arrays and
  functions) and is what \<open>String()\<close> prints otherwise. Two types are identical when the terms are
  equal. A type that mentions itself below a pointer is written with an opaque \<open>SBasic\<close> type at
  the place where it recurs: the sources never look below a pointer inside a struct but for the one
  test whether the pointed-to struct embeds \<open>dig.In\<close> or \<open>dig.Out\<close>.
\<close>

subsection \<open>Types\<close>

datatype kind = KBasic | KPtr | KSlice | KArray | KFunc | KInterface | KStruct

datatype gotype =
    GoType (tname: string) (methods: "string list") (ptr_methods: "string list") (under: shape)
and shape =
    SBasic
  | SPtr gotype
  | SSlice gotype
  | SArray nat gotype
  | SFunc "gotype list" "gotype list" bool
  | SInterface "string list"
  | SStruct "gofield list"
and gofield =
    GoField (fieldName: string) (pkgPath: string) (fieldType: gotype)
      (fieldTag: "(string \<times> string) list") (anonymous: bool)

definition Kind :: "gotype \<Rightarrow> kind" where
  "Kind t = (case under t of
       SBasic \<Rightarrow> KBasic | SPtr _ \<Rightarrow> KPtr | SSlice _ \<Rightarrow> KSlice | SArray _ _ \<Rightarrow> KArray
     | SFunc _ _ _ \<Rightarrow> KFunc | SInterface _ \<Rightarrow> KInterface | SStruct _ \<Rightarrow> KStruct)"

text \<open>\<open>Type.Elem\<close> panics on a type that has no element: \<^const>\<open>None\<close>.\<close>

definition Elem :: "gotype \<Rightarrow> gotype option" where
  "Elem t = (case under t of
       SPtr e \<Rightarrow> Some e | SSlice e \<Rightarrow> Some e | SArray _ e \<Rightarrow> Some e | _ \<Rightarrow> None)"

definition structFields :: "gotype \<Rightarrow> gofield list" where
  "structFields t = (case under t of SStruct fs \<Rightarrow> fs | _ \<Rightarrow> [])"

definition ins :: "gotype \<Rightarrow> gotype list" where
  "ins t = (case under t of SFunc is os v \<Rightarrow> is | _ \<Rightarrow> [])"

definition outs :: "gotype \<Rightarrow> gotype list" where
  "outs t = (case under t of SFunc is os v \<Rightarrow> os | _ \<Rightarrow> [])"

definition IsVariadic :: "gotype \<Rightarrow> bool" where
  "IsVariadic t = (case under t of SFunc is os v \<Rightarrow> v | _ \<Rightarrow> False)"

definition PointerTo :: "gotype \<Rightarrow> gotype" where
  "PointerTo t = GoType '''' [] [] (SPtr t)"

definition SliceOf :: "gotype \<Rightarrow> gotype" where
  "SliceOf t = GoType '''' [] [] (SSlice t)"

definition ArrayOf :: "nat \<Rightarrow> gotype \<Rightarrow> gotype" where
  "ArrayOf n t = GoType '''' [] [] (SArray n t)"

text \<open>
  The method set of a type: an interface lists its own, an unnamed pointer to a type that is
  neither a pointer nor an interface has all methods of that type, a named pointer has none.
\<close>

definition method_set :: "gotype \<Rightarrow> string list" where
  "method_set t = (case under t of
       SInterface ms \<Rightarrow> ms
     | SPtr e \<Rightarrow>
         (if tname t \<noteq> '''' then []
          else (case under e of
              SInterface _ \<Rightarrow> [] | SPtr _ \<Rightarrow> [] | _ \<Rightarrow> methods e @ ptr_methods e))
     | _ \<Rightarrow> methods t)"

definition Implements :: "gotype \<Rightarrow> gotype \<Rightarrow> bool" where
  "Implements t u = (case under u of
       SInterface ms \<Rightarrow> set ms \<subseteq> set (method_set t)
     | _ \<Rightarrow> False)"

text \<open>\<open>StructTag.Get\<close>: the empty string for a key that is not there.\<close>

definition TagGet :: "gofield \<Rightarrow> string \<Rightarrow> string" where
  "TagGet f k = al_get '''' (fieldTag f) k"

subsection \<open>Printing types\<close>

fun digits :: "nat \<Rightarrow> string" where
  "digits n = (if n < 10 then [char_of (48 + n)] else digits (n div 10) @ [char_of (48 + n mod 10)])"

declare digits.simps [simp del]

fun joinWith :: "string \<Rightarrow> string list \<Rightarrow> string" where
  "joinWith sep [] = ''''"
| "joinWith sep [x] = x"
| "joinWith sep (x # y # ys) = x @ sep @ joinWith sep (y # ys)"

fun type_string :: "gotype \<Rightarrow> string" and shape_string :: "shape \<Rightarrow> string" where
  "type_string (GoType n ms ps sh) = (if n \<noteq> '''' then n else shape_string sh)"
| "shape_string (SPtr e) = ''*'' @ type_string e"
| "shape_string (SSlice e) = ''[]'' @ type_string e"
| "shape_string (SArray n e) = ''['' @ digits n @ '']'' @ type_string e"
| "shape_string (SFunc is os v) =
     (let as = map type_string is; rs = map type_string os
      in ''func('' @
         joinWith '', '' (if v then butlast as @ [''...'' @ drop 2 (last as)] else as) @ '')'' @
         (case rs of [] \<Rightarrow> '''' | [r] \<Rightarrow> '' '' @ r | _ \<Rightarrow> '' ('' @ joinWith '', '' rs @ '')''))"
| "shape_string _ = ''''"

subsection \<open>dig.In, dig.Out and error\<close>

definition digSentinel :: gotype where
  "digSentinel = GoType ''dig.digSentinel'' [] [] (SStruct [])"

definition inType :: gotype where
  "inType = GoType ''dig.In'' [] []
     (SStruct [GoField ''_'' ''go.uber.org/dig'' digSentinel [] False])"

definition outType :: gotype where
  "outType = GoType ''dig.Out'' [] []
     (SStruct [GoField ''_'' ''go.uber.org/dig'' digSentinel [] False])"

definition inPtrType :: gotype where
  "inPtrType = PointerTo inType"

definition outPtrType :: gotype where
  "outPtrType = PointerTo outType"

definition errType :: gotype where
  "errType = GoType ''error'' [] [] (SInterface [''Error() string''])"

definition isError :: "gotype \<Rightarrow> bool" where
  "isError t = Implements t errType"

text \<open>
  \<open>embedsType\<close> is a breadth-first search over a queue of types: it takes the first, compares it
  and appends the types of its embedded fields. The sources call it with a \<open>reflect.Type\<close>.
\<close>

definition embedded :: "gotype \<Rightarrow> gotype list" where
  "embedded t = map fieldType (filter anonymous (structFields t))"

lemma size_fieldType: "f \<in> set (structFields t) \<Longrightarrow> size (fieldType f) < size t"
proof -
  assume f: "f \<in> set (structFields t)"
  then obtain n ms ps fs where t: "t = GoType n ms ps (SStruct fs)" and "f \<in> set fs"
    by (cases t) (auto simp: structFields_def split: shape.splits)
  then have "size f \<le> size_list size fs" by (intro size_list_estimation') auto
  with t show ?thesis by (cases f) simp
qed

lemma sum_size_fields: "sum_list (map (\<lambda>f. size (fieldType f)) fs) < Suc (size_list size fs)"
proof (induction fs)
  case (Cons f fs)
  then show ?case by (cases f) simp
qed simp

lemma sum_size_embedded: "sum_list (map size (embedded t)) < size t"
proof -
  have "sum_list (map size (embedded t)) \<le> sum_list (map (\<lambda>f. size (fieldType f)) (structFields t))"
    unfolding embedded_def map_map comp_def by (rule sum_list_filter_le_nat)
  also have "\<dots> < size t"
    using sum_size_fields [of "structFields t"]
    by (cases t) (auto simp: structFields_def split: shape.splits)
  finally show ?thesis .
qed

function embedsLoop :: "gotype list \<Rightarrow> gotype \<Rightarrow> bool" where
  "embedsLoop [] e = False"
| "embedsLoop (t # types) e =
     (if t = e then True
      else if Kind t \<noteq> KStruct then embedsLoop types e
      else embedsLoop (types @ embedded t) e)"
  by pat_completeness auto
termination
proof (relation "measure (\<lambda>(ts, e). sum_list (map size ts))", goal_cases)
  case (3 t types e)
  then show ?case using sum_size_embedded [of t] by simp
next
  case (2 t types e)
  then show ?case by (cases t) simp
qed simp

definition embedsType :: "gotype \<Rightarrow> gotype \<Rightarrow> bool" where
  "embedsType t e = embedsLoop [t] e"

definition IsIn :: "gotype \<Rightarrow> bool" where
  "IsIn t = embedsType t inType"

definition IsOut :: "gotype \<Rightarrow> bool" where
  "IsOut t = embedsType t outType"

text \<open>What embedding means: the type itself, or an embedded field whose type embeds.\<close>

inductive embeds :: "gotype \<Rightarrow> gotype \<Rightarrow> bool" where
  self: "embeds e e"
| field: "f \<in> set (structFields t) \<Longrightarrow> anonymous f \<Longrightarrow> embeds (fieldType f) e \<Longrightarrow> embeds t e"

lemma embeds_unfold: "embeds t e \<longleftrightarrow> t = e \<or> (\<exists>u \<in> set (embedded t). embeds u e)"
  by (subst embeds.simps) (auto simp: embedded_def)

lemma embedded_not_struct: "Kind t \<noteq> KStruct \<Longrightarrow> embedded t = []"
  by (auto simp: Kind_def embedded_def structFields_def split: shape.splits)

lemma embedsLoop_correct: "embedsLoop ts e \<longleftrightarrow> (\<exists>t \<in> set ts. embeds t e)"
proof (induction ts e rule: embedsLoop.induct)
  case (2 t types e)
  then show ?case
    using embeds_unfold [of t e] embedded_not_struct [of t]
    by (cases "t = e"; cases "Kind t \<noteq> KStruct") (auto intro: embeds.self)
qed simp

text \<open>
  C19: the breadth-first search of \<open>embedsType\<close> ends on every type and returns true exactly when
  the type is \<open>e\<close> or one of its embedded fields, at any depth, is.
\<close>

theorem embedsType_correct: "embedsType t e \<longleftrightarrow> embeds t e"
  by (simp add: embedsType_def embedsLoop_correct)

end
