(* ===== verification/DigReflect.thy ===== *)
theory DigReflect
  imports Prelude
begin

text \<open>
  The package \<open>internal/digreflect\<close> (src/internal/digreflect/func.go): where a function was
  defined. \<open>runtime.FuncForPC\<close> gives the runtime's symbol, file and line for a program counter;
  a function value of the model carries that triple, and \<open>InspectFuncPC\<close> splits the symbol into
  package and function name.
\<close>

record Func =
  fnName :: string
  fnPackage :: string
  fnFile :: string
  fnLine :: int

record runtime_func =
  rtName :: string
  rtFile :: string
  rtLine :: int

subsection \<open>The string functions used\<close>

text \<open>\<open>strings.Index\<close>: the least index at which the pattern starts.\<close>

fun strIndex :: "string \<Rightarrow> string \<Rightarrow> nat option" where
  "strIndex [] pat = (if pat = [] then Some 0 else None)"
| "strIndex (c # cs) pat =
     (if take (length pat) (c # cs) = pat then Some 0 else map_option Suc (strIndex cs pat))"

text \<open>\<open>strings.LastIndex\<close> of a one-character pattern.\<close>

fun strLastIndex :: "string \<Rightarrow> char \<Rightarrow> nat option" where
  "strLastIndex [] c = None"
| "strLastIndex (x # xs) c =
     (case strLastIndex xs c of
        Some i \<Rightarrow> Some (Suc i)
      | None \<Rightarrow> if x = c then Some 0 else None)"

definition unhex :: "char \<Rightarrow> nat option" where
  "unhex c = (let n = of_char c :: nat in
     if 48 \<le> n \<and> n \<le> 57 then Some (n - 48)
     else if 97 \<le> n \<and> n \<le> 102 then Some (n - 87)
     else if 65 \<le> n \<and> n \<le> 70 then Some (n - 55)
     else None)"

text \<open>\<open>url.QueryUnescape\<close>: \<^const>\<open>None\<close> for its error.\<close>

fun queryUnescape :: "string \<Rightarrow> string option" where
  "queryUnescape [] = Some []"
| "queryUnescape (c # cs) =
     (if c = CHR ''%'' then
        (case cs of
           a # b # ds \<Rightarrow>
             (case (unhex a, unhex b) of
                (Some i, Some j) \<Rightarrow> map_option ((#) (char_of (16 * i + j))) (queryUnescape ds)
              | _ \<Rightarrow> None)
         | _ \<Rightarrow> None)
      else map_option ((#) (if c = CHR ''+'' then CHR '' '' else c)) (queryUnescape cs))"

subsection \<open>Splitting a symbol\<close>

definition vendor :: string where
  "vendor = ''/vendor/''"

definition splitFuncName :: "string \<Rightarrow> string \<times> string" where
  "splitFuncName function =
     (if function = [] then ([], [])
      else
        let idx = (case strLastIndex function CHR ''/'' of Some i \<Rightarrow> i | None \<Rightarrow> 0);
            idx = (case strIndex (drop idx function) ''.'' of Some i \<Rightarrow> idx + i | None \<Rightarrow> idx);
            pname = take idx function;
            fname = drop (Suc idx) function;
            pname = (case strIndex pname vendor of
                 Some i \<Rightarrow> if i > 0 then drop (i + length vendor) pname else pname
               | None \<Rightarrow> pname);
            pname = (case queryUnescape pname of Some u \<Rightarrow> u | None \<Rightarrow> pname)
        in (pname, fname))"

definition funcOf :: "runtime_func \<Rightarrow> Func" where
  "funcOf r =
     (let (pkgName, funcName) = splitFuncName (rtName r)
      in \<lparr>fnName = funcName, fnPackage = pkgName, fnFile = rtFile r, fnLine = rtLine r\<rparr>)"

text \<open>\<open>InspectFuncPC\<close> returns nil for an address that is in no function.\<close>

definition InspectFuncPC :: "runtime_func option \<Rightarrow> Func option" where
  "InspectFuncPC f = (case f of None \<Rightarrow> None | Some r \<Rightarrow> Some (funcOf r))"

subsection \<open>Splitting inverts joining\<close>

lemma strLastIndex_None: "c \<notin> set xs \<Longrightarrow> strLastIndex xs c = None"
  by (induction xs) auto

lemma strLastIndex_app: "c \<notin> set ys \<Longrightarrow> strLastIndex (xs @ c # ys) c = Some (length xs)"
  by (induction xs) (auto simp: strLastIndex_None)

lemma strIndex_byte: "c \<notin> set xs \<Longrightarrow> strIndex (xs @ c # ys) [c] = Some (length xs)"
  by (induction xs) auto

lemma queryUnescape_plain:
  "CHR ''%'' \<notin> set xs \<Longrightarrow> CHR ''+'' \<notin> set xs \<Longrightarrow> queryUnescape xs = Some xs"
  by (induction xs) auto

text \<open>
  C24: for a function symbol \<open>dir/base.fn\<close> whose directory is not vendored and needs no unescaping,
  \<open>splitFuncName\<close> returns the package path \<open>dir/base\<close> and the function name \<open>fn\<close>, whatever
  dots the directory or the function part (a closure's \<open>F.func1\<close>) contains.
\<close>

theorem splitFuncName_join:
  assumes "CHR ''/'' \<notin> set base" and "CHR ''.'' \<notin> set base" and "CHR ''/'' \<notin> set fn"
    and "strIndex (dir @ ''/'' @ base) vendor = None"
    and "CHR ''%'' \<notin> set (dir @ base)" and "CHR ''+'' \<notin> set (dir @ base)"
  shows "splitFuncName (dir @ ''/'' @ base @ ''.'' @ fn) = (dir @ ''/'' @ base, fn)"
proof -
  have last: "strLastIndex (dir @ CHR ''/'' # (base @ CHR ''.'' # fn)) CHR ''/'' = Some (length dir)"
    using assms(1,3) by (intro strLastIndex_app) auto
  have dot: "strIndex (CHR ''/'' # base @ CHR ''.'' # fn) ''.'' = Some (Suc (length base))"
    using strIndex_byte [of "CHR ''.''" "CHR ''/'' # base" fn] assms(2) by simp
  have un: "queryUnescape (dir @ CHR ''/'' # base) = Some (dir @ CHR ''/'' # base)"
    using assms(5,6) by (intro queryUnescape_plain) auto
  show ?thesis
    using last dot un assms(4) by (simp add: splitFuncName_def Let_def)
qed

theorem splitFuncName_join_witness:
  "splitFuncName (''go.uber.org'' @ ''/'' @ ''dig'' @ ''.'' @ ''New.func1'') = (''go.uber.org'' @ ''/'' @ ''dig'', ''New.func1'')"
  by (rule splitFuncName_join) (simp_all add: vendor_def)

end
