(* ===== verification/Errors.thy ===== *)
theory Errors
  imports GoTypes DigReflect
begin

text \<open>
  Keys (src/container.go), the errors of src/error.go, src/cycle_error.go and src/group.go, the
  values the container handles, and the result of running Go code.

  An error keeps its wrapped error and the data its message prints. The text of an
  \<open>errInvalidInput\<close> is a value of \<open>errmsg\<close> with one constructor per message of the sources, which
  carries what the format string prints. A user's error is \<open>EUser\<close>, identified by a number, with
  the error that its \<open>Unwrap\<close> method returns, if any (a user error wraps at most one error).
\<close>

subsection \<open>Keys\<close>

record key =
  key_t :: gotype
  key_name :: string
  key_group :: string

abbreviation value_key :: "string \<Rightarrow> gotype \<Rightarrow> key" where
  "value_key name t \<equiv> \<lparr>key_t = t, key_name = name, key_group = ''''\<rparr>"

abbreviation group_key :: "string \<Rightarrow> gotype \<Rightarrow> key" where
  "group_key g t \<equiv> \<lparr>key_t = t, key_name = '''', key_group = g\<rparr>"

subsection \<open>Errors and values\<close>

datatype errmsg =
    MsgDependOnOut gotype | MsgParamEmbedsInPtr gotype | MsgPtrToIn gotype
  | MsgBadArgument nat | MsgBadField string gotype
  | MsgUnexportedIn string gotype | MsgBadTag string string string
  | MsgGroupNotSlice string gotype | MsgFlattenParam string gotype
  | MsgNamedGroupRequested string string | MsgGroupOptional
  | MsgProvideIn gotype | MsgReturnError | MsgResultEmbedsOutPtr gotype | MsgPtrToOut gotype
  | MsgParseGroup string | MsgAsNotImplemented gotype gotype
  | MsgSoftResult string | MsgSoftField string | MsgFlattenNotSlice gotype | MsgBadResult nat
  | MsgNameOnOut gotype | MsgGroupOnOut gotype | MsgUnexportedOut string gotype
  | MsgFlattenFieldNotSlice string gotype | MsgNamedGroupProvided string string
  | MsgNameWithGroup string string | MsgNameBackquote string | MsgGroupBackquote string
  | MsgAsNil | MsgAsNotPtr gotype | MsgAsNotInterface gotype
  | MsgProvideNil | MsgProvideNonFunc gotype | MsgNoResults gotype | MsgIntroducesCycle
  | MsgCannotProvide key string | MsgAlreadyProvidedAt string | MsgAlreadyProvidedBy "Func list"
  | MsgAlreadyDecorated gotype key | MsgDecorateSingle
  | MsgInvokeNil | MsgInvokeNonFunc gotype | MsgCycleInGraph

record missingType =
  mtKey :: key
  suggestions :: "key list"

record cycleErrPathEntry =
  cePathKey :: key
  cePathFunc :: Func

datatype goerr =
    EInvalidInput errmsg "goerr option"
  | EProvide Func goerr
  | EConstructorFailed Func goerr
  | EArgumentsFailed Func goerr
  | EMissingDependencies Func goerr
  | EParamSingleFailed key goerr nat
  | EParamGroupFailed key goerr nat
  | EMissingTypes "missingType list"
  | ECycleDetected "cycleErrPathEntry list" string
  | EInvalidGroupOption string
  | EPanic Func gval
  | EParseBool string
  | EUser nat "goerr option"
  | EZero gotype
and gval =
    VNone
  | VZero gotype
  | VData gotype nat
  | VStruct gotype "gval list"
  | VSlice gotype "gval list"
  | VError goerr
  | VRuntime string

text \<open>
  The outcome of Go code that may return an error, panic, or not return: \<open>Ret\<close> is a return with a
  nil error, \<open>Throw\<close> a return with an error, \<open>Panicked\<close> a panic with its value, \<open>Diverged\<close> a
  recursion that used up its fuel (in Go, a stack overflow).
\<close>

datatype 'a res = Ret 'a | Throw goerr | Panicked gval | Diverged

definition newErrInvalidInput :: "errmsg \<Rightarrow> goerr option \<Rightarrow> goerr" where
  "newErrInvalidInput msg cause = EInvalidInput msg cause"

text \<open>\<open>errors.Unwrap\<close>: the wrapped error, \<^const>\<open>None\<close> for nil.\<close>

fun Unwrap :: "goerr \<Rightarrow> goerr option" where
  "Unwrap (EInvalidInput m cause) = cause"
| "Unwrap (EProvide f reason) = Some reason"
| "Unwrap (EConstructorFailed f reason) = Some reason"
| "Unwrap (EArgumentsFailed f reason) = Some reason"
| "Unwrap (EMissingDependencies f reason) = Some reason"
| "Unwrap (EParamSingleFailed k reason c) = Some reason"
| "Unwrap (EParamGroupFailed k reason c) = Some reason"
| "Unwrap (EUser n cause) = cause"
| "Unwrap _ = None"

text \<open>The implementations of \<open>dig.Error\<close>; \<open>PanicError\<close> is not one.\<close>

fun is_digError :: "goerr \<Rightarrow> bool" where
  "is_digError (EPanic f v) = False"
| "is_digError (EParseBool s) = False"
| "is_digError (EUser n c) = False"
| "is_digError (EZero t) = False"
| "is_digError _ = True"

fun is_errMissingDependencies :: "goerr \<Rightarrow> bool" where
  "is_errMissingDependencies (EMissingDependencies f r) = True"
| "is_errMissingDependencies _ = False"

fun is_errCycleDetected :: "goerr \<Rightarrow> bool" where
  "is_errCycleDetected (ECycleDetected p s) = True"
| "is_errCycleDetected _ = False"

text \<open>The errors with an \<open>updateGraph\<close> method.\<close>

fun is_errVisualizer :: "goerr \<Rightarrow> bool" where
  "is_errVisualizer (EParamSingleFailed k r c) = True"
| "is_errVisualizer (EParamGroupFailed k r c) = True"
| "is_errVisualizer (EMissingTypes ms) = True"
| "is_errVisualizer _ = False"

lemma Unwrap_size: "Unwrap e = Some e' \<Longrightarrow> size e' < size e"
  by (cases e) auto

text \<open>\<open>errors.As\<close>: the first error of the chain of the wanted kind.\<close>

function errorsAs :: "(goerr \<Rightarrow> bool) \<Rightarrow> goerr \<Rightarrow> goerr option" where
  "errorsAs P e =
     (if P e then Some e
      else (case Unwrap e of None \<Rightarrow> None | Some e' \<Rightarrow> errorsAs P e'))"
  by pat_completeness auto
termination
  by (relation "measure (\<lambda>(P, e). size e)") (auto dest: Unwrap_size)

declare errorsAs.simps [simp del]

lemma errorsAs_size: "errorsAs P e = Some d \<Longrightarrow> size d \<le> size e"
proof (induction P e rule: errorsAs.induct)
  case (1 P e)
  show ?case
  proof (cases "P e")
    case False
    with 1 obtain e' where "Unwrap e = Some e'" "errorsAs P e' = Some d"
      by (auto simp: errorsAs.simps [of P e] split: option.splits)
    with 1 False Unwrap_size [of e e'] show ?thesis by simp
  qed (use 1 in \<open>simp add: errorsAs.simps [of P e]\<close>)
qed

definition IsCycleDetected :: "goerr \<Rightarrow> bool" where
  "IsCycleDetected e \<longleftrightarrow> errorsAs is_errCycleDetected e \<noteq> None"

text \<open>\<open>RootCause\<close>: the loop keeps the last \<open>dig.Error\<close> found in \<open>de\<close>.\<close>

function RootCauseLoop :: "goerr option \<Rightarrow> goerr option \<Rightarrow> goerr option" where
  "RootCauseLoop None de = de"
| "RootCauseLoop (Some e) de =
     (case errorsAs is_digError e of
        None \<Rightarrow> Some e
      | Some d \<Rightarrow> RootCauseLoop (Unwrap d) (Some d))"
  by pat_completeness auto
termination
proof (relation "measure (\<lambda>(e, de). case e of None \<Rightarrow> 0 | Some e \<Rightarrow> Suc (size e))", goal_cases)
  case (2 e de d)
  then have "size d \<le> size e" by (intro errorsAs_size)
  then show ?case using Unwrap_size [of d] by (cases "Unwrap d") force+
qed simp

definition RootCause :: "goerr option \<Rightarrow> goerr option" where
  "RootCause err = RootCauseLoop err None"

subsection \<open>What RootCause returns\<close>

text \<open>The chain of an error: itself, what it wraps, and so on.\<close>

function chain :: "goerr \<Rightarrow> goerr list" where
  "chain e = e # (case Unwrap e of None \<Rightarrow> [] | Some e' \<Rightarrow> chain e')"
  by pat_completeness auto
termination
  by (relation "measure size") (auto dest: Unwrap_size)

declare chain.simps [simp del]

lemma chain_not_Nil [simp]: "chain e \<noteq> []"
  by (subst chain.simps) simp

lemma chain_hd [simp]: "hd (chain e) = e"
  by (subst chain.simps) simp

lemma chain_self: "e \<in> set (chain e)"
  by (subst chain.simps) simp

lemma last_chain_Unwrap: "Unwrap e = Some e' \<Longrightarrow> last (chain e) = last (chain e')"
  by (subst chain.simps) simp

lemma last_chain_bottom: "Unwrap e = None \<Longrightarrow> last (chain e) = e"
  by (subst chain.simps) simp

text \<open>\<open>errors.As\<close> finds the first error of the chain of its kind, with nothing of the kind before.\<close>

lemma errorsAs_Some:
  "errorsAs P e = Some d \<Longrightarrow> \<exists>pre. chain e = pre @ chain d \<and> P d \<and> (\<forall>x \<in> set pre. \<not> P x)"
proof (induction P e rule: errorsAs.induct)
  case (1 P e)
  show ?case
  proof (cases "P e")
    case True
    with 1 show ?thesis by (simp add: errorsAs.simps [of P e])
  next
    case False
    with 1 obtain e' where e': "Unwrap e = Some e'" "errorsAs P e' = Some d"
      by (auto simp: errorsAs.simps [of P e] split: option.splits)
    with 1 False obtain pre where "chain e' = pre @ chain d" "P d" "\<forall>x \<in> set pre. \<not> P x" by auto
    with e' False show ?thesis by (auto simp: chain.simps [of e] intro!: exI [of _ "e # pre"])
  qed
qed

lemma errorsAs_None: "errorsAs P e = None \<longleftrightarrow> (\<forall>x \<in> set (chain e). \<not> P x)"
proof (induction P e rule: errorsAs.induct)
  case (1 P e)
  then show ?case
    by (auto simp: errorsAs.simps [of P e] chain.simps [of e] split: option.splits)
qed

text \<open>The errors of the chain below the last \<open>dig.Error\<close>.\<close>

definition below_last_dig :: "goerr \<Rightarrow> goerr list" where
  "below_last_dig e = rev (takeWhile (\<lambda>x. \<not> is_digError x) (rev (chain e)))"

lemma below_last_dig_none:
  "\<forall>x \<in> set (chain e). \<not> is_digError x \<Longrightarrow> below_last_dig e = chain e"
  unfolding below_last_dig_def by (subst takeWhile_eq_all_conv [THEN iffD2]) auto

lemma below_last_dig_suffix:
  assumes "chain e = pre @ d # post" and "is_digError d"
  shows "below_last_dig e = rev (takeWhile (\<lambda>x. \<not> is_digError x) (rev post))"
  using assms by (simp add: below_last_dig_def takeWhile_tail)

lemma RootCauseLoop_spec:
  "RootCauseLoop (Some e) de =
     Some (if below_last_dig e = [] then last (chain e) else hd (below_last_dig e))"
proof (induction "size e" arbitrary: e de rule: less_induct)
  case less
  show ?case
  proof (cases "errorsAs is_digError e")
    case None
    then have "below_last_dig e = chain e"
      by (intro below_last_dig_none) (simp add: errorsAs_None)
    with None show ?thesis by simp
  next
    case (Some d)
    then obtain pre where pre: "chain e = pre @ chain d" and d: "is_digError d"
      using errorsAs_Some by blast
    show ?thesis
    proof (cases "Unwrap d")
      case None
      then have "chain e = pre @ d # []" by (simp add: pre chain.simps [of d])
      with d have "below_last_dig e = []" by (subst below_last_dig_suffix) auto
      with Some None pre show ?thesis by (simp add: chain.simps [of d])
    next
      case u: (Some r)
      then have ch: "chain e = pre @ d # chain r" by (simp add: pre chain.simps [of d])
      then have "below_last_dig e = below_last_dig r"
        using d by (subst below_last_dig_suffix) (auto simp: below_last_dig_def)
      moreover have "size r < size e"
        using errorsAs_size [OF Some] Unwrap_size [OF u] by simp
      ultimately show ?thesis using less.hyps [of r "Some d"] u ch by (simp add: Some)
    qed
  qed
qed

lemma RootCause_spec:
  "RootCause (Some e) =
     Some (if below_last_dig e = [] then last (chain e) else hd (below_last_dig e))"
  unfolding RootCause_def by (rule RootCauseLoop_spec)

lemma below_last_dig_non_dig: "x \<in> set (below_last_dig e) \<Longrightarrow> \<not> is_digError x"
  by (auto simp: below_last_dig_def dest: set_takeWhileD)

lemma below_last_dig_empty: "below_last_dig e = [] \<longleftrightarrow> is_digError (last (chain e))"
  by (cases "chain e" rule: rev_cases) (auto simp: below_last_dig_def)



text \<open>
  C22: when the container's errors form a prefix of the chain (no user error wraps one of them),
  \<open>RootCause\<close> returns the first error of the chain that is not a \<open>dig.Error\<close>, as documented.
\<close>

theorem RootCause_first_non_dig:
  assumes "chain e = ds @ r # us" and "\<forall>x \<in> set ds. is_digError x"
    and "\<forall>x \<in> set (r # us). \<not> is_digError x"
  shows "RootCause (Some e) = Some r"
proof -
  have "below_last_dig e = r # us"
  proof (cases ds rule: rev_cases)
    case Nil
    with assms show ?thesis by (subst below_last_dig_none) auto
  next
    case (snoc ys y)
    with assms have "chain e = ys @ y # (r # us)" "is_digError y" by auto
    from below_last_dig_suffix [OF this] assms(3) show ?thesis
      by (metis rev_rev_ident set_rev takeWhile_eq_all_conv)
  qed
  then show ?thesis by (simp add: RootCause_spec)
qed

theorem RootCause_first_non_dig_witness:
  "RootCause (Some (EProvide \<lparr>fnName = ''f'', fnPackage = ''p'', fnFile = ''x.go'', fnLine = 1\<rparr>
       (EUser 7 (Some (EUser 8 None))))) = Some (EUser 7 (Some (EUser 8 None)))"
  by (rule RootCause_first_non_dig
      [of _ "[EProvide \<lparr>fnName = ''f'', fnPackage = ''p'', fnFile = ''x.go'', fnLine = 1\<rparr>
       (EUser 7 (Some (EUser 8 None)))]" _ "[EUser 8 None]"])
    (simp_all add: chain.simps)

text \<open>
  The documentation of \<open>RootCause\<close> promises the first error of the chain that is not a
  \<open>dig.Error\<close>. A user error that wraps an error of the container is skipped: the search restarts
  at the container's error below it.
\<close>

lemma RootCause_skips_user_error:
  fixes f :: Func
  defines "inner \<equiv> EInvalidInput MsgInvokeNil None"
  defines "e \<equiv> EConstructorFailed f (EUser 1 (Some inner))"
  shows "RootCause (Some e) = Some inner"
    and "chain e = [e, EUser 1 (Some inner), inner]"
    and "\<not> is_digError (EUser 1 (Some inner))"
proof -
  show ch: "chain e = [e, EUser 1 (Some inner), inner]"
    by (simp add: e_def inner_def chain.simps)
  then have "below_last_dig e = []" by (simp add: below_last_dig_empty inner_def)
  with ch show "RootCause (Some e) = Some inner" by (simp add: RootCause_spec)
qed simp

end
