(* ===== verification/Tags.thy ===== *)
theory Tags
  imports Errors
begin

text \<open>
  The struct tags: value-group tags (src/group.go), and the boolean tags \<open>optional\<close>
  (src/inout.go) and \<open>ignore-unexported\<close> (src/param.go), with \<open>strings.Split\<close> and
  \<open>strconv.ParseBool\<close> of Go's library.
\<close>

subsection \<open>Group tags\<close>

fun splitOn :: "char \<Rightarrow> string \<Rightarrow> string list" where
  "splitOn c [] = [[]]"
| "splitOn c (x # xs) =
     (if x = c then [] # splitOn c xs
      else (case splitOn c xs of [] \<Rightarrow> [[x]] | p # ps \<Rightarrow> (x # p) # ps))"

record group =
  gName :: string
  gFlatten :: bool
  gSoft :: bool

fun parseOptions :: "group \<Rightarrow> string list \<Rightarrow> group res" where
  "parseOptions g [] = Ret g"
| "parseOptions g (c # cs) =
     (if c = ''flatten'' then parseOptions (g\<lparr>gFlatten := True\<rparr>) cs
      else if c = ''soft'' then parseOptions (g\<lparr>gSoft := True\<rparr>) cs
      else Throw (EInvalidGroupOption c))"

definition parseGroupString :: "string \<Rightarrow> group res" where
  "parseGroupString s =
     (let components = splitOn CHR '','' s
      in parseOptions \<lparr>gName = hd components, gFlatten = False, gSoft = False\<rparr> (tl components))"

lemma splitOn_not_Nil [simp]: "splitOn c s \<noteq> []"
  by (cases s) (auto split: list.splits)

lemma splitOn_no_sep: "c \<notin> set s \<Longrightarrow> splitOn c s = [s]"
  by (induction s) auto

lemma splitOn_append: "c \<notin> set s \<Longrightarrow> splitOn c (s @ c # t) = s # splitOn c t"
  by (induction s) auto

lemma splitOn_joinWith:
  "ss \<noteq> [] \<Longrightarrow> \<forall>s \<in> set ss. c \<notin> set s \<Longrightarrow> splitOn c (joinWith [c] ss) = ss"
  by (induction "[c]" ss rule: joinWith.induct) (auto simp: splitOn_no_sep splitOn_append)

definition is_group_option :: "string \<Rightarrow> bool" where
  "is_group_option c \<longleftrightarrow> c = ''flatten'' \<or> c = ''soft''"

lemma parseOptions_spec:
  "parseOptions g cs =
     (case find (\<lambda>c. \<not> is_group_option c) cs of
        Some c \<Rightarrow> Throw (EInvalidGroupOption c)
      | None \<Rightarrow> Ret (g\<lparr>gFlatten := gFlatten g \<or> ''flatten'' \<in> set cs,
                      gSoft := gSoft g \<or> ''soft'' \<in> set cs\<rparr>))"
  by (induction g cs rule: parseOptions.induct) (auto simp: is_group_option_def split: option.splits)

text \<open>
  C23: parsing undoes printing. A tag made of a name and options joined by commas parses to that
  name with exactly the named options set; if an option is neither \<open>flatten\<close> nor \<open>soft\<close>, the
  first such option is reported as invalid.
\<close>

theorem parseGroupString_join:
  assumes "\<forall>s \<in> set (name # opts). CHR '','' \<notin> set s"
  shows "parseGroupString (joinWith '','' (name # opts)) =
    (case find (\<lambda>c. \<not> is_group_option c) opts of
       Some c \<Rightarrow> Throw (EInvalidGroupOption c)
     | None \<Rightarrow> Ret \<lparr>gName = name, gFlatten = (''flatten'' \<in> set opts), gSoft = (''soft'' \<in> set opts)\<rparr>)"
proof -
  have "splitOn CHR '','' (joinWith '','' (name # opts)) = name # opts"
    using assms by (intro splitOn_joinWith) auto
  then show ?thesis
    by (simp add: parseGroupString_def parseOptions_spec split: option.splits)
qed

theorem parseGroupString_join_witness:
  "parseGroupString (joinWith '','' (''http'' # [''soft''])) =
     Ret \<lparr>gName = ''http'', gFlatten = False, gSoft = True\<rparr>"
  by (subst parseGroupString_join) (auto simp: is_group_option_def)

subsection \<open>Boolean tags\<close>

definition ParseBool :: "string \<Rightarrow> bool option" where
  "ParseBool s =
     (if s \<in> {''1'', ''t'', ''T'', ''true'', ''TRUE'', ''True''} then Some True
      else if s \<in> {''0'', ''f'', ''F'', ''false'', ''FALSE'', ''False''} then Some False
      else None)"

text \<open>
  \<open>isFieldOptional\<close> and \<open>isIgnoreUnexportedSet\<close> return a value beside the error; on a parse error
  that value is \<open>false\<close>.
\<close>

definition boolTag :: "gofield \<Rightarrow> string \<Rightarrow> bool \<times> goerr option" where
  "boolTag f tagName =
     (let tag = TagGet f tagName
      in if tag = '''' then (False, None)
         else (case ParseBool tag of
             Some b \<Rightarrow> (b, None)
           | None \<Rightarrow> (False, Some (newErrInvalidInput (MsgBadTag tag tagName (fieldName f))
                                      (Some (EParseBool tag))))))"

definition isFieldOptional :: "gofield \<Rightarrow> bool \<times> goerr option" where
  "isFieldOptional f = boolTag f ''optional''"

definition isIgnoreUnexportedSet :: "gofield \<Rightarrow> bool \<times> goerr option" where
  "isIgnoreUnexportedSet f = boolTag f ''ignore-unexported''"

end
