(* ===== verification/CycleCheck.thy ===== *)
theory CycleCheck
  imports Prelude
begin

text \<open>
  The package \<open>internal/graph\<close> (src/internal/graph/graph.go): the \<open>Graph\<close> interface and
  the depth-first search \<open>IsAcyclic\<close> with its per-node bookkeeping \<open>cycleInfo\<close>.

  Nodes are the naturals below \<open>Order\<close>. A read \<open>info[u]\<close> past the end of the slice panics in
  Go: the search then has the value \<^const>\<open>None\<close>. The search mutates \<open>info\<close>; the model
  returns the new one beside the cycle it found (the empty list for Go's \<open>nil\<close>).
\<close>

subsection \<open>The search\<close>

record graph =
  Order :: nat
  EdgesFrom :: "nat \<Rightarrow> nat list"

record cycleNode =
  Visited :: bool
  OnStack :: bool

type_synonym cycleInfo = "cycleNode list"

definition newCycleInfo :: "nat \<Rightarrow> cycleInfo" where
  "newCycleInfo order = replicate order \<lparr>Visited = False, OnStack = False\<rparr>"

definition Reset :: "cycleInfo \<Rightarrow> cycleInfo" where
  "Reset info = map (\<lambda>n. n\<lparr>OnStack := False\<rparr>) info"

text \<open>The loop that prunes the path to the cyclic nodes, from index \<open>i - 1\<close> downwards.\<close>

fun pruneCycle :: "nat list \<Rightarrow> nat \<Rightarrow> nat \<Rightarrow> nat list" where
  "pruneCycle cycle v 0 = cycle"
| "pruneCycle cycle v (Suc i) = (if cycle ! i = v then drop i cycle else pruneCycle cycle v i)"

function (sequential)
  isAcyclic :: "graph \<Rightarrow> nat \<Rightarrow> cycleInfo \<Rightarrow> nat list \<Rightarrow> (nat list \<times> cycleInfo) option"
  and isAcyclicEdges ::
    "graph \<Rightarrow> nat \<Rightarrow> nat list \<Rightarrow> cycleInfo \<Rightarrow> nat list \<Rightarrow> (nat list \<times> cycleInfo) option"
where
  "isAcyclic g u info path =
     (if length info \<le> u then None
      else if Visited (info ! u) then Some ([], info)
      else isAcyclicEdges g u (EdgesFrom g u)
             (info[u := \<lparr>Visited = True, OnStack = True\<rparr>]) (path @ [u]))"
| "isAcyclicEdges g u [] info path = Some ([], info[u := (info ! u)\<lparr>OnStack := False\<rparr>])"
| "isAcyclicEdges g u (v # vs) info path =
     (if length info \<le> v then None
      else if \<not> Visited (info ! v) then
        (case isAcyclic g v info path of
           None \<Rightarrow> None
         | Some (cycle, info') \<Rightarrow>
             if length cycle > 0 then Some (cycle, info')
             else isAcyclicEdges g u vs info' path)
      else if OnStack (info ! v) then
        Some (pruneCycle path v (length path) @ [v], info)
      else isAcyclicEdges g u vs info path)"
  by pat_completeness auto

text \<open>
  The recursion is nested: the loop goes on with the \<open>info\<close> that the recursive call returned.
  It stops because a call never makes a visited node unvisited, which is shown on the domain of
  the function first.
\<close>

abbreviation unvisited :: "cycleInfo \<Rightarrow> nat" where
  "unvisited info \<equiv> length (filter (\<lambda>n. \<not> Visited n) info)"

lemma isAcyclic_unvisited_dom:
  "isAcyclic_isAcyclicEdges_dom (Inl (g, u, info, path)) \<Longrightarrow>
     isAcyclic g u info path = Some (c, info') \<Longrightarrow>
     unvisited info' \<le> unvisited info \<and> length info' = length info"
  "isAcyclic_isAcyclicEdges_dom (Inr (g, u, vs, info, path)) \<Longrightarrow> u < length info \<Longrightarrow>
     isAcyclicEdges g u vs info path = Some (c, info') \<Longrightarrow>
     unvisited info' \<le> unvisited info \<and> length info' = length info"
proof (induction g u info path and g u vs info path
    arbitrary: c info' and c info' rule: isAcyclic_isAcyclicEdges.pinduct)
  case (1 g u info path)
  show ?case
  proof (cases "length info \<le> u \<or> Visited (info ! u)")
    case True
    with 1 show ?thesis by (auto simp: isAcyclic.psimps split: if_splits)
  next
    case False
    with 1 have "unvisited info' \<le> unvisited (info[u := \<lparr>Visited = True, OnStack = True\<rparr>])
        \<and> length info' = length info"
      by (simp add: isAcyclic.psimps)
    moreover have "unvisited (info[u := \<lparr>Visited = True, OnStack = True\<rparr>]) \<le> unvisited info"
      using False by (intro filter_length_update_le) auto
    ultimately show ?thesis by linarith
  qed
next
  case (2 g u info path)
  have "unvisited (info[u := (info ! u)\<lparr>OnStack := False\<rparr>]) \<le> unvisited info"
    using 2 by (intro filter_length_update_le) auto
  with 2 show ?case by (auto simp: isAcyclicEdges.psimps)
next
  case (3 g u v vs info path)
  note ret = "3.prems"(2) [unfolded isAcyclicEdges.psimps(2) [OF "3.hyps"]]
  consider "length info \<le> v" | "v < length info" "Visited (info ! v)"
    | "v < length info" "\<not> Visited (info ! v)" by linarith
  then show ?case
  proof cases
    case 1
    with ret show ?thesis by simp
  next
    case 2
    with ret "3.prems"(1) "3.IH"(3) [of c info'] show ?thesis by (simp split: if_splits)
  next
    case 3
    with ret obtain c1 info1 where rec: "isAcyclic g v info path = Some (c1, info1)"
      by (auto split: option.splits)
    with 3 "3.IH"(1) have le: "unvisited info1 \<le> unvisited info \<and> length info1 = length info"
      by simp
    show ?thesis
    proof (cases "length c1 > 0")
      case True
      with ret 3 rec le show ?thesis by simp
    next
      case False
      with ret 3 rec have "isAcyclicEdges g u vs info1 path = Some (c, info')" by simp
      with "3.IH"(2) [OF _ _ rec] 3 False le "3.prems"(1)
      have "unvisited info' \<le> unvisited info1 \<and> length info' = length info1" by simp
      with le show ?thesis by linarith
    qed
  qed
qed

termination isAcyclic
proof (relation "measures [case_sum (\<lambda>(g, u, info, path). unvisited info)
      (\<lambda>(g, u, vs, info, path). unvisited info),
    case_sum (\<lambda>_. 0) (\<lambda>(g, u, vs, info, path). Suc (length vs))]", goal_cases)
  case 1
  show ?case by simp
next
  case (2 g u info path)
  then show ?case by (auto intro: filter_length_update_less)
next
  case (3 g u v vs info path)
  then show ?case by simp
next
  case (4 g u v vs info path x2 cycle info')
  then show ?case
    using isAcyclic_unvisited_dom(1)[of g v info path cycle info'] by (auto simp: order_le_less)
next
  case (5 g u v vs info path)
  then show ?case by simp
qed


declare isAcyclic.simps [simp del] isAcyclicEdges.simps [simp del]

text \<open>The loop over the start nodes, with \<open>is\<close> the indices still to visit.\<close>

fun IsAcyclicLoop :: "graph \<Rightarrow> nat list \<Rightarrow> cycleInfo \<Rightarrow> (bool \<times> nat list) option" where
  "IsAcyclicLoop g [] info = Some (True, [])"
| "IsAcyclicLoop g (i # is) info =
     (case isAcyclic g i (Reset info) [] of
        None \<Rightarrow> None
      | Some (cycle, info') \<Rightarrow>
          if length cycle > 0 then Some (False, cycle) else IsAcyclicLoop g is info')"

definition IsAcyclic :: "graph \<Rightarrow> (bool \<times> nat list) option" where
  "IsAcyclic g = IsAcyclicLoop g [0..<Order g] (newCycleInfo (Order g))"

subsection \<open>What a graph and a cycle are\<close>

definition graph_ok :: "graph \<Rightarrow> bool" where
  "graph_ok g \<longleftrightarrow> (\<forall>u < Order g. \<forall>v \<in> set (EdgesFrom g u). v < Order g)"

definition edges :: "graph \<Rightarrow> (nat \<times> nat) set" where
  "edges g = {(u, v). u < Order g \<and> v \<in> set (EdgesFrom g u)}"

definition is_cycle :: "graph \<Rightarrow> nat list \<Rightarrow> bool" where
  "is_cycle g c \<longleftrightarrow> 2 \<le> length c \<and> hd c = last c \<and> distinct (butlast c)
     \<and> successively (\<lambda>a b. (a, b) \<in> edges g) c"

text \<open>
  A node is safe when no infinite path leaves it: it is accessible for the converse of the edge
  relation. The search keeps that every node it has left is safe.
\<close>

abbreviation safe :: "graph \<Rightarrow> nat set" where
  "safe g \<equiv> Wellfounded.acc ((edges g)\<inverse>)"

definition info_ok :: "graph \<Rightarrow> cycleInfo \<Rightarrow> nat list \<Rightarrow> bool" where
  "info_ok g info path \<longleftrightarrow>
     length info = Order g \<and> distinct path \<and> set path \<subseteq> {..<Order g} \<and>
     successively (\<lambda>a b. (a, b) \<in> edges g) path \<and>
     (\<forall>x < Order g. (OnStack (info ! x) \<longleftrightarrow> x \<in> set path) \<and>
        (OnStack (info ! x) \<longrightarrow> Visited (info ! x)) \<and>
        (Visited (info ! x) \<longrightarrow> \<not> OnStack (info ! x) \<longrightarrow> x \<in> safe g))"

lemma safeI: "(\<And>v. v \<in> set (EdgesFrom g u) \<Longrightarrow> v \<in> safe g) \<Longrightarrow> u \<in> safe g"
  by (rule accI) (auto simp: edges_def)

lemma pruneCycle_in:
  "i \<le> length path \<Longrightarrow> v \<in> set (take i path) \<Longrightarrow>
     \<exists>j < i. path ! j = v \<and> pruneCycle path v i = drop j path"
proof (induction i)
  case (Suc i)
  show ?case
  proof (cases "path ! i = v")
    case True
    then show ?thesis by auto
  next
    case False
    with Suc.prems have "v \<in> set (take i path)" by (auto simp: take_Suc_conv_app_nth)
    with Suc obtain j where "j < i" "path ! j = v" "pruneCycle path v i = drop j path" by auto
    with False have "j < Suc i \<and> path ! j = v \<and> pruneCycle path v (Suc i) = drop j path" by simp
    then show ?thesis by blast
  qed
qed simp

lemma successively_suffix:
  "successively P (xs @ ys) \<Longrightarrow> successively P ys"
  by (auto simp: successively_append_iff)

lemma pruned_is_cycle:
  assumes "successively (\<lambda>a b. (a, b) \<in> edges g) path" and "distinct path" and "v \<in> set path"
    and "(last path, v) \<in> edges g"
  shows "is_cycle g (pruneCycle path v (length path) @ [v])"
proof -
  obtain j where j: "j < length path" "path ! j = v"
    and pr: "pruneCycle path v (length path) = drop j path"
    using pruneCycle_in [of "length path" path v] assms(3) by auto
  from j have ne: "drop j path \<noteq> []" and hd: "hd (drop j path) = v"
    by (simp_all add: hd_drop_conv_nth)
  have "successively (\<lambda>a b. (a, b) \<in> edges g) (drop j path)"
    using assms(1) by (metis append_take_drop_id successively_suffix)
  moreover have "last (drop j path) = last path" using j by simp
  moreover have "hd (drop j path @ [v]) = v" using ne hd by simp
  moreover have "0 < length (drop j path)" using j by simp
  ultimately show ?thesis using assms(2,4) ne
    by (simp add: is_cycle_def pr successively_append_iff)
qed

subsection \<open>The search is correct\<close>

definition search_post :: "graph \<Rightarrow> cycleInfo \<Rightarrow> nat list \<Rightarrow> nat \<Rightarrow> (nat list \<times> cycleInfo) option \<Rightarrow> bool" where
  "search_post g info path u r \<longleftrightarrow>
     (\<exists>c info'. r = Some (c, info') \<and>
        (if c = [] then info_ok g info' path \<and> Visited (info' ! u) \<and>
             (\<forall>x < Order g. Visited (info ! x) \<longrightarrow> Visited (info' ! x))
         else is_cycle g c))"

lemma info_ok_push:
  assumes "info_ok g info path" and "u < Order g" and "\<not> Visited (info ! u)"
    and "path = [] \<or> (last path, u) \<in> edges g"
  shows "info_ok g (info[u := \<lparr>Visited = True, OnStack = True\<rparr>]) (path @ [u])"
  using assms by (auto simp: info_ok_def nth_list_update successively_append_iff)

lemma info_ok_pop:
  assumes "info_ok g info (path @ [u])" and "u \<in> safe g"
  shows "info_ok g (info[u := (info ! u)\<lparr>OnStack := False\<rparr>]) path"
  using assms by (auto simp: info_ok_def nth_list_update successively_append_iff)

lemma search_correct:
  "graph_ok g \<Longrightarrow> u < Order g \<Longrightarrow> info_ok g info path \<Longrightarrow>
     path = [] \<or> (last path, u) \<in> edges g \<Longrightarrow>
     (Visited (info ! u) \<longrightarrow> u \<notin> set path) \<Longrightarrow>
     search_post g info path u (isAcyclic g u info path)"
  "graph_ok g \<Longrightarrow> u < Order g \<Longrightarrow> info_ok g info (p @ [u]) \<Longrightarrow> path = p @ [u] \<Longrightarrow>
     set vs \<subseteq> set (EdgesFrom g u) \<Longrightarrow>
     (\<forall>v \<in> set (EdgesFrom g u) - set vs. v \<in> safe g) \<Longrightarrow>
     search_post g info p u (isAcyclicEdges g u vs info path)"
proof (induction g u info path and g u vs info path
    arbitrary: and p rule: isAcyclic_isAcyclicEdges.induct)
  case (1 g u info path)
  show ?case
  proof (cases "Visited (info ! u)")
    case True
    with 1 show ?thesis by (simp add: isAcyclic.simps search_post_def info_ok_def)
  next
    case False
    let ?info = "info[u := \<lparr>Visited = True, OnStack = True\<rparr>]"
    have len: "\<not> length info \<le> u" using 1 by (simp add: info_ok_def)
    have "info_ok g ?info (path @ [u])" using 1 False by (intro info_ok_push)
    then have "search_post g ?info path u (isAcyclicEdges g u (EdgesFrom g u) ?info (path @ [u]))"
      using 1 False len by (intro "1.IH") auto
    then show ?thesis using False len "1.prems"(3)
      by (fastforce simp: isAcyclic.simps [of g u info path] search_post_def info_ok_def
          nth_list_update split: if_splits)
  qed
next
  case (2 g u info path)
  have "u \<in> safe g" by (rule safeI) (use "2.prems"(6) in simp)
  with "2.prems"(3) have "info_ok g (info[u := (info ! u)\<lparr>OnStack := False\<rparr>]) p"
    by (intro info_ok_pop)
  moreover have "Visited (info ! u)" "u < length info" "length info = Order g"
    using "2.prems"(2,3) by (auto simp: info_ok_def)
  ultimately show ?case
    by (auto simp: isAcyclicEdges.simps search_post_def nth_list_update)
next
  case (3 g u v vs info path)
  have v: "v < Order g" and uv: "(u, v) \<in> edges g" and len: "length info = Order g"
    using "3.prems"(1,2,3,5) by (auto simp: graph_ok_def edges_def info_ok_def)
  show ?case
  proof (cases "Visited (info ! v)")
    case True
    show ?thesis
    proof (cases "OnStack (info ! v)")
      case os: True
      with "3.prems"(3,4) True v uv have "is_cycle g (pruneCycle path v (length path) @ [v])"
        by (intro pruned_is_cycle) (auto simp: info_ok_def)
      with True os v len show ?thesis
        by (simp add: isAcyclicEdges.simps(2) [of g u v vs info path] search_post_def)
    next
      case False
      with True "3.prems"(3) v have "v \<in> safe g" by (simp add: info_ok_def)
      with "3.prems" have "\<forall>x \<in> set (EdgesFrom g u) - set vs. x \<in> safe g" by auto
      with "3.IH"(3) False True "3.prems" v len
      have "search_post g info p u (isAcyclicEdges g u vs info path)" by simp
      with False True v len show ?thesis
        by (simp add: isAcyclicEdges.simps(2) [of g u v vs info path])
    qed
  next
    case False
    with "3.IH"(1) "3.prems" v uv len
    have post: "search_post g info path v (isAcyclic g v info path)" by simp
    then obtain c info1 where rec: "isAcyclic g v info path = Some (c, info1)"
      by (auto simp: search_post_def)
    show ?thesis
    proof (cases "c = []")
      case c: True
      with post rec have ok1: "info_ok g info1 path" and vis: "Visited (info1 ! v)"
        and mono: "\<forall>x < Order g. Visited (info ! x) \<longrightarrow> Visited (info1 ! x)"
        by (auto simp: search_post_def)
      have "v \<notin> set path" using "3.prems"(3,4) False v by (auto simp: info_ok_def)
      with ok1 vis v have "v \<in> safe g" by (auto simp: info_ok_def)
      with "3.prems" have "\<forall>x \<in> set (EdgesFrom g u) - set vs. x \<in> safe g" by auto
      with "3.IH"(2) [OF _ _ rec] "3.prems" False v len c ok1
      have "search_post g info1 p u (isAcyclicEdges g u vs info1 path)" by simp
      moreover have "isAcyclicEdges g u (v # vs) info path = isAcyclicEdges g u vs info1 path"
        using False v len rec c by (simp add: isAcyclicEdges.simps(2) [of g u v vs info path])
      ultimately show ?thesis using mono by (auto simp: search_post_def split: if_splits)
    next
      case c: False
      with post rec False v len show ?thesis
        by (simp add: isAcyclicEdges.simps(2) [of g u v vs info path] search_post_def)
    qed
  qed
qed


lemma info_ok_Reset: "info_ok g info [] \<Longrightarrow> info_ok g (Reset info) []"
  by (auto simp: info_ok_def Reset_def)

lemma info_ok_new: "info_ok g (newCycleInfo (Order g)) []"
  by (auto simp: info_ok_def newCycleInfo_def)

lemma IsAcyclicLoop_correct:
  "graph_ok g \<Longrightarrow> set is \<subseteq> {..<Order g} \<Longrightarrow> info_ok g info [] \<Longrightarrow>
     (\<forall>x < Order g. x \<notin> set is \<longrightarrow> x \<in> safe g) \<Longrightarrow>
     (IsAcyclicLoop g is info = Some (True, []) \<and> (\<forall>x < Order g. x \<in> safe g)) \<or>
     (\<exists>c. IsAcyclicLoop g is info = Some (False, c) \<and> is_cycle g c)"
proof (induction "is" arbitrary: info)
  case (Cons i "is")
  have i: "i < Order g" and ok: "info_ok g (Reset info) []"
    using Cons.prems by (auto intro: info_ok_Reset)
  then have "search_post g (Reset info) [] i (isAcyclic g i (Reset info) [])"
    using Cons.prems(1) by (intro search_correct(1)) auto
  then obtain c info' where rec: "isAcyclic g i (Reset info) [] = Some (c, info')"
    and post: "if c = [] then info_ok g info' [] \<and> Visited (info' ! i) else is_cycle g c"
    by (auto simp: search_post_def split: if_splits)
  show ?case
  proof (cases "c = []")
    case True
    with post i have ok': "info_ok g info' []" and "i \<in> safe g"
      by (auto simp: info_ok_def)
    with Cons.prems have "\<forall>x < Order g. x \<notin> set is \<longrightarrow> x \<in> safe g" by auto
    with Cons.IH [of info'] Cons.prems ok' True rec show ?thesis by simp
  next
    case False
    with post rec show ?thesis by simp
  qed
qed simp

lemma safe_acyclic:
  assumes "\<forall>x < Order g. x \<in> safe g"
  shows "acyclic (edges g)"
proof -
  have "x \<in> safe g" for x
  proof (cases "x < Order g")
    case False
    show ?thesis by (rule accI) (use False in \<open>simp add: edges_def\<close>)
  qed (use assms in simp)
  then have "wf ((edges g)\<inverse>)" by (intro acc_wfI) simp
  then have "acyclic ((edges g)\<inverse>)" by (rule wf_acyclic)
  then show ?thesis by (simp only: acyclic_converse)
qed

lemma successively_rtrancl:
  "successively (\<lambda>a b. (a, b) \<in> R) (x # xs) \<Longrightarrow> (x, last (x # xs)) \<in> R\<^sup>*"
  by (induction xs arbitrary: x) (auto intro: converse_rtrancl_into_rtrancl)

lemma cycle_not_acyclic: "is_cycle g c \<Longrightarrow> \<not> acyclic (edges g)"
proof
  assume c: "is_cycle g c" and ac: "acyclic (edges g)"
  then obtain x y zs where "c = x # y # zs"
    by (cases c; cases "tl c") (auto simp: is_cycle_def)
  with c have "(x, y) \<in> edges g" "(y, x) \<in> (edges g)\<^sup>*"
    using successively_rtrancl [of "edges g" y zs] by (auto simp: is_cycle_def split: if_splits)
  then have "(x, x) \<in> (edges g)\<^sup>+" by (rule rtrancl_into_trancl2)
  with ac show False by (auto simp: acyclic_def)
qed

lemma IsAcyclic_cases:
  assumes "graph_ok g"
  shows "(IsAcyclic g = Some (True, []) \<and> acyclic (edges g)) \<or>
    (\<exists>c. IsAcyclic g = Some (False, c) \<and> is_cycle g c \<and> \<not> acyclic (edges g))"
proof -
  have "\<forall>x < Order g. x \<notin> set [0..<Order g] \<longrightarrow> x \<in> safe g"
    and "set [0..<Order g] \<subseteq> {..<Order g}" by auto
  with IsAcyclicLoop_correct [OF assms _ info_ok_new, of "[0..<Order g]"] show ?thesis
    by (auto simp: IsAcyclic_def intro: safe_acyclic dest: cycle_not_acyclic)
qed

text \<open>
  C13: \<open>IsAcyclic\<close> decides acyclicity. On a graph whose edges stay inside its nodes it returns
  \<open>(true, nil)\<close> exactly when the edge relation has no cycle.
\<close>

theorem IsAcyclic_decides:
  "graph_ok g \<Longrightarrow> (IsAcyclic g = Some (True, [])) = acyclic (edges g)"
  using IsAcyclic_cases [of g] by auto

definition two_node_graph :: graph where
  "two_node_graph = \<lparr>Order = 3, EdgesFrom = (\<lambda>u. if u = 0 then [1, 2] else if u = 1 then [2] else [])\<rparr>"

theorem IsAcyclic_decides_witness:
  "graph_ok two_node_graph \<and> (IsAcyclic two_node_graph = Some (True, [])) = acyclic (edges two_node_graph)"
proof -
  have "graph_ok two_node_graph" by (auto simp: graph_ok_def two_node_graph_def)
  with IsAcyclic_decides [of two_node_graph] show ?thesis by simp
qed

text \<open>
  C14: when the edge relation has a cycle, \<open>IsAcyclic\<close> returns \<open>false\<close> and a witness: a path
  along edges that ends in the node it starts with and repeats no other node. It never panics
  and never runs on.
\<close>

theorem IsAcyclic_reports_cycle:
  "graph_ok g \<Longrightarrow> \<not> acyclic (edges g) \<Longrightarrow> \<exists>c. IsAcyclic g = Some (False, c) \<and> is_cycle g c"
  using IsAcyclic_cases [of g] by auto

definition loop_graph :: graph where
  "loop_graph = \<lparr>Order = 3, EdgesFrom = (\<lambda>u. if u = 0 then [1] else if u = 1 then [2] else [1])\<rparr>"

theorem IsAcyclic_reports_cycle_witness:
  "graph_ok loop_graph \<and> \<not> acyclic (edges loop_graph) \<and>
     (\<exists>c. IsAcyclic loop_graph = Some (False, c) \<and> is_cycle loop_graph c)"
proof -
  have ok: "graph_ok loop_graph" by (auto simp: graph_ok_def loop_graph_def)
  have "is_cycle loop_graph [1, 2, 1]"
    by (simp add: is_cycle_def edges_def loop_graph_def)
  then have "\<not> acyclic (edges loop_graph)" by (rule cycle_not_acyclic)
  with ok IsAcyclic_reports_cycle [OF ok] show ?thesis by blast
qed

end
