(* ===== verification/Store.thy ===== *)
theory Store
  imports Tags CycleCheck
begin

text \<open>
  The state of a container (src/scope.go, src/container.go, src/graph.go and the data of
  src/param.go, src/result.go, src/constructor.go, src/decorate.go).

  Everything the code reaches through a pointer lives in a \<open>store\<close>: a \<open>*Scope\<close>, a
  \<open>*constructorNode\<close> and a \<open>*decoratorNode\<close> are indices into its lists, and so is the shared
  \<open>orders\<close> map of a \<open>paramGroupedSlice\<close>. A store holds one container: scope 0 is the scope of
  the \<open>Container\<close>, and nothing is ever removed from its lists.

  User code is not part of the program. It enters as an \<open>env\<close>: \<open>env_call\<close> is what a function given
  to the container does on its arguments, and may depend on everything that was called before
  (the log), so that functions with state are covered; it does not call back into the container.
  \<open>env_perm\<close> is the permutation that the n-th \<open>rand.Perm\<close> of a scope draws, \<open>env_now\<close> the n-th
  reading of the clock.
\<close>

subsection \<open>Functions given to the container\<close>

record gofn =
  fn_id :: nat
  fn_ptr :: nat
  fn_type :: gotype
  fn_rt :: runtime_func

definition InspectFunc :: "gofn \<Rightarrow> Func" where
  "InspectFunc f = funcOf (fn_rt f)"

text \<open>An \<open>interface{}\<close> argument: nil, a function, or any other value with its type.\<close>

datatype iface = INil | IFunc gofn | IVal gotype

definition TypeOf :: "iface \<Rightarrow> gotype option" where
  "TypeOf i = (case i of INil \<Rightarrow> None | IFunc f \<Rightarrow> Some (fn_type f) | IVal t \<Rightarrow> Some t)"

text \<open>
  The log of what the container ran: user functions with their arguments and on whose behalf (a
  constructor node, a decorator node or an \<open>Invoke\<close>), and callbacks.
\<close>

datatype caller = ByCtor nat | ByDecorator nat | ByInvoke

datatype event =
    EvCall caller nat "gval list"
  | EvBefore nat string
  | EvCallback nat string "goerr option" int

datatype outcome = OReturn "gval list" | OPanic gval

record env =
  env_call :: "nat \<Rightarrow> event list \<Rightarrow> gval list \<Rightarrow> outcome"
  env_perm :: "nat \<Rightarrow> nat \<Rightarrow> nat \<Rightarrow> nat list"
  env_now :: "nat \<Rightarrow> int"

subsection \<open>Parameters, results and nodes\<close>

datatype param =
    paramSingle (psName: string) (psOptional: bool) (psType: gotype)
  | paramObject gotype "paramObjectField list"
  | paramGroupedSlice (pgGroup: string) (pgType: gotype) (pgSoft: bool) (pgOrders: nat)
and paramObjectField =
    paramObjectField (pofName: string) (pofIndex: nat) (pofParam: param)

record paramList =
  plCtype :: gotype
  Params :: "param list"

datatype result =
    resultSingle string gotype "gotype list"
  | resultObject gotype "resultObjectField list"
  | resultGrouped string gotype bool "gotype list"
and resultObjectField =
    resultObjectField (rofName: string) (rofIndex: nat) (rofResult: result)

text \<open>\<open>resultIndexes\<close> has -1 at the positions of errors.\<close>

record resultList =
  rlCtype :: gotype
  Results :: "result list"
  resultIndexes :: "int list"

type_synonym orders = "(nat \<times> nat) list"

record constructorNode =
  cn_ctor :: gofn
  cn_ctype :: gotype
  cn_location :: Func
  cn_id :: nat
  cn_called :: bool
  cn_paramList :: paramList
  cn_resultList :: resultList
  cn_orders :: orders
  cn_s :: nat
  cn_origS :: nat
  cn_callback :: "nat option"
  cn_beforeCallback :: "nat option"

datatype decoratorState = decoratorReady | decoratorOnStack | decoratorCalled

record decoratorNode =
  dn_dcor :: gofn
  dn_dtype :: gotype
  dn_id :: nat
  dn_location :: Func
  dn_state :: decoratorState
  dn_params :: paramList
  dn_results :: resultList
  dn_s :: nat
  dn_callback :: "nat option"
  dn_beforeCallback :: "nat option"

subsection \<open>Scopes and the store\<close>

text \<open>What a graph node wraps: a \<open>*constructorNode\<close> or a \<open>*paramGroupedSlice\<close>.\<close>

datatype gnode = NCtor nat | NGroup string gotype

record graphHolder =
  gh_nodes :: "gnode list"
  gh_snap :: int

datatype invoker = defaultInvoker | dryInvoker

record scope =
  sc_name :: string
  providers :: "(key \<times> nat list) list"
  decorators :: "(key \<times> nat) list"
  nodes :: "nat list"
  decoratedValues :: "(key \<times> gval) list"
  sc_values :: "(key \<times> gval) list"
  groups :: "(key \<times> gval list) list"
  decoratedGroups :: "(key \<times> gval) list"
  rand :: nat
  isVerifiedAcyclic :: bool
  deferAcyclicVerification :: bool
  recoverFromPanics :: bool
  invokerFn :: invoker
  gh :: graphHolder
  parentScope :: "nat option"
  childScopes :: "nat list"

record store =
  scopes :: "scope list"
  ctors :: "constructorNode list"
  dcors :: "decoratorNode list"
  orderMaps :: "orders list"
  log :: "event list"
  ticks :: nat

abbreviation scope_of :: "store \<Rightarrow> nat \<Rightarrow> scope" where
  "scope_of \<sigma> s \<equiv> scopes \<sigma> ! s"

abbreviation ctor_of :: "store \<Rightarrow> nat \<Rightarrow> constructorNode" where
  "ctor_of \<sigma> n \<equiv> ctors \<sigma> ! n"

abbreviation dcor_of :: "store \<Rightarrow> nat \<Rightarrow> decoratorNode" where
  "dcor_of \<sigma> d \<equiv> dcors \<sigma> ! d"

definition upd_scope :: "nat \<Rightarrow> (scope \<Rightarrow> scope) \<Rightarrow> store \<Rightarrow> store" where
  "upd_scope s f \<sigma> = \<sigma>\<lparr>scopes := (scopes \<sigma>)[s := f (scope_of \<sigma> s)]\<rparr>"

definition upd_ctor :: "nat \<Rightarrow> (constructorNode \<Rightarrow> constructorNode) \<Rightarrow> store \<Rightarrow> store" where
  "upd_ctor n f \<sigma> = \<sigma>\<lparr>ctors := (ctors \<sigma>)[n := f (ctor_of \<sigma> n)]\<rparr>"

definition upd_dcor :: "nat \<Rightarrow> (decoratorNode \<Rightarrow> decoratorNode) \<Rightarrow> store \<Rightarrow> store" where
  "upd_dcor d f \<sigma> = \<sigma>\<lparr>dcors := (dcors \<sigma>)[d := f (dcor_of \<sigma> d)]\<rparr>"

definition emit :: "event \<Rightarrow> store \<Rightarrow> store" where
  "emit e \<sigma> = \<sigma>\<lparr>log := log \<sigma> @ [e]\<rparr>"

definition newGraphHolder :: graphHolder where
  "newGraphHolder = \<lparr>gh_nodes = [], gh_snap = -1\<rparr>"

definition newScope :: scope where
  "newScope = \<lparr>sc_name = '''', providers = [], decorators = [], nodes = [],
     decoratedValues = [], sc_values = [], groups = [], decoratedGroups = [], rand = 0,
     isVerifiedAcyclic = False, deferAcyclicVerification = False, recoverFromPanics = False,
     invokerFn = defaultInvoker, gh = newGraphHolder, parentScope = None, childScopes = []\<rparr>"

end
