(* ===== verification/Effects.thy ===== *)
theory Effects
  imports Errors
begin

text \<open>
  Running effectful code: a computation takes a state and returns an outcome and the new state,
  also when it returned an error or panicked, since what it wrote before stays written. \<open>bindS\<close> is
  sequencing with early return, \<open>forS\<close> and \<open>mapS\<close> are the loops over a slice that stop at the first
  error.

  The locale \<open>state_relation\<close> is the interface of a relation between the states before and after a
  piece of code that sequencing keeps: reflexive and transitive. The lemmas on \<open>keeps\<close> then
  compose statements about single operations to statements about whole handlers.
\<close>

type_synonym ('s, 'a) eff = "'s \<Rightarrow> 'a res \<times> 's"

definition retS :: "'a \<Rightarrow> ('s, 'a) eff" where
  "retS a \<sigma> = (Ret a, \<sigma>)"

definition throwS :: "goerr \<Rightarrow> ('s, 'a) eff" where
  "throwS e \<sigma> = (Throw e, \<sigma>)"

definition panicS :: "gval \<Rightarrow> ('s, 'a) eff" where
  "panicS p \<sigma> = (Panicked p, \<sigma>)"

definition liftS :: "'a res \<Rightarrow> ('s, 'a) eff" where
  "liftS r \<sigma> = (r, \<sigma>)"

definition doS :: "('s \<Rightarrow> 's) \<Rightarrow> ('s, unit) eff" where
  "doS f \<sigma> = (Ret (), f \<sigma>)"

definition bindS :: "('s, 'a) eff \<Rightarrow> ('a \<Rightarrow> ('s, 'b) eff) \<Rightarrow> ('s, 'b) eff" where
  "bindS m f \<sigma> = (case m \<sigma> of
       (Ret a, \<sigma>') \<Rightarrow> f a \<sigma>'
     | (Throw e, \<sigma>') \<Rightarrow> (Throw e, \<sigma>')
     | (Panicked p, \<sigma>') \<Rightarrow> (Panicked p, \<sigma>')
     | (Diverged, \<sigma>') \<Rightarrow> (Diverged, \<sigma>'))"

text \<open>Wrapping the error of a call: \<open>if err != nil \{ return wrap(err) \}\<close>.\<close>

definition wrapS :: "(goerr \<Rightarrow> goerr) \<Rightarrow> ('s, 'a) eff \<Rightarrow> ('s, 'a) eff" where
  "wrapS w m \<sigma> = (case m \<sigma> of (Throw e, \<sigma>') \<Rightarrow> (Throw (w e), \<sigma>') | r \<Rightarrow> r)"

fun forS :: "('x \<Rightarrow> ('s, unit) eff) \<Rightarrow> 'x list \<Rightarrow> ('s, unit) eff" where
  "forS f [] = retS ()"
| "forS f (x # xs) = bindS (f x) (\<lambda>_. forS f xs)"

fun mapS :: "('x \<Rightarrow> ('s, 'a) eff) \<Rightarrow> 'x list \<Rightarrow> ('s, 'a list) eff" where
  "mapS f [] = retS []"
| "mapS f (x # xs) = bindS (f x) (\<lambda>a. bindS (mapS f xs) (\<lambda>as. retS (a # as)))"

lemmas eff_defs = retS_def throwS_def panicS_def liftS_def doS_def bindS_def wrapS_def

lemma bindS_Ret [simp]: "m \<sigma> = (Ret a, \<sigma>') \<Longrightarrow> bindS m f \<sigma> = f a \<sigma>'"
  by (simp add: bindS_def)

lemma retS_app [simp]: "retS a \<sigma> = (Ret a, \<sigma>)"
  by (simp add: retS_def)

lemma throwS_app [simp]: "throwS e \<sigma> = (Throw e, \<sigma>)"
  by (simp add: throwS_def)

lemma panicS_app [simp]: "panicS p \<sigma> = (Panicked p, \<sigma>)"
  by (simp add: panicS_def)

lemma liftS_app [simp]: "liftS r \<sigma> = (r, \<sigma>)"
  by (simp add: liftS_def)

lemma doS_app [simp]: "doS f \<sigma> = (Ret (), f \<sigma>)"
  by (simp add: doS_def)

lemma bindS_eq_Ret:
  "bindS m f \<sigma> = (Ret b, \<sigma>2) \<longleftrightarrow> (\<exists>a \<sigma>1. m \<sigma> = (Ret a, \<sigma>1) \<and> f a \<sigma>1 = (Ret b, \<sigma>2))"
  by (auto simp: bindS_def split: prod.splits res.splits)

lemma wrapS_eq_Ret: "wrapS w m \<sigma> = (Ret b, \<sigma>2) \<longleftrightarrow> m \<sigma> = (Ret b, \<sigma>2)"
  by (auto simp: wrapS_def split: prod.splits res.splits)

lemma snd_bindS:
  "snd (bindS m f \<sigma>) = (case m \<sigma> of (Ret a, \<sigma>') \<Rightarrow> snd (f a \<sigma>') | (_, \<sigma>') \<Rightarrow> \<sigma>')"
  by (auto simp: bindS_def split: prod.splits res.splits)

lemma snd_wrapS [simp]: "snd (wrapS w m \<sigma>) = snd (m \<sigma>)"
  by (auto simp: wrapS_def split: prod.splits res.splits)

lemma mapS_length: "mapS f xs \<sigma> = (Ret ys, \<sigma>') \<Longrightarrow> length ys = length xs"
  by (induction xs arbitrary: \<sigma> ys) (auto simp: bindS_eq_Ret)

text \<open>Two computations with the same steps: loops are congruent.\<close>

lemma forS_cong [fundef_cong]:
  "xs = ys \<Longrightarrow> (\<And>x. x \<in> set ys \<Longrightarrow> f x = g x) \<Longrightarrow> forS f xs = forS g ys"
  by (induction ys arbitrary: xs) auto

lemma mapS_cong [fundef_cong]:
  "xs = ys \<Longrightarrow> (\<And>x. x \<in> set ys \<Longrightarrow> f x = g x) \<Longrightarrow> mapS f xs = mapS g ys"
  by (induction ys arbitrary: xs) auto

lemma forS_append: "forS f (xs @ ys) \<sigma> = bindS (forS f xs) (\<lambda>_. forS f ys) \<sigma>"
  by (induction xs arbitrary: \<sigma>) (auto simp: bindS_def split: prod.splits res.splits)

lemma forS_doS: "forS (\<lambda>x. doS (f x)) xs \<sigma> = (Ret (), fold f xs \<sigma>)"
  by (induction xs arbitrary: \<sigma>) (auto simp: bindS_def)

subsection \<open>Relations that sequencing keeps\<close>

definition keeps :: "('s \<Rightarrow> 's \<Rightarrow> bool) \<Rightarrow> ('s, 'a) eff \<Rightarrow> bool" where
  "keeps R m \<longleftrightarrow> (\<forall>\<sigma>. R \<sigma> (snd (m \<sigma>)))"

lemma keepsI: "(\<And>\<sigma>. R \<sigma> (snd (m \<sigma>))) \<Longrightarrow> keeps R m"
  by (simp add: keeps_def)

lemma keepsD: "keeps R m \<Longrightarrow> m \<sigma> = (r, \<sigma>') \<Longrightarrow> R \<sigma> \<sigma>'"
  by (metis keeps_def snd_conv)

locale state_relation =
  fixes R :: "'s \<Rightarrow> 's \<Rightarrow> bool"
  assumes R_refl: "R \<sigma> \<sigma>"
    and R_trans: "R \<sigma>1 \<sigma>2 \<Longrightarrow> R \<sigma>2 \<sigma>3 \<Longrightarrow> R \<sigma>1 \<sigma>3"
begin

lemma keeps_retS: "keeps R (retS a)"
  by (simp add: keeps_def R_refl)

lemma keeps_throwS: "keeps R (throwS e)"
  by (simp add: keeps_def R_refl)

lemma keeps_panicS: "keeps R (panicS p)"
  by (simp add: keeps_def R_refl)

lemma keeps_liftS: "keeps R (liftS r)"
  by (simp add: keeps_def R_refl)

lemma keeps_doS: "(\<And>\<sigma>. R \<sigma> (f \<sigma>)) \<Longrightarrow> keeps R (doS f)"
  by (simp add: keeps_def)

lemma keeps_bindS: "keeps R m \<Longrightarrow> (\<And>a. keeps R (f a)) \<Longrightarrow> keeps R (bindS m f)"
  unfolding keeps_def snd_bindS
  by (auto split: prod.splits res.splits) (metis R_trans snd_conv)+

lemma keeps_wrapS: "keeps R m \<Longrightarrow> keeps R (wrapS w m)"
  by (simp add: keeps_def)

lemma keeps_forS: "(\<And>x. x \<in> set xs \<Longrightarrow> keeps R (f x)) \<Longrightarrow> keeps R (forS f xs)"
  by (induction xs) (auto intro!: keeps_bindS keeps_retS)

lemma keeps_mapS: "(\<And>x. x \<in> set xs \<Longrightarrow> keeps R (f x)) \<Longrightarrow> keeps R (mapS f xs)"
  by (induction xs) (auto intro!: keeps_bindS keeps_retS)

lemma keeps_if: "keeps R m \<Longrightarrow> keeps R m' \<Longrightarrow> keeps R (if b then m else m')"
  by simp

lemmas keeps_intros =
  keeps_retS keeps_throwS keeps_panicS keeps_liftS keeps_bindS keeps_wrapS keeps_forS keeps_mapS
  keeps_if

end

end
