(* ===== verification/Scope.thy ===== *)
theory Scope
  imports Store Effects "HOL-Library.Char_ord" "HOL-Library.List_Lexorder"
begin

text \<open>
  The operations of a scope (src/scope.go), of the graph holder (src/graph.go) and the container's
  options (src/container.go).

  The scope tree is walked along \<open>parentScope\<close> and \<open>childScopes\<close>. The walks carry fuel, the number
  of scopes in the store: in a well-formed tree (\<open>wf_tree\<close>) a parent has a smaller index than its
  children, so no walk is longer, and \<open>ancestors_unfold\<close> and \<open>appendSubscopes_unfold\<close> show that the
  walks satisfy the equations of the code's loops.
\<close>

subsection \<open>The graph holder\<close>

definition NewNode :: "gnode \<Rightarrow> graphHolder \<Rightarrow> nat \<times> graphHolder" where
  "NewNode w g = (length (gh_nodes g), g\<lparr>gh_nodes := gh_nodes g @ [w]\<rparr>)"

definition Lookup :: "graphHolder \<Rightarrow> nat \<Rightarrow> gnode option" where
  "Lookup g i = (if i < length (gh_nodes g) then Some (gh_nodes g ! i) else None)"

definition Snapshot :: "graphHolder \<Rightarrow> graphHolder" where
  "Snapshot g = g\<lparr>gh_snap := int (length (gh_nodes g))\<rparr>"

definition Rollback :: "graphHolder \<Rightarrow> graphHolder" where
  "Rollback g =
     (if gh_snap g < 0 then g
      else g\<lparr>gh_nodes := take (nat (gh_snap g)) (gh_nodes g), gh_snap := -1\<rparr>)"

text \<open>
  C20: \<open>Rollback\<close> undoes \<open>Snapshot\<close>: whatever nodes were added after the snapshot, the graph is
  back to the nodes it had, with no snapshot pending; a second \<open>Rollback\<close> changes nothing.
\<close>

theorem Rollback_Snapshot:
  "Rollback (fold (\<lambda>w g. snd (NewNode w g)) ws (Snapshot g)) = g\<lparr>gh_snap := -1\<rparr> \<and>
   Rollback (Rollback h) = Rollback h"
proof -
  have "fold (\<lambda>w g. snd (NewNode w g)) ws h = h\<lparr>gh_nodes := gh_nodes h @ ws\<rparr>" for h
    by (induction ws arbitrary: h) (simp_all add: NewNode_def)
  then show ?thesis by (simp add: Rollback_def Snapshot_def)
qed

subsection \<open>Walking the scope tree\<close>

fun ancestorsUpTo :: "nat \<Rightarrow> store \<Rightarrow> nat \<Rightarrow> nat list" where
  "ancestorsUpTo 0 \<sigma> s = []"
| "ancestorsUpTo (Suc k) \<sigma> s =
     s # (case parentScope (scope_of \<sigma> s) of None \<Rightarrow> [] | Some p \<Rightarrow> ancestorsUpTo k \<sigma> p)"

definition ancestors :: "store \<Rightarrow> nat \<Rightarrow> nat list" where
  "ancestors \<sigma> s = ancestorsUpTo (length (scopes \<sigma>)) \<sigma> s"

definition storesToRoot :: "store \<Rightarrow> nat \<Rightarrow> nat list" where
  "storesToRoot \<sigma> s = ancestors \<sigma> s"

fun rootScopeUpTo :: "nat \<Rightarrow> store \<Rightarrow> nat \<Rightarrow> nat" where
  "rootScopeUpTo 0 \<sigma> s = s"
| "rootScopeUpTo (Suc k) \<sigma> s =
     (case parentScope (scope_of \<sigma> s) of None \<Rightarrow> s | Some p \<Rightarrow> rootScopeUpTo k \<sigma> p)"

definition rootScope :: "store \<Rightarrow> nat \<Rightarrow> nat" where
  "rootScope \<sigma> s = rootScopeUpTo (length (scopes \<sigma>)) \<sigma> s"

fun appendSubscopesUpTo :: "nat \<Rightarrow> store \<Rightarrow> nat \<Rightarrow> nat list \<Rightarrow> nat list" where
  "appendSubscopesUpTo 0 \<sigma> s dest = dest"
| "appendSubscopesUpTo (Suc k) \<sigma> s dest =
     fold (\<lambda>cs dest. appendSubscopesUpTo k \<sigma> cs dest) (childScopes (scope_of \<sigma> s)) (dest @ [s])"

definition appendSubscopes :: "store \<Rightarrow> nat \<Rightarrow> nat list \<Rightarrow> nat list" where
  "appendSubscopes \<sigma> s dest = appendSubscopesUpTo (length (scopes \<sigma>)) \<sigma> s dest"

text \<open>\<open>newGraphNode\<close> adds the node to this scope and to every scope below it.\<close>

fun newGraphNodeUpTo :: "nat \<Rightarrow> gnode \<Rightarrow> nat \<Rightarrow> store \<times> orders \<Rightarrow> store \<times> orders" where
  "newGraphNodeUpTo 0 w s (\<sigma>, ords) = (\<sigma>, ords)"
| "newGraphNodeUpTo (Suc k) w s (\<sigma>, ords) =
     (let (order, g) = NewNode w (gh (scope_of \<sigma> s))
      in fold (\<lambda>cs. newGraphNodeUpTo k w cs) (childScopes (scope_of \<sigma> s))
           (upd_scope s (\<lambda>sc. sc\<lparr>gh := g\<rparr>) \<sigma>, AList.update s order ords))"

definition newGraphNode :: "gnode \<Rightarrow> nat \<Rightarrow> store \<times> orders \<Rightarrow> store \<times> orders" where
  "newGraphNode w s = (\<lambda>(\<sigma>, ords). newGraphNodeUpTo (length (scopes \<sigma>)) w s (\<sigma>, ords))"

subsection \<open>Reading and writing a scope\<close>

definition getValue :: "store \<Rightarrow> nat \<Rightarrow> string \<Rightarrow> gotype \<Rightarrow> gval option" where
  "getValue \<sigma> s name t = map_of (sc_values (scope_of \<sigma> s)) (value_key name t)"

definition getDecoratedValue :: "store \<Rightarrow> nat \<Rightarrow> string \<Rightarrow> gotype \<Rightarrow> gval option" where
  "getDecoratedValue \<sigma> s name t = map_of (decoratedValues (scope_of \<sigma> s)) (value_key name t)"

definition setValue :: "nat \<Rightarrow> string \<Rightarrow> gotype \<Rightarrow> gval \<Rightarrow> store \<Rightarrow> store" where
  "setValue s name t v = upd_scope s
     (\<lambda>sc. sc\<lparr>sc_values := AList.update (value_key name t) v (sc_values sc)\<rparr>)"

definition setDecoratedValue :: "nat \<Rightarrow> string \<Rightarrow> gotype \<Rightarrow> gval \<Rightarrow> store \<Rightarrow> store" where
  "setDecoratedValue s name t v = upd_scope s
     (\<lambda>sc. sc\<lparr>decoratedValues := AList.update (value_key name t) v (decoratedValues sc)\<rparr>)"

definition submitGroupedValue :: "nat \<Rightarrow> string \<Rightarrow> gotype \<Rightarrow> gval \<Rightarrow> store \<Rightarrow> store" where
  "submitGroupedValue s name t v = upd_scope s
     (\<lambda>sc. let k = group_key name t
           in sc\<lparr>groups := AList.update k (al_get [] (groups sc) k @ [v]) (groups sc)\<rparr>)"

definition submitDecoratedGroupedValue :: "nat \<Rightarrow> string \<Rightarrow> gotype \<Rightarrow> gval \<Rightarrow> store \<Rightarrow> store" where
  "submitDecoratedGroupedValue s name t v = upd_scope s
     (\<lambda>sc. sc\<lparr>decoratedGroups := AList.update (group_key name t) v (decoratedGroups sc)\<rparr>)"

text \<open>\<open>shuffledCopy\<close> reads the items in the order of a permutation of their indices.\<close>

definition shuffledCopy :: "nat list \<Rightarrow> gval list \<Rightarrow> gval list" where
  "shuffledCopy perm items = map (\<lambda>j. items ! j) perm"

definition getValueGroup :: "env \<Rightarrow> nat \<Rightarrow> string \<Rightarrow> gotype \<Rightarrow> (store, gval list) eff" where
  "getValueGroup E s name t \<sigma> =
     (let items = al_get [] (groups (scope_of \<sigma> s)) (group_key name t);
          perm = env_perm E s (rand (scope_of \<sigma> s)) (length items)
      in (Ret (shuffledCopy perm items), upd_scope s (\<lambda>sc. sc\<lparr>rand := Suc (rand sc)\<rparr>) \<sigma>))"

definition getDecoratedValueGroup :: "store \<Rightarrow> nat \<Rightarrow> string \<Rightarrow> gotype \<Rightarrow> gval option" where
  "getDecoratedValueGroup \<sigma> s name t = map_of (decoratedGroups (scope_of \<sigma> s)) (group_key name t)"

definition getDecorators :: "store \<Rightarrow> nat \<Rightarrow> key \<Rightarrow> nat option" where
  "getDecorators \<sigma> s k = map_of (decorators (scope_of \<sigma> s)) k"

definition getValueDecorator :: "store \<Rightarrow> nat \<Rightarrow> string \<Rightarrow> gotype \<Rightarrow> nat option" where
  "getValueDecorator \<sigma> s name t = getDecorators \<sigma> s (value_key name t)"

definition getGroupDecorator :: "store \<Rightarrow> nat \<Rightarrow> string \<Rightarrow> gotype \<Rightarrow> nat option" where
  "getGroupDecorator \<sigma> s name t = getDecorators \<sigma> s (group_key name t)"

definition getProviders :: "store \<Rightarrow> nat \<Rightarrow> key \<Rightarrow> nat list" where
  "getProviders \<sigma> s k = al_get [] (providers (scope_of \<sigma> s)) k"

definition getValueProviders :: "store \<Rightarrow> nat \<Rightarrow> string \<Rightarrow> gotype \<Rightarrow> nat list" where
  "getValueProviders \<sigma> s name t = getProviders \<sigma> s (value_key name t)"

definition getGroupProviders :: "store \<Rightarrow> nat \<Rightarrow> string \<Rightarrow> gotype \<Rightarrow> nat list" where
  "getGroupProviders \<sigma> s name t = getProviders \<sigma> s (group_key name t)"

definition getAllProviders :: "store \<Rightarrow> nat \<Rightarrow> key \<Rightarrow> nat list" where
  "getAllProviders \<sigma> s k = concat (map (\<lambda>sc. getProviders \<sigma> sc k) (ancestors \<sigma> s))"

definition getAllGroupProviders :: "store \<Rightarrow> nat \<Rightarrow> string \<Rightarrow> gotype \<Rightarrow> nat list" where
  "getAllGroupProviders \<sigma> s name t = getAllProviders \<sigma> s (group_key name t)"

definition getAllValueProviders :: "store \<Rightarrow> nat \<Rightarrow> string \<Rightarrow> gotype \<Rightarrow> nat list" where
  "getAllValueProviders \<sigma> s name t = getAllProviders \<sigma> s (value_key name t)"

text \<open>
  \<open>knownTypes\<close> collects the types of the keys in a set and sorts them by name. \<open>sort.Sort\<close> leaves
  the order of types with the same name open; the model keeps the order of the map.
\<close>

definition byTypeName :: "gotype list \<Rightarrow> gotype list" where
  "byTypeName ts = sort_key type_string ts"

definition knownTypes :: "store \<Rightarrow> nat \<Rightarrow> gotype list" where
  "knownTypes \<sigma> s = byTypeName (remdups (map (\<lambda>(k, ns). key_t k) (providers (scope_of \<sigma> s))))"

subsection \<open>Errors about the contents of a scope\<close>

text \<open>The types \<open>newErrMissingTypes\<close> looks for when the type \<open>t\<close> is missing.\<close>

definition suggestedTypes :: "gotype list \<Rightarrow> gotype \<Rightarrow> gotype list" where
  "suggestedTypes known t =
     [PointerTo t] @
     (case under t of
        SPtr e \<Rightarrow> [e]
      | SSlice e \<Rightarrow>
          [SliceOf (PointerTo e)] @ (case under e of SPtr d \<Rightarrow> [SliceOf d] | _ \<Rightarrow> [])
      | SArray n e \<Rightarrow>
          [ArrayOf n (PointerTo e)] @ (case under e of SPtr d \<Rightarrow> [ArrayOf n d] | _ \<Rightarrow> [])
      | _ \<Rightarrow> []) @
     (if Kind t = KInterface then filter (\<lambda>u. Implements u t) known
      else filter (\<lambda>u. Kind u = KInterface \<and> Implements t u) known)"

definition newErrMissingTypes :: "store \<Rightarrow> nat \<Rightarrow> key \<Rightarrow> missingType list" where
  "newErrMissingTypes \<sigma> c k =
     (let sugs = byTypeName (suggestedTypes (knownTypes \<sigma> c) (key_t k))
      in [\<lparr>mtKey = k,
           suggestions = map (\<lambda>t. k\<lparr>key_t := t\<rparr>)
             (filter (\<lambda>t. getValueProviders \<sigma> c (key_name k) t \<noteq> []) sugs)\<rparr>])"

text \<open>
  \<open>cycleDetectedError\<close> looks the nodes of the cycle up; \<open>Lookup\<close> panics on an order that is not in
  the graph, and the model drops such an order, which \<open>IsAcyclic\<close> never returns.
\<close>

definition cycleDetectedError :: "store \<Rightarrow> nat \<Rightarrow> nat list \<Rightarrow> goerr" where
  "cycleDetectedError \<sigma> s cycle =
     ECycleDetected
       (concat (map (\<lambda>i. case Lookup (gh (scope_of \<sigma> s)) i of
            Some (NCtor n) \<Rightarrow>
              [\<lparr>cePathKey = \<lparr>key_t = cn_ctype (ctor_of \<sigma> n), key_name = '''', key_group = ''''\<rparr>,
                cePathFunc = cn_location (ctor_of \<sigma> n)\<rparr>]
          | _ \<Rightarrow> []) cycle))
       (sc_name (scope_of \<sigma> s))"

subsection \<open>Creating containers and scopes\<close>

datatype Option =
    deferAcyclicVerificationOption
  | recoverFromPanicsOption
  | dryRunOption bool

fun applyOption :: "Option \<Rightarrow> store \<Rightarrow> store" where
  "applyOption deferAcyclicVerificationOption \<sigma> =
     upd_scope 0 (\<lambda>sc. sc\<lparr>deferAcyclicVerification := True\<rparr>) \<sigma>"
| "applyOption recoverFromPanicsOption \<sigma> =
     upd_scope 0 (\<lambda>sc. sc\<lparr>recoverFromPanics := True\<rparr>) \<sigma>"
| "applyOption (dryRunOption b) \<sigma> =
     upd_scope 0 (\<lambda>sc. sc\<lparr>invokerFn := (if b then dryInvoker else defaultInvoker)\<rparr>) \<sigma>"

definition empty_store :: store where
  "empty_store = \<lparr>scopes = [newScope], ctors = [], dcors = [], orderMaps = [], log = [], ticks = 0\<rparr>"

definition New :: "Option list \<Rightarrow> store" where
  "New opts = fold applyOption opts empty_store"

definition ctorOrder :: "store \<Rightarrow> nat \<Rightarrow> nat \<Rightarrow> nat" where
  "ctorOrder \<sigma> n s = al_get 0 (cn_orders (ctor_of \<sigma> n)) s"

definition CopyOrder :: "nat \<Rightarrow> nat \<Rightarrow> nat \<Rightarrow> store \<Rightarrow> store" where
  "CopyOrder parent child n \<sigma> =
     upd_ctor n (\<lambda>c. c\<lparr>cn_orders := AList.update child (ctorOrder \<sigma> n parent) (cn_orders c)\<rparr>) \<sigma>"

definition copyNodeOrder :: "nat \<Rightarrow> nat \<Rightarrow> gnode \<Rightarrow> store \<Rightarrow> store" where
  "copyNodeOrder parent child w \<sigma> = (case w of NCtor n \<Rightarrow> CopyOrder parent child n \<sigma> | NGroup g t \<Rightarrow> \<sigma>)"

text \<open>\<open>Scope.Scope\<close>: the new child gets the next free index.\<close>

definition ScopeScope :: "nat \<Rightarrow> string \<Rightarrow> store \<Rightarrow> nat \<times> store" where
  "ScopeScope s name \<sigma> =
     (let sc = scope_of \<sigma> s;
          c = length (scopes \<sigma>);
          child = newScope\<lparr>sc_name := name, parentScope := Some s, invokerFn := invokerFn sc,
            deferAcyclicVerification := deferAcyclicVerification sc,
            recoverFromPanics := recoverFromPanics sc,
            gh := newGraphHolder\<lparr>gh_nodes := gh_nodes (gh sc)\<rparr>\<rparr>;
          \<sigma>1 = fold (copyNodeOrder s c) (gh_nodes (gh sc)) \<sigma>;
          \<sigma>2 = upd_scope s (\<lambda>sc. sc\<lparr>childScopes := childScopes sc @ [c]\<rparr>) \<sigma>1
      in (c, \<sigma>2\<lparr>scopes := scopes \<sigma>2 @ [child]\<rparr>))"

subsection \<open>Well-formed scope trees\<close>

definition skel :: "store \<Rightarrow> (nat option \<times> nat list) list" where
  "skel \<sigma> = map (\<lambda>sc. (parentScope sc, childScopes sc)) (scopes \<sigma>)"

definition wf_tree :: "store \<Rightarrow> bool" where
  "wf_tree \<sigma> \<longleftrightarrow> 0 < length (scopes \<sigma>) \<and>
     (\<forall>s < length (scopes \<sigma>).
        (parentScope (scope_of \<sigma> s) = None \<longleftrightarrow> s = 0) \<and>
        (\<forall>p. parentScope (scope_of \<sigma> s) = Some p \<longrightarrow> p < s \<and> s \<in> set (childScopes (scope_of \<sigma> p))) \<and>
        distinct (childScopes (scope_of \<sigma> s)) \<and>
        (\<forall>c \<in> set (childScopes (scope_of \<sigma> s)).
           c < length (scopes \<sigma>) \<and> parentScope (scope_of \<sigma> c) = Some s))"

lemma skel_length: "skel \<sigma> = skel \<sigma>' \<Longrightarrow> length (scopes \<sigma>) = length (scopes \<sigma>')"
  unfolding skel_def by (metis length_map)

lemma skel_nth:
  assumes "skel \<sigma> = skel \<sigma>'" and "s < length (scopes \<sigma>)"
  shows "parentScope (scope_of \<sigma> s) = parentScope (scope_of \<sigma>' s)"
    and "childScopes (scope_of \<sigma> s) = childScopes (scope_of \<sigma>' s)"
proof -
  have "skel \<sigma> ! s = skel \<sigma>' ! s" using assms(1) by simp
  then show "parentScope (scope_of \<sigma> s) = parentScope (scope_of \<sigma>' s)"
    and "childScopes (scope_of \<sigma> s) = childScopes (scope_of \<sigma>' s)"
    using assms skel_length [OF assms(1)] by (simp_all add: skel_def)
qed

lemma wf_tree_parent:
  assumes "wf_tree \<sigma>" and "s < length (scopes \<sigma>)" and "parentScope (scope_of \<sigma> s) = Some p"
  shows "p < s" and "s \<in> set (childScopes (scope_of \<sigma> p))"
  using assms unfolding wf_tree_def by blast+

lemma wf_tree_child:
  assumes "wf_tree \<sigma>" and "s < length (scopes \<sigma>)" and "c \<in> set (childScopes (scope_of \<sigma> s))"
  shows "c < length (scopes \<sigma>)" and "parentScope (scope_of \<sigma> c) = Some s" and "s < c"
proof -
  show c: "c < length (scopes \<sigma>)" and p: "parentScope (scope_of \<sigma> c) = Some s"
    using assms unfolding wf_tree_def by blast+
  show "s < c" using wf_tree_parent(1) [OF assms(1) c p] .
qed

lemma wf_tree_root:
  "wf_tree \<sigma> \<Longrightarrow> s < length (scopes \<sigma>) \<Longrightarrow> parentScope (scope_of \<sigma> s) = None \<longleftrightarrow> s = 0"
  unfolding wf_tree_def by blast

lemma wf_tree_distinct:
  "wf_tree \<sigma> \<Longrightarrow> s < length (scopes \<sigma>) \<Longrightarrow> distinct (childScopes (scope_of \<sigma> s))"
  unfolding wf_tree_def by blast

lemma wf_tree_nonempty: "wf_tree \<sigma> \<Longrightarrow> 0 < length (scopes \<sigma>)"
  unfolding wf_tree_def by blast

lemma wf_tree_skel: "skel \<sigma> = skel \<sigma>' \<Longrightarrow> wf_tree \<sigma> \<Longrightarrow> wf_tree \<sigma>'"
proof -
  assume eq: "skel \<sigma> = skel \<sigma>'" and wf: "wf_tree \<sigma>"
  have len: "length (scopes \<sigma>') = length (scopes \<sigma>)" using skel_length [OF eq] by simp
  note par = skel_nth(1) [OF eq, symmetric] and chi = skel_nth(2) [OF eq, symmetric]
  show ?thesis
    unfolding wf_tree_def len
  proof (intro conjI allI impI ballI)
    show "0 < length (scopes \<sigma>)" using wf by (rule wf_tree_nonempty)
  next
    fix s assume s: "s < length (scopes \<sigma>)"
    show "parentScope (scope_of \<sigma>' s) = None \<longleftrightarrow> s = 0"
      using wf_tree_root [OF wf s] par [OF s] by simp
    show "distinct (childScopes (scope_of \<sigma>' s))"
      using wf_tree_distinct [OF wf s] chi [OF s] by simp
    fix p assume "parentScope (scope_of \<sigma>' s) = Some p"
    then have p: "parentScope (scope_of \<sigma> s) = Some p" using par [OF s] by simp
    show "p < s" using wf_tree_parent(1) [OF wf s p] .
    then show "s \<in> set (childScopes (scope_of \<sigma>' p))"
      using wf_tree_parent(2) [OF wf s p] chi [of p] s by simp
  next
    fix s c assume s: "s < length (scopes \<sigma>)" and "c \<in> set (childScopes (scope_of \<sigma>' s))"
    then have c: "c \<in> set (childScopes (scope_of \<sigma> s))" using chi [OF s] by simp
    show "c < length (scopes \<sigma>)" using wf_tree_child(1) [OF wf s c] .
    then show "parentScope (scope_of \<sigma>' c) = Some s"
      using wf_tree_child(2) [OF wf s c] par [of c] by simp
  qed
qed

subsubsection \<open>Ancestors\<close>

lemma ancestorsUpTo_fuel:
  assumes "wf_tree \<sigma>"
  shows "s < length (scopes \<sigma>) \<Longrightarrow> s < k \<Longrightarrow> ancestorsUpTo k \<sigma> s = ancestorsUpTo (Suc s) \<sigma> s"
proof (induction s arbitrary: k rule: less_induct)
  case (less s)
  then obtain k' where k: "k = Suc k'" by (cases k) auto
  show ?case
  proof (cases "parentScope (scope_of \<sigma> s)")
    case None
    then show ?thesis by (simp add: k)
  next
    case (Some p)
    then have "p < s" using wf_tree_parent assms less.prems by blast
    with less k have "ancestorsUpTo k' \<sigma> p = ancestorsUpTo (Suc p) \<sigma> p"
      "ancestorsUpTo s \<sigma> p = ancestorsUpTo (Suc p) \<sigma> p" by auto
    with Some show ?thesis by (simp add: k)
  qed
qed

lemma ancestors_unfold:
  assumes "wf_tree \<sigma>" and "s < length (scopes \<sigma>)"
  shows "ancestors \<sigma> s =
    s # (case parentScope (scope_of \<sigma> s) of None \<Rightarrow> [] | Some p \<Rightarrow> ancestors \<sigma> p)"
proof (cases "parentScope (scope_of \<sigma> s)")
  case None
  with assms show ?thesis
    by (simp add: ancestors_def ancestorsUpTo_fuel [of \<sigma> s "length (scopes \<sigma>)"])
next
  case (Some p)
  then have "p < s" using wf_tree_parent assms by blast
  with Some assms show ?thesis
    by (simp add: ancestors_def ancestorsUpTo_fuel [of \<sigma> s "length (scopes \<sigma>)"]
        ancestorsUpTo_fuel [of \<sigma> p "length (scopes \<sigma>)"] ancestorsUpTo_fuel [of \<sigma> p s])
qed

lemma ancestors_root: "wf_tree \<sigma> \<Longrightarrow> ancestors \<sigma> 0 = [0]"
  using ancestors_unfold [of \<sigma> 0] wf_tree_root [of \<sigma> 0] wf_tree_nonempty [of \<sigma>] by simp

lemma ancestors_parent:
  assumes "wf_tree \<sigma>" and "s < length (scopes \<sigma>)" and "parentScope (scope_of \<sigma> s) = Some p"
  shows "ancestors \<sigma> s = s # ancestors \<sigma> p"
  using ancestors_unfold [OF assms(1,2)] assms(3) by simp

lemma scope_induct [consumes 2, case_names root child]:
  assumes wf: "wf_tree \<sigma>" and s: "s < length (scopes \<sigma>)" and root: "P 0"
    and child: "\<And>s p. s < length (scopes \<sigma>) \<Longrightarrow> p < s \<Longrightarrow> parentScope (scope_of \<sigma> s) = Some p \<Longrightarrow>
      ancestors \<sigma> s = s # ancestors \<sigma> p \<Longrightarrow> P p \<Longrightarrow> P s"
  shows "P s"
  using s
proof (induction s rule: less_induct)
  case (less s)
  show ?case
  proof (cases "parentScope (scope_of \<sigma> s)")
    case None
    with wf less.prems root show ?thesis by (simp add: wf_tree_root)
  next
    case (Some p)
    with wf less.prems have "p < s" by (rule wf_tree_parent(1))
    with Some less child show ?thesis using ancestors_parent [OF wf less.prems Some] by simp
  qed
qed

lemma ancestors_le:
  assumes wf: "wf_tree \<sigma>" and "s < length (scopes \<sigma>)"
  shows "t \<in> set (ancestors \<sigma> s) \<Longrightarrow> t \<le> s"
  using assms by (induction rule: scope_induct) (auto simp: ancestors_root [OF wf])

lemma ancestors_less_length:
  "wf_tree \<sigma> \<Longrightarrow> s < length (scopes \<sigma>) \<Longrightarrow> t \<in> set (ancestors \<sigma> s) \<Longrightarrow> t < length (scopes \<sigma>)"
  using ancestors_le by fastforce

lemma ancestors_self: "wf_tree \<sigma> \<Longrightarrow> s < length (scopes \<sigma>) \<Longrightarrow> s \<in> set (ancestors \<sigma> s)"
  by (subst ancestors_unfold) auto

lemma ancestors_not_Nil: "wf_tree \<sigma> \<Longrightarrow> s < length (scopes \<sigma>) \<Longrightarrow> ancestors \<sigma> s \<noteq> []"
  by (subst ancestors_unfold) auto

lemma ancestors_suffix:
  assumes wf: "wf_tree \<sigma>" and "s < length (scopes \<sigma>)"
  shows "t \<in> set (ancestors \<sigma> s) \<Longrightarrow> \<exists>pre. ancestors \<sigma> s = pre @ ancestors \<sigma> t"
  using assms
proof (induction rule: scope_induct)
  case root
  then show ?case using ancestors_root [OF wf] by simp
next
  case (child s p)
  show ?case
  proof (cases "t = s")
    case False
    with child obtain pre where "ancestors \<sigma> p = pre @ ancestors \<sigma> t" by auto
    with child have "ancestors \<sigma> s = (s # pre) @ ancestors \<sigma> t" by simp
    then show ?thesis by blast
  qed auto
qed

lemma ancestors_trans:
  assumes "wf_tree \<sigma>" and "s < length (scopes \<sigma>)"
    and "t \<in> set (ancestors \<sigma> s)" and "u \<in> set (ancestors \<sigma> t)"
  shows "u \<in> set (ancestors \<sigma> s)"
  using ancestors_suffix [OF assms(1-3)] assms(4) by auto

lemma last_ancestors:
  assumes wf: "wf_tree \<sigma>" and "s < length (scopes \<sigma>)"
  shows "last (ancestors \<sigma> s) = 0"
  using assms
proof (induction rule: scope_induct)
  case (child s p)
  then show ?case using ancestors_not_Nil [OF wf, of p] by simp
qed (simp add: ancestors_root [OF wf])

lemma distinct_ancestors:
  assumes wf: "wf_tree \<sigma>" and "s < length (scopes \<sigma>)"
  shows "distinct (ancestors \<sigma> s)"
  using assms
proof (induction rule: scope_induct)
  case (child s p)
  then show ?case using ancestors_le [OF wf, of p s] by auto
qed (simp add: ancestors_root [OF wf])

lemma rootScopeUpTo_0: "wf_tree \<sigma> \<Longrightarrow> s < length (scopes \<sigma>) \<Longrightarrow> s < k \<Longrightarrow> rootScopeUpTo k \<sigma> s = 0"
proof (induction s arbitrary: k rule: less_induct)
  case (less s)
  then obtain k' where k: "k = Suc k'" by (cases k) auto
  show ?case
  proof (cases "parentScope (scope_of \<sigma> s)")
    case None
    with less wf_tree_root [of \<sigma> s] show ?thesis by (simp add: k)
  next
    case (Some p)
    then have "p < s" using wf_tree_parent less.prems by blast
    with Some less k show ?thesis by simp
  qed
qed

lemma rootScope_0: "wf_tree \<sigma> \<Longrightarrow> s < length (scopes \<sigma>) \<Longrightarrow> rootScope \<sigma> s = 0"
  by (simp add: rootScope_def rootScopeUpTo_0)

subsubsection \<open>Subscopes\<close>

fun subsUpTo :: "nat \<Rightarrow> store \<Rightarrow> nat \<Rightarrow> nat list" where
  "subsUpTo 0 \<sigma> s = []"
| "subsUpTo (Suc k) \<sigma> s = s # concat (map (subsUpTo k \<sigma>) (childScopes (scope_of \<sigma> s)))"

definition subscopes :: "store \<Rightarrow> nat \<Rightarrow> nat list" where
  "subscopes \<sigma> s = subsUpTo (length (scopes \<sigma>)) \<sigma> s"

lemma fold_append_concat: "fold (\<lambda>x d. d @ f x) xs d = d @ concat (map f xs)"
  by (induction xs arbitrary: d) auto

lemma appendSubscopesUpTo_subs: "appendSubscopesUpTo k \<sigma> s dest = dest @ subsUpTo k \<sigma> s"
proof (induction k arbitrary: s dest)
  case (Suc k)
  then have "appendSubscopesUpTo k \<sigma> = (\<lambda>s d. d @ subsUpTo k \<sigma> s)" by (intro ext)
  then show ?case by (simp add: fold_append_concat)
qed simp

lemma appendSubscopes_subs: "appendSubscopes \<sigma> s dest = dest @ subscopes \<sigma> s"
  by (simp add: appendSubscopes_def subscopes_def appendSubscopesUpTo_subs)

lemma subsUpTo_fuel:
  assumes wf: "wf_tree \<sigma>"
  shows "s < length (scopes \<sigma>) \<Longrightarrow> length (scopes \<sigma>) - s \<le> k \<Longrightarrow> length (scopes \<sigma>) - s \<le> k' \<Longrightarrow>
    subsUpTo k \<sigma> s = subsUpTo k' \<sigma> s"
proof (induction k arbitrary: s k')
  case (Suc k)
  then obtain m where m: "k' = Suc m" by (cases k') auto
  have "subsUpTo k \<sigma> c = subsUpTo m \<sigma> c" if c: "c \<in> set (childScopes (scope_of \<sigma> s))" for c
    using Suc.IH [of c m] wf_tree_child [OF wf Suc.prems(1) c] Suc.prems m by simp
  then show ?case by (simp add: m cong: map_cong)
qed simp

lemma subscopes_unfold:
  assumes wf: "wf_tree \<sigma>" and s: "s < length (scopes \<sigma>)"
  shows "subscopes \<sigma> s = s # concat (map (subscopes \<sigma>) (childScopes (scope_of \<sigma> s)))"
proof -
  obtain k where k: "length (scopes \<sigma>) = Suc k" using s by (cases "length (scopes \<sigma>)") auto
  have "subsUpTo k \<sigma> c = subscopes \<sigma> c" if c: "c \<in> set (childScopes (scope_of \<sigma> s))" for c
    unfolding subscopes_def using wf_tree_child [OF wf s c] k by (intro subsUpTo_fuel [OF wf]) auto
  then show ?thesis by (simp add: subscopes_def [of \<sigma> s] k cong: map_cong)
qed

lemma in_ancestors_child:
  assumes wf: "wf_tree \<sigma>" and s: "s < length (scopes \<sigma>)" and t: "t < length (scopes \<sigma>)"
  shows "s \<in> set (ancestors \<sigma> t) \<longleftrightarrow> t = s \<or> (\<exists>c \<in> set (childScopes (scope_of \<sigma> s)). c \<in> set (ancestors \<sigma> t))"
  using wf t
proof (induction rule: scope_induct)
  case root
  then show ?case using wf_tree_child(3) [OF wf s] ancestors_root [OF wf] by auto
next
  case (child t p)
  then have "t \<in> set (childScopes (scope_of \<sigma> p))" using wf_tree_parent(2) [OF wf] by blast
  moreover have "p = s" if "t \<in> set (childScopes (scope_of \<sigma> s))"
    using wf_tree_child(2) [OF wf s that] child by simp
  ultimately show ?case using child ancestors_self [OF wf, of p] by auto
qed

lemma subsUpTo_set:
  assumes wf: "wf_tree \<sigma>"
  shows "s < length (scopes \<sigma>) \<Longrightarrow> length (scopes \<sigma>) - s \<le> k \<Longrightarrow>
    t \<in> set (subsUpTo k \<sigma> s) \<longleftrightarrow> t < length (scopes \<sigma>) \<and> s \<in> set (ancestors \<sigma> t)"
proof (induction k arbitrary: s)
  case (Suc k)
  have ch: "t \<in> set (subsUpTo k \<sigma> c) \<longleftrightarrow> t < length (scopes \<sigma>) \<and> c \<in> set (ancestors \<sigma> t)"
    if c: "c \<in> set (childScopes (scope_of \<sigma> s))" for c
    using Suc.IH [of c] wf_tree_child [OF wf Suc.prems(1) c] Suc.prems by simp
  show ?case
  proof (cases "t < length (scopes \<sigma>)")
    case True
    then show ?thesis using in_ancestors_child [OF wf Suc.prems(1) True] ch by auto
  next
    case False
    then show ?thesis using ch Suc.prems(1) by auto
  qed
qed simp

lemma subscopes_set:
  "wf_tree \<sigma> \<Longrightarrow> s < length (scopes \<sigma>) \<Longrightarrow>
     set (subscopes \<sigma> s) = {t. t < length (scopes \<sigma>) \<and> s \<in> set (ancestors \<sigma> t)}"
  by (auto simp: subscopes_def subsUpTo_set)

lemma ancestors_linear:
  assumes wf: "wf_tree \<sigma>" and t: "t < length (scopes \<sigma>)"
    and a: "a \<in> set (ancestors \<sigma> t)" and b: "b \<in> set (ancestors \<sigma> t)"
  shows "a \<in> set (ancestors \<sigma> b) \<or> b \<in> set (ancestors \<sigma> a)"
proof -
  obtain p1 where p1: "ancestors \<sigma> t = p1 @ ancestors \<sigma> a" using ancestors_suffix [OF wf t a] by blast
  obtain p2 where p2: "ancestors \<sigma> t = p2 @ ancestors \<sigma> b" using ancestors_suffix [OF wf t b] by blast
  have "a \<in> set (ancestors \<sigma> a)" "b \<in> set (ancestors \<sigma> b)"
    using ancestors_self [OF wf] ancestors_less_length [OF wf t] a b by blast+
  moreover obtain us where
    "p1 = p2 @ us \<and> us @ ancestors \<sigma> a = ancestors \<sigma> b \<or>
     p1 @ us = p2 \<and> ancestors \<sigma> a = us @ ancestors \<sigma> b"
    using append_eq_append_conv2 [of p1 "ancestors \<sigma> a" p2 "ancestors \<sigma> b"] p1 p2 by auto
  ultimately show ?thesis by (metis Un_iff set_append)
qed

lemma siblings_disjoint:
  assumes wf: "wf_tree \<sigma>" and s: "s < length (scopes \<sigma>)" and t: "t < length (scopes \<sigma>)"
    and c: "c \<in> set (childScopes (scope_of \<sigma> s))" "c \<in> set (ancestors \<sigma> t)"
    and d: "d \<in> set (childScopes (scope_of \<sigma> s))" "d \<in> set (ancestors \<sigma> t)"
  shows "c = d"
proof -
  have *: "x = y" if x: "x \<in> set (childScopes (scope_of \<sigma> s))" and y: "y \<in> set (childScopes (scope_of \<sigma> s))"
    and xy: "x \<in> set (ancestors \<sigma> y)" for x y
  proof -
    have "ancestors \<sigma> y = y # ancestors \<sigma> s"
      using ancestors_parent [OF wf wf_tree_child(1,2) [OF wf s y]] .
    with xy have "x = y \<or> x \<le> s" using ancestors_le [OF wf s] by auto
    with wf_tree_child(3) [OF wf s x] show ?thesis by simp
  qed
  from ancestors_linear [OF wf t c(2) d(2)] * [OF c(1) d(1)] * [OF d(1) c(1)] show ?thesis by blast
qed

lemma distinct_concat_map:
  "distinct xs \<Longrightarrow> (\<And>x. x \<in> set xs \<Longrightarrow> distinct (f x)) \<Longrightarrow>
     (\<And>x y. x \<in> set xs \<Longrightarrow> y \<in> set xs \<Longrightarrow> x \<noteq> y \<Longrightarrow> set (f x) \<inter> set (f y) = {}) \<Longrightarrow>
     distinct (concat (map f xs))"
  by (induction xs) auto

lemma distinct_subsUpTo:
  assumes wf: "wf_tree \<sigma>"
  shows "s < length (scopes \<sigma>) \<Longrightarrow> length (scopes \<sigma>) - s \<le> k \<Longrightarrow> distinct (subsUpTo k \<sigma> s)"
proof (induction k arbitrary: s)
  case (Suc k)
  note ch = wf_tree_child [OF wf Suc.prems(1)]
  have sub: "t \<in> set (subsUpTo k \<sigma> c) \<longleftrightarrow> t < length (scopes \<sigma>) \<and> c \<in> set (ancestors \<sigma> t)"
    if "c \<in> set (childScopes (scope_of \<sigma> s))" for c t
    using ch [OF that] Suc.prems by (intro subsUpTo_set [OF wf]) auto
  have "distinct (concat (map (subsUpTo k \<sigma>) (childScopes (scope_of \<sigma> s))))"
  proof (rule distinct_concat_map)
    show "distinct (childScopes (scope_of \<sigma> s))" using wf_tree_distinct [OF wf Suc.prems(1)] .
  next
    fix c assume c: "c \<in> set (childScopes (scope_of \<sigma> s))"
    show "distinct (subsUpTo k \<sigma> c)" using Suc.IH [of c] ch [OF c] Suc.prems by simp
  next
    fix c d assume "c \<in> set (childScopes (scope_of \<sigma> s))" "d \<in> set (childScopes (scope_of \<sigma> s))" "c \<noteq> d"
    then show "set (subsUpTo k \<sigma> c) \<inter> set (subsUpTo k \<sigma> d) = {}"
      using siblings_disjoint [OF wf Suc.prems(1)] sub by blast
  qed
  moreover have "s \<notin> set (subsUpTo k \<sigma> c)" if c: "c \<in> set (childScopes (scope_of \<sigma> s))" for c
    using sub [OF c, of s] ch(3) [OF c] ancestors_le [OF wf Suc.prems(1), of c] by auto
  ultimately show ?case by auto
qed simp

lemma distinct_subscopes:
  "wf_tree \<sigma> \<Longrightarrow> s < length (scopes \<sigma>) \<Longrightarrow> distinct (subscopes \<sigma> s)"
  by (simp add: subscopes_def distinct_subsUpTo)

text \<open>
  C18: in a well-formed tree \<open>appendSubscopes\<close> lists, each once, exactly the scopes that have the
  given scope among their ancestors. It is the set of scopes that a \<open>Provide\<close> affects.
\<close>

theorem appendSubscopes_descendants:
  assumes "wf_tree \<sigma>" and "s < length (scopes \<sigma>)"
  shows "distinct (appendSubscopes \<sigma> s []) \<and>
    set (appendSubscopes \<sigma> s []) = {t. t < length (scopes \<sigma>) \<and> s \<in> set (ancestors \<sigma> t)}"
  using assms by (simp add: appendSubscopes_subs subscopes_set distinct_subscopes)

theorem appendSubscopes_descendants_witness:
  "distinct (appendSubscopes (snd (ScopeScope 0 ''child'' (New []))) 0 []) \<and>
   set (appendSubscopes (snd (ScopeScope 0 ''child'' (New []))) 0 []) =
     {t. t < length (scopes (snd (ScopeScope 0 ''child'' (New [])))) \<and>
         0 \<in> set (ancestors (snd (ScopeScope 0 ''child'' (New []))) t)}"
proof -
  let ?\<sigma> = "snd (ScopeScope 0 ''child'' (New []))"
  have sc: "scopes ?\<sigma> =
      [newScope\<lparr>childScopes := [1]\<rparr>, newScope\<lparr>sc_name := ''child'', parentScope := Some 0\<rparr>]"
    by (simp add: New_def empty_store_def ScopeScope_def upd_scope_def newScope_def
        newGraphHolder_def Let_def)
  have "wf_tree ?\<sigma>"
    unfolding wf_tree_def sc by (auto simp: less_Suc_eq numeral_2_eq_2 newScope_def)
  moreover have "0 < length (scopes ?\<sigma>)" by (simp add: sc)
  ultimately show ?thesis using appendSubscopes_descendants by blast
qed

subsubsection \<open>Adding graph nodes\<close>

lemma subsUpTo_skel:
  assumes eq: "skel \<sigma> = skel \<sigma>'" and wf: "wf_tree \<sigma>"
  shows "s < length (scopes \<sigma>) \<Longrightarrow> subsUpTo k \<sigma>' s = subsUpTo k \<sigma> s"
proof (induction k arbitrary: s)
  case (Suc k)
  have "subsUpTo k \<sigma>' c = subsUpTo k \<sigma> c" if "c \<in> set (childScopes (scope_of \<sigma> s))" for c
    using Suc.IH wf_tree_child(1) [OF wf Suc.prems that] by blast
  with skel_nth(2) [OF eq Suc.prems] show ?case by (simp cong: map_cong)
qed simp

lemma ancestorsUpTo_skel:
  assumes eq: "skel \<sigma> = skel \<sigma>'" and wf: "wf_tree \<sigma>"
  shows "s < length (scopes \<sigma>) \<Longrightarrow> ancestorsUpTo k \<sigma>' s = ancestorsUpTo k \<sigma> s"
proof (induction k arbitrary: s)
  case (Suc k)
  have "ancestorsUpTo k \<sigma>' p = ancestorsUpTo k \<sigma> p" if "parentScope (scope_of \<sigma> s) = Some p" for p
    using Suc.IH [of p] wf_tree_parent(1) [OF wf Suc.prems that] Suc.prems by simp
  with skel_nth(1) [OF eq Suc.prems] show ?case by (auto split: option.splits)
qed simp

lemma ancestors_skel:
  "skel \<sigma> = skel \<sigma>' \<Longrightarrow> wf_tree \<sigma> \<Longrightarrow> s < length (scopes \<sigma>) \<Longrightarrow> ancestors \<sigma>' s = ancestors \<sigma> s"
  using skel_length [of \<sigma> \<sigma>'] ancestorsUpTo_skel [of \<sigma> \<sigma>' s] by (simp add: ancestors_def)

lemma subscopes_skel:
  "skel \<sigma> = skel \<sigma>' \<Longrightarrow> wf_tree \<sigma> \<Longrightarrow> s < length (scopes \<sigma>) \<Longrightarrow> subscopes \<sigma>' s = subscopes \<sigma> s"
  using skel_length [of \<sigma> \<sigma>'] subsUpTo_skel [of \<sigma> \<sigma>' s] by (simp add: subscopes_def)

lemma skel_upd_scope:
  assumes "\<And>sc. parentScope (f sc) = parentScope sc" and "\<And>sc. childScopes (f sc) = childScopes sc"
  shows "skel (upd_scope s f \<sigma>) = skel \<sigma>"
proof (cases "s < length (scopes \<sigma>)")
  case True
  with assms show ?thesis
    by (auto simp: skel_def upd_scope_def map_update intro!: list_update_id_if)
next
  case False
  then show ?thesis by (simp add: skel_def upd_scope_def list_update_beyond)
qed

definition addNode :: "gnode \<Rightarrow> nat \<Rightarrow> store \<times> orders \<Rightarrow> store \<times> orders" where
  "addNode w s = (\<lambda>(\<sigma>, ords).
     (upd_scope s (\<lambda>sc. sc\<lparr>gh := snd (NewNode w (gh (scope_of \<sigma> s)))\<rparr>) \<sigma>,
      AList.update s (length (gh_nodes (gh (scope_of \<sigma> s)))) ords))"

lemma skel_addNode: "skel (fst (addNode w s (\<sigma>, ords))) = skel \<sigma>"
  by (simp add: addNode_def skel_upd_scope)

lemma skel_fold_addNode: "skel (fst (fold (addNode w) ts (\<sigma>, ords))) = skel \<sigma>"
proof (induction ts arbitrary: \<sigma> ords)
  case (Cons t ts)
  obtain \<sigma>1 o1 where "addNode w t (\<sigma>, ords) = (\<sigma>1, o1)" by (cases "addNode w t (\<sigma>, ords)")
  with Cons skel_addNode [of w t \<sigma> ords] show ?case by simp
qed simp

lemma fold_concat_map:
  assumes "\<And>x acc. x \<in> set xs \<Longrightarrow> Q acc \<Longrightarrow> f x acc = fold g (h x) acc \<and> Q (f x acc)" and "Q acc"
  shows "fold f xs acc = fold g (concat (map h xs)) acc"
  using assms
proof (induction xs arbitrary: acc)
  case (Cons x xs)
  have x: "f x acc = fold g (h x) acc \<and> Q (f x acc)"
    using Cons.prems by (meson list.set_intros(1))
  then have "fold f xs (f x acc) = fold g (concat (map h xs)) (f x acc)"
    using Cons.prems(1) by (intro Cons.IH) (meson list.set_intros(2))+
  with x show ?case by simp
qed simp

lemma newGraphNodeUpTo_fold:
  assumes wf: "wf_tree \<sigma>0"
  shows "s < length (scopes \<sigma>0) \<Longrightarrow> skel \<sigma> = skel \<sigma>0 \<Longrightarrow>
    newGraphNodeUpTo k w s (\<sigma>, ords) = fold (addNode w) (subsUpTo k \<sigma>0 s) (\<sigma>, ords)"
proof (induction k arbitrary: s \<sigma> ords)
  case (Suc k)
  let ?Q = "\<lambda>(\<sigma>, ords). skel \<sigma> = skel \<sigma>0"
  have step: "newGraphNodeUpTo k w c acc = fold (addNode w) (subsUpTo k \<sigma>0 c) acc \<and>
      ?Q (newGraphNodeUpTo k w c acc)"
    if c: "c \<in> set (childScopes (scope_of \<sigma>0 s))" and "?Q acc" for c acc
    using that Suc.IH [OF wf_tree_child(1) [OF wf Suc.prems(1) c]] skel_fold_addNode
    by (cases acc) (auto simp: case_prod_beta)
  have "?Q (addNode w s (\<sigma>, ords))"
    using skel_addNode [of w s \<sigma> ords] Suc.prems(2) by (auto simp: case_prod_beta)
  then have "fold (newGraphNodeUpTo k w) (childScopes (scope_of \<sigma>0 s)) (addNode w s (\<sigma>, ords)) =
      fold (addNode w) (concat (map (subsUpTo k \<sigma>0) (childScopes (scope_of \<sigma>0 s)))) (addNode w s (\<sigma>, ords))"
    by (intro fold_concat_map [where Q = ?Q] step)
  moreover have "newGraphNodeUpTo (Suc k) w s (\<sigma>, ords) =
      fold (newGraphNodeUpTo k w) (childScopes (scope_of \<sigma>0 s)) (addNode w s (\<sigma>, ords))"
    using skel_nth(2) [OF Suc.prems(2), of s] Suc.prems(1) skel_length [OF Suc.prems(2)]
    by (simp add: addNode_def NewNode_def)
  ultimately show ?case by simp
qed simp

text \<open>
  The closed form of adding a node: the node is appended in the scopes of \<open>ts\<close>, and its order in
  each of them is the number of nodes that scope had before.
\<close>

definition pushNode :: "gnode \<Rightarrow> scope \<Rightarrow> scope" where
  "pushNode w sc = sc\<lparr>gh := (gh sc)\<lparr>gh_nodes := gh_nodes (gh sc) @ [w]\<rparr>\<rparr>"

definition pushNodes :: "gnode \<Rightarrow> nat set \<Rightarrow> store \<Rightarrow> store" where
  "pushNodes w ts \<sigma> = \<sigma>\<lparr>scopes := map (\<lambda>t. if t \<in> ts then pushNode w (scope_of \<sigma> t) else scope_of \<sigma> t)
     [0..<length (scopes \<sigma>)]\<rparr>"

lemma pushNodes_empty [simp]: "pushNodes w {} \<sigma> = \<sigma>"
  by (simp add: pushNodes_def map_nth)

lemma pushNodes_insert:
  "t < length (scopes \<sigma>) \<Longrightarrow> t \<notin> ts \<Longrightarrow>
     pushNodes w ts (upd_scope t (\<lambda>sc. sc\<lparr>gh := snd (NewNode w (gh (scope_of \<sigma> t)))\<rparr>) \<sigma>) =
     pushNodes w (insert t ts) \<sigma>"
  by (auto simp: pushNodes_def upd_scope_def pushNode_def NewNode_def nth_list_update
      intro!: store.equality nth_equalityI)

lemma fold_addNode:
  "distinct ts \<Longrightarrow> set ts \<subseteq> {..<length (scopes \<sigma>)} \<Longrightarrow>
     fold (addNode w) ts (\<sigma>, ords) =
       (pushNodes w (set ts) \<sigma>,
        fold (\<lambda>t. AList.update t (length (gh_nodes (gh (scope_of \<sigma> t))))) ts ords)"
proof (induction ts arbitrary: \<sigma> ords)
  case (Cons t ts)
  let ?\<sigma> = "upd_scope t (\<lambda>sc. sc\<lparr>gh := snd (NewNode w (gh (scope_of \<sigma> t)))\<rparr>) \<sigma>"
  have same: "scope_of ?\<sigma> u = scope_of \<sigma> u" if "u \<in> set ts" for u
    using Cons.prems that by (cases "u = t") (auto simp: upd_scope_def)
  have "fold (addNode w) ts (?\<sigma>, AList.update t (length (gh_nodes (gh (scope_of \<sigma> t)))) ords) =
    (pushNodes w (set ts) ?\<sigma>,
     fold (\<lambda>t. AList.update t (length (gh_nodes (gh (scope_of ?\<sigma> t))))) ts
       (AList.update t (length (gh_nodes (gh (scope_of \<sigma> t)))) ords))"
    using Cons.prems by (intro Cons.IH) (auto simp: upd_scope_def)
  moreover have "fold (\<lambda>t. AList.update t (length (gh_nodes (gh (scope_of ?\<sigma> t))))) ts acc =
      fold (\<lambda>t. AList.update t (length (gh_nodes (gh (scope_of \<sigma> t))))) ts acc" for acc :: orders
    using same by (intro fold_cong) auto
  moreover have "addNode w t (\<sigma>, ords) =
      (?\<sigma>, AList.update t (length (gh_nodes (gh (scope_of \<sigma> t)))) ords)"
    by (simp add: addNode_def)
  ultimately show ?case
    using Cons.prems pushNodes_insert [of t \<sigma> "set ts" w] by simp
qed simp

definition subOrders :: "store \<Rightarrow> nat list \<Rightarrow> orders \<Rightarrow> orders" where
  "subOrders \<sigma> ts ords = fold (\<lambda>t. AList.update t (length (gh_nodes (gh (scope_of \<sigma> t))))) ts ords"

lemma newGraphNode_eq:
  assumes "wf_tree \<sigma>" and "s < length (scopes \<sigma>)"
  shows "newGraphNode w s (\<sigma>, ords) =
    (pushNodes w (set (subscopes \<sigma> s)) \<sigma>, subOrders \<sigma> (subscopes \<sigma> s) ords)"
  using assms fold_addNode [of "subscopes \<sigma> s" \<sigma> w ords]
  by (simp add: newGraphNode_def newGraphNodeUpTo_fold subscopes_def [symmetric] distinct_subscopes
      subscopes_set subOrders_def lessThan_def subset_iff)

lemma map_of_subOrders:
  "map_of (subOrders \<sigma> ts ords) t =
     (if t \<in> set ts then Some (length (gh_nodes (gh (scope_of \<sigma> t)))) else map_of ords t)"
  unfolding subOrders_def by (induction ts arbitrary: ords) auto

lemma pushNodes_frame [frame]:
  "length (scopes (pushNodes w ts \<sigma>)) = length (scopes \<sigma>)"
  "ctors (pushNodes w ts \<sigma>) = ctors \<sigma>" "dcors (pushNodes w ts \<sigma>) = dcors \<sigma>"
  "orderMaps (pushNodes w ts \<sigma>) = orderMaps \<sigma>" "log (pushNodes w ts \<sigma>) = log \<sigma>"
  "ticks (pushNodes w ts \<sigma>) = ticks \<sigma>"
  by (simp_all add: pushNodes_def)

lemma scope_of_pushNodes:
  "s < length (scopes \<sigma>) \<Longrightarrow>
     scope_of (pushNodes w ts \<sigma>) s = (if s \<in> ts then pushNode w (scope_of \<sigma> s) else scope_of \<sigma> s)"
  by (simp add: pushNodes_def)

lemma skel_pushNodes [frame]: "skel (pushNodes w ts \<sigma>) = skel \<sigma>"
  by (auto simp: skel_def pushNodes_def pushNode_def intro!: nth_equalityI)

end
