(* ===== verification/Param.thy ===== *)
theory Param
  imports Scope
begin

text \<open>
  Parameters (src/param.go): reading the parameters of a function off its type, the edges they give
  the dependency graph (\<open>getParamOrder\<close>, and \<open>EdgesFrom\<close> of src/graph.go), the check for missing
  dependencies (src/invoke.go) and building the arguments of a call.

  \<open>Build\<close> calls constructors and decorators through the interfaces \<open>provider\<close> and \<open>decorator\<close>; the
  model takes their \<open>Call\<close> methods as arguments \<open>callC\<close> and \<open>callD\<close>. The theory that models
  the nodes ties the knot.
\<close>

subsection \<open>Parameters from types\<close>

definition elemT :: "gotype \<Rightarrow> gotype" where
  "elemT t = (case Elem t of Some e \<Rightarrow> e | None \<Rightarrow> t)"

text \<open>
  \<open>newParamGroupedSlice\<close> allocates the \<open>orders\<close> map, registers the group as a graph node and
  fills the map. The error of \<open>isFieldOptional\<close> is ignored, as in the code.
\<close>

definition newParamGroupedSlice :: "gofield \<Rightarrow> nat \<Rightarrow> (store, param) eff" where
  "newParamGroupedSlice f c =
     bindS (liftS (parseGroupString (TagGet f ''group''))) (\<lambda>g.
       let name = TagGet f ''name''; optional = fst (isFieldOptional f)
       in if Kind (fieldType f) \<noteq> KSlice then
            throwS (newErrInvalidInput (MsgGroupNotSlice (fieldName f) (fieldType f)) None)
          else if gFlatten g then
            throwS (newErrInvalidInput (MsgFlattenParam (fieldName f) (fieldType f)) None)
          else if name \<noteq> '''' then
            throwS (newErrInvalidInput (MsgNamedGroupRequested name (gName g)) None)
          else if optional then throwS (newErrInvalidInput MsgGroupOptional None)
          else (\<lambda>\<sigma>.
            let oid = length (orderMaps \<sigma>);
                (\<sigma>1, ords) = newGraphNode (NGroup (gName g) (fieldType f)) c (\<sigma>, [])
            in (Ret (paramGroupedSlice (gName g) (fieldType f) (gSoft g) oid),
                \<sigma>1\<lparr>orderMaps := orderMaps \<sigma>1 @ [ords]\<rparr>)))"

definition findIn :: "gofield list \<Rightarrow> gofield option" where
  "findIn fs = find (\<lambda>f. fieldType f = inType) fs"

definition is_paramSingle :: "param \<Rightarrow> bool" where
  "is_paramSingle p = (case p of paramSingle _ _ _ \<Rightarrow> True | _ \<Rightarrow> False)"

text \<open>The end of \<open>newParamObjectField\<close>: a \<open>paramSingle\<close> takes its name and optionality from the tags.\<close>

definition tagParam :: "gofield \<Rightarrow> param \<Rightarrow> param res" where
  "tagParam f p =
     (case p of
        paramSingle _ _ t \<Rightarrow>
          (case isFieldOptional f of
             (optional, None) \<Rightarrow> Ret (paramSingle (TagGet f ''name'') optional t)
           | (_, Some e) \<Rightarrow> Throw e)
      | _ \<Rightarrow> Ret p)"

lemma size_fields: "under t = SStruct fs \<Longrightarrow> size_list size fs < size t"
  by (cases t) auto

lemma size_list_fields: "size_list size (structFields t) < size t"
  by (cases t; cases "under t") (auto simp: structFields_def)

lemma size_fieldType_field: "size (fieldType f) < size f"
  by (cases f) simp

function (sequential)
  newParam :: "gotype \<Rightarrow> nat \<Rightarrow> (store, param) eff"
  and newParamObjectFields ::
    "gotype \<Rightarrow> bool \<Rightarrow> nat \<Rightarrow> gofield list \<Rightarrow> nat \<Rightarrow> (store, paramObjectField list) eff"
  and newParamObjectField :: "nat \<Rightarrow> gofield \<Rightarrow> nat \<Rightarrow> (store, paramObjectField) eff"
where
  "newParam t c =
     (if IsOut t \<or> (Kind t = KPtr \<and> IsOut (elemT t)) \<or> embedsType t outPtrType then
        throwS (newErrInvalidInput (MsgDependOnOut t) None)
      else if IsIn t then
        (case findIn (structFields t) of
           None \<Rightarrow>
             bindS (newParamObjectFields t False 0 (structFields t) c) (\<lambda>fs. retS (paramObject t fs))
         | Some f \<Rightarrow>
             (case isIgnoreUnexportedSet f of
                (_, Some e) \<Rightarrow> throwS e
              | (ignoreUnexported, None) \<Rightarrow>
                  bindS (newParamObjectFields t ignoreUnexported 0 (structFields t) c)
                    (\<lambda>fs. retS (paramObject t fs))))
      else if embedsType t inPtrType then
        throwS (newErrInvalidInput (MsgParamEmbedsInPtr t) None)
      else if Kind t = KPtr \<and> IsIn (elemT t) then
        throwS (newErrInvalidInput (MsgPtrToIn t) None)
      else retS (paramSingle '''' False t))"
| "newParamObjectFields t ignoreUnexported i [] c = retS []"
| "newParamObjectFields t ignoreUnexported i (f # fs) c =
     (if fieldType f = inType then newParamObjectFields t ignoreUnexported (Suc i) fs c
      else if pkgPath f \<noteq> '''' \<and> ignoreUnexported then
        newParamObjectFields t ignoreUnexported (Suc i) fs c
      else
        bindS
          (wrapS (\<lambda>e. newErrInvalidInput (MsgBadField (fieldName f) t) (Some e)) (newParamObjectField i f c))
          (\<lambda>pof. bindS (newParamObjectFields t ignoreUnexported (Suc i) fs c) (\<lambda>pofs. retS (pof # pofs))))"
| "newParamObjectField idx f c =
     (if pkgPath f \<noteq> '''' then
        throwS (newErrInvalidInput (MsgUnexportedIn (fieldName f) (fieldType f)) None)
      else
        bindS
          (bindS (if TagGet f ''group'' \<noteq> '''' then newParamGroupedSlice f c else newParam (fieldType f) c)
             (\<lambda>p. liftS (tagParam f p)))
          (\<lambda>p. retS (paramObjectField (fieldName f) idx p)))"
  by pat_completeness auto
termination
  by (relation "measure (case_sum (\<lambda>(t, c). size t)
      (case_sum (\<lambda>(t, b, i, fs, c). size_list size fs) (\<lambda>(idx, f, c). size f)))")
    (auto simp: size_list_fields intro: less_le_trans [OF size_fieldType_field])

declare newParam.simps [simp del] newParamObjectFields.simps [simp del] newParamObjectField.simps [simp del]

definition newParamList :: "gotype \<Rightarrow> nat \<Rightarrow> (store, paramList) eff" where
  "newParamList ctype c =
     (let numArgs = (if IsVariadic ctype then length (ins ctype) - 1 else length (ins ctype))
      in bindS
           (mapS (\<lambda>(i, t). wrapS (\<lambda>e. newErrInvalidInput (MsgBadArgument (Suc i)) (Some e)) (newParam t c))
              (enumerate 0 (take numArgs (ins ctype))))
           (\<lambda>ps. retS \<lparr>plCtype = ctype, Params = ps\<rparr>))"

subsection \<open>The dependency graph of a scope\<close>

lemma size_pofParam [termination_simp]:
  "f \<in> set fs \<Longrightarrow> size (pofParam f) < Suc (size_list size fs)"
proof -
  assume "f \<in> set fs"
  then have "size f \<le> size_list size fs" by (rule size_list_estimation') simp
  then show ?thesis by (cases f) simp
qed

fun getParamOrder :: "store \<Rightarrow> nat \<Rightarrow> param \<Rightarrow> nat list" where
  "getParamOrder \<sigma> s (paramSingle name optional t) =
     map (\<lambda>n. ctorOrder \<sigma> n s) (getAllValueProviders \<sigma> s name t)"
| "getParamOrder \<sigma> s (paramGroupedSlice g t soft oid) = [al_get 0 (orderMaps \<sigma> ! oid) s]"
| "getParamOrder \<sigma> s (paramObject t fs) = concat (map (\<lambda>f. getParamOrder \<sigma> s (pofParam f)) fs)"

definition nodeEdges :: "store \<Rightarrow> nat \<Rightarrow> gnode \<Rightarrow> nat list" where
  "nodeEdges \<sigma> s w =
     (case w of
        NCtor n \<Rightarrow> concat (map (getParamOrder \<sigma> s) (Params (cn_paramList (ctor_of \<sigma> n))))
      | NGroup g t \<Rightarrow> map (\<lambda>n. ctorOrder \<sigma> n s) (getAllGroupProviders \<sigma> s g (elemT t)))"

text \<open>
  The graph that \<open>IsAcyclic\<close> gets: the graph holder of the scope. \<open>EdgesFrom\<close> is asked only for
  nodes of the graph; \<open>Lookup\<close> panics on others.
\<close>

definition scope_graph :: "store \<Rightarrow> nat \<Rightarrow> graph" where
  "scope_graph \<sigma> s =
     \<lparr>Order = length (gh_nodes (gh (scope_of \<sigma> s))),
      EdgesFrom = (\<lambda>u. case Lookup (gh (scope_of \<sigma> s)) u of
          Some w \<Rightarrow> nodeEdges \<sigma> s w
        | None \<Rightarrow> [])\<rparr>"

subsection \<open>Missing dependencies\<close>

fun findMissingDependencies :: "store \<Rightarrow> nat \<Rightarrow> param \<Rightarrow> param list" where
  "findMissingDependencies \<sigma> c (paramSingle name optional t) =
     (if getAllValueProviders \<sigma> c name t = [] \<and> getDecoratedValue \<sigma> c name t = None \<and> \<not> optional
      then [paramSingle name optional t] else [])"
| "findMissingDependencies \<sigma> c (paramObject t fs) =
     concat (map (\<lambda>f. findMissingDependencies \<sigma> c (pofParam f)) fs)"
| "findMissingDependencies \<sigma> c (paramGroupedSlice g t soft oid) = []"

definition shallowCheckDependencies :: "store \<Rightarrow> nat \<Rightarrow> paramList \<Rightarrow> goerr option" where
  "shallowCheckDependencies \<sigma> c pl =
     (let missingDeps = concat (map (findMissingDependencies \<sigma> c) (Params pl));
          err = concat (map (\<lambda>p. newErrMissingTypes \<sigma> c (value_key (psName p) (psType p))) missingDeps)
      in if err \<noteq> [] then Some (EMissingTypes err) else None)"

subsection \<open>Building arguments\<close>

type_synonym call = "nat \<Rightarrow> nat \<Rightarrow> (store, unit) eff"

fun firstSome :: "('a \<Rightarrow> 'b option) \<Rightarrow> 'a list \<Rightarrow> 'b option" where
  "firstSome f [] = None"
| "firstSome f (x # xs) = (case f x of Some y \<Rightarrow> Some y | None \<Rightarrow> firstSome f xs)"

text \<open>The nearest store with a decorator for the value that is not being run already.\<close>

fun findDecorator :: "store \<Rightarrow> string \<Rightarrow> gotype \<Rightarrow> nat list \<Rightarrow> (nat \<times> nat) option" where
  "findDecorator \<sigma> name t [] = None"
| "findDecorator \<sigma> name t (s # ss) =
     (case getValueDecorator \<sigma> s name t of
        None \<Rightarrow> findDecorator \<sigma> name t ss
      | Some d \<Rightarrow>
          if dn_state (dcor_of \<sigma> d) = decoratorOnStack then findDecorator \<sigma> name t ss
          else Some (d, s))"

definition orNoValue :: "gval option \<Rightarrow> gval" where
  "orNoValue v = (case v of Some x \<Rightarrow> x | None \<Rightarrow> VNone)"

text \<open>\<open>buildWithDecorators\<close>: \<^const>\<open>None\<close> where the code returns \<open>found = false\<close>.\<close>

definition buildWithDecorators :: "call \<Rightarrow> string \<Rightarrow> gotype \<Rightarrow> nat \<Rightarrow> (store, gval option) eff" where
  "buildWithDecorators callD name t c \<sigma> =
     (case findDecorator \<sigma> name t (storesToRoot \<sigma> c) of
        None \<Rightarrow> (Ret None, \<sigma>)
      | Some (d, s) \<Rightarrow>
          bindS (wrapS (\<lambda>e. EParamSingleFailed (value_key name t) e 1) (callD d s))
            (\<lambda>_ \<sigma>'. (Ret (Some (orNoValue (getDecoratedValue \<sigma>' s name t))), \<sigma>')) \<sigma>)"

text \<open>
  The search for a container that has the value or provides it: a cached value, the first container
  with providers, or nothing.
\<close>

datatype search = Cached gval | Provided nat "nat list" | NotFound

fun findProviding :: "store \<Rightarrow> string \<Rightarrow> gotype \<Rightarrow> nat list \<Rightarrow> search" where
  "findProviding \<sigma> name t [] = NotFound"
| "findProviding \<sigma> name t (s # ss) =
     (case getValue \<sigma> s name t of
        Some v \<Rightarrow> Cached v
      | None \<Rightarrow>
          let ns = getValueProviders \<sigma> s name t
          in if ns \<noteq> [] then Provided s ns else findProviding \<sigma> name t ss)"

text \<open>
  The loop over the providers of a value: \<open>False\<close> when it ended early because the parameter is
  optional and a dependency of a provider is missing.
\<close>

fun callProviders :: "call \<Rightarrow> string \<Rightarrow> bool \<Rightarrow> gotype \<Rightarrow> nat list \<Rightarrow> (store, bool) eff" where
  "callProviders callC name optional t [] = retS True"
| "callProviders callC name optional t (n # ns) = (\<lambda>\<sigma>.
     case callC n (cn_origS (ctor_of \<sigma> n)) \<sigma> of
       (Ret _, \<sigma>') \<Rightarrow> callProviders callC name optional t ns \<sigma>'
     | (Throw e, \<sigma>') \<Rightarrow>
         if errorsAs is_errMissingDependencies e \<noteq> None \<and> optional then (Ret False, \<sigma>')
         else (Throw (EParamSingleFailed (value_key name t) e (cn_id (ctor_of \<sigma> n))), \<sigma>')
     | (Panicked p, \<sigma>') \<Rightarrow> (Panicked p, \<sigma>')
     | (Diverged, \<sigma>') \<Rightarrow> (Diverged, \<sigma>'))"

definition buildFromProviders :: "call \<Rightarrow> string \<Rightarrow> bool \<Rightarrow> gotype \<Rightarrow> nat \<Rightarrow> (store, gval) eff" where
  "buildFromProviders callC name optional t c \<sigma> =
     (case firstSome (\<lambda>s. getDecoratedValue \<sigma> s name t) (storesToRoot \<sigma> c) of
        Some v \<Rightarrow> (Ret v, \<sigma>)
      | None \<Rightarrow>
          (case findProviding \<sigma> name t (storesToRoot \<sigma> c) of
             Cached v \<Rightarrow> (Ret v, \<sigma>)
           | NotFound \<Rightarrow>
               if optional then (Ret (VZero t), \<sigma>)
               else (Throw (EMissingTypes (newErrMissingTypes \<sigma> c (value_key name t))), \<sigma>)
           | Provided s ns \<Rightarrow>
               bindS (callProviders callC name optional t ns) (\<lambda>b \<sigma>'.
                 if b then (Ret (orNoValue (getValue \<sigma>' s name t)), \<sigma>')
                 else (Ret (VZero t), \<sigma>')) \<sigma>))"

definition buildSingle :: "call \<Rightarrow> call \<Rightarrow> string \<Rightarrow> bool \<Rightarrow> gotype \<Rightarrow> nat \<Rightarrow> (store, gval) eff" where
  "buildSingle callC callD name optional t c =
     bindS (buildWithDecorators callD name t c) (\<lambda>r.
       case r of Some v \<Rightarrow> retS v | None \<Rightarrow> buildFromProviders callC name optional t c)"

definition callGroupDecorators :: "call \<Rightarrow> string \<Rightarrow> gotype \<Rightarrow> nat \<Rightarrow> (store, unit) eff" where
  "callGroupDecorators callD g t c \<sigma> =
     forS (\<lambda>s \<sigma>'.
         case getGroupDecorator \<sigma>' s g (elemT t) of
           None \<Rightarrow> (Ret (), \<sigma>')
         | Some d \<Rightarrow>
             if dn_state (dcor_of \<sigma>' d) = decoratorOnStack then (Ret (), \<sigma>')
             else wrapS (\<lambda>e. EParamGroupFailed (group_key g (elemT t)) e (dn_id (dcor_of \<sigma>' d)))
                    (callD d s) \<sigma>')
       (rev (storesToRoot \<sigma> c)) \<sigma>"

definition callGroupProviders :: "call \<Rightarrow> string \<Rightarrow> gotype \<Rightarrow> nat \<Rightarrow> (store, unit) eff" where
  "callGroupProviders callC g t c \<sigma> =
     forS (\<lambda>s \<sigma>'.
         forS (\<lambda>n \<sigma>''.
             wrapS (\<lambda>e. EParamGroupFailed (group_key g (elemT t)) e (cn_id (ctor_of \<sigma>'' n)))
               (callC n (cn_origS (ctor_of \<sigma>'' n))) \<sigma>'')
           (getGroupProviders \<sigma>' s g (elemT t)) \<sigma>')
       (storesToRoot \<sigma> c) \<sigma>"

definition buildGroup :: "env \<Rightarrow> call \<Rightarrow> call \<Rightarrow> string \<Rightarrow> gotype \<Rightarrow> bool \<Rightarrow> nat \<Rightarrow> (store, gval) eff" where
  "buildGroup E callC callD g t soft c =
     bindS (callGroupDecorators callD g t c) (\<lambda>_ \<sigma>.
       case firstSome (\<lambda>s. getDecoratedValueGroup \<sigma> s g t) (storesToRoot \<sigma> c) of
         Some v \<Rightarrow> (Ret v, \<sigma>)
       | None \<Rightarrow>
           bindS (if soft then retS () else callGroupProviders callC g t c) (\<lambda>_ \<sigma>'.
             bindS (mapS (\<lambda>s. getValueGroup E s g (elemT t)) (storesToRoot \<sigma>' c))
               (\<lambda>vss. retS (VSlice t (concat vss))) \<sigma>') \<sigma>)"

definition is_soft :: "paramObjectField \<Rightarrow> bool" where
  "is_soft f = (case pofParam f of paramGroupedSlice g t soft oid \<Rightarrow> soft | _ \<Rightarrow> False)"

definition build_order :: "paramObjectField list \<Rightarrow> paramObjectField list" where
  "build_order fs = filter (\<lambda>f. \<not> is_soft f) fs @ filter is_soft fs"

text \<open>
  The type of a value, and whether \<open>reflect\<close> lets it be assigned to a variable of a type: the types
  are identical, or the value's type implements the interface, or both have the same underlying type
  and one of them has no name. The type of an error that user code made is not known; such an error
  can be assigned to every interface and to the types that implement \<open>error\<close>.
\<close>

definition typeOf :: "gval \<Rightarrow> gotype option" where
  "typeOf v = (case v of
       VZero t \<Rightarrow> Some t | VData t n \<Rightarrow> Some t | VStruct t vs \<Rightarrow> Some t | VSlice t vs \<Rightarrow> Some t | _ \<Rightarrow> None)"

definition AssignableTo :: "gval \<Rightarrow> gotype \<Rightarrow> bool" where
  "AssignableTo v t = (case typeOf v of
       Some u \<Rightarrow> u = t \<or> Implements u t \<or> ((tname u = [] \<or> tname t = []) \<and> under u = under t)
     | None \<Rightarrow> (case v of VError e \<Rightarrow> Kind t = KInterface \<or> isError t | _ \<Rightarrow> False))"

text \<open>
  \<open>dest.Field(i).Set(v)\<close> panics when \<open>v\<close> is the zero \<open>reflect.Value\<close> and when \<open>v\<close> is not assignable to the
  type of the field.
\<close>

definition settable :: "gotype \<Rightarrow> gval \<Rightarrow> ('s, gval) eff" where
  "settable t v =
     (if v = VNone then panicS (VRuntime ''reflect: call of reflect.Value.Set on zero Value'')
      else if \<not> AssignableTo v t then panicS (VRuntime ''reflect.Set: value is not assignable to the type of the field'')
      else retS v)"

definition zeroStruct :: "gotype \<Rightarrow> gval list" where
  "zeroStruct t = map (\<lambda>f. VZero (fieldType f)) (structFields t)"

definition setFields :: "paramObjectField list \<Rightarrow> gval list \<Rightarrow> gval list \<Rightarrow> gval list" where
  "setFields fs vs dest = fold (\<lambda>(f, v) d. d[pofIndex f := v]) (zip fs vs) dest"

lemma build_order_set [simp]: "set (build_order fs) = set fs"
  by (auto simp: build_order_def)

function build :: "env \<Rightarrow> call \<Rightarrow> call \<Rightarrow> param \<Rightarrow> nat \<Rightarrow> (store, gval) eff" where
  "build E callC callD (paramSingle name optional t) c = buildSingle callC callD name optional t c"
| "build E callC callD (paramGroupedSlice g t soft oid) c = buildGroup E callC callD g t soft c"
| "build E callC callD (paramObject t fs) c =
     bindS (mapS (\<lambda>f. bindS (build E callC callD (pofParam f) c) (settable (fieldType (structFields t ! pofIndex f))))
         (build_order fs))
       (\<lambda>vs. retS (VStruct t (setFields (build_order fs) vs (zeroStruct t))))"
  by pat_completeness auto
termination
  by (relation "measure (\<lambda>(E, cc, cd, p, c). size p)") (auto simp: size_pofParam)

definition BuildList :: "env \<Rightarrow> call \<Rightarrow> call \<Rightarrow> paramList \<Rightarrow> nat \<Rightarrow> (store, gval list) eff" where
  "BuildList E callC callD pl c = mapS (\<lambda>p. build E callC callD p c) (Params pl)"

end
