(* ===== verification/Result.thy ===== *)
theory Result
  imports Scope
begin

text \<open>
  Results (src/result.go): reading the results of a function off its type, extracting the returned
  values into a \<open>containerWriter\<close>, and the two ways to collect the keys a result produces: the
  visitor of \<open>Provide\<close> (src/provide.go) and the search of \<open>Decorate\<close> (src/decorate.go).
\<close>

subsection \<open>Results from types\<close>

fun bindR :: "'a res \<Rightarrow> ('a \<Rightarrow> 'b res) \<Rightarrow> 'b res" where
  "bindR (Ret a) f = f a"
| "bindR (Throw e) f = Throw e"
| "bindR (Panicked p) f = Panicked p"
| "bindR Diverged f = Diverged"

fun wrapR :: "(goerr \<Rightarrow> goerr) \<Rightarrow> 'a res \<Rightarrow> 'a res" where
  "wrapR w (Throw e) = Throw (w e)"
| "wrapR w r = r"

lemma bindR_eq_Ret: "bindR r f = Ret b \<longleftrightarrow> (\<exists>a. r = Ret a \<and> f a = Ret b)"
  by (cases r) auto

lemma wrapR_eq_Ret [simp]: "wrapR w r = Ret a \<longleftrightarrow> r = Ret a"
  by (cases r) auto

record resultOptions =
  roName :: string
  roGroup :: string
  roAs :: "iface list"

text \<open>
  \<open>reflect.TypeOf(as).Elem()\<close> and \<open>t.Implements(ifaceType)\<close> panic when \<open>as\<close> is not a pointer to an
  interface; \<open>provideOptions.Validate\<close> lets only such values through.
\<close>

definition nilPanic :: gval where
  "nilPanic = VRuntime ''invalid memory address or nil pointer dereference''"

fun asTypes :: "gotype \<Rightarrow> iface list \<Rightarrow> gotype list res" where
  "asTypes t [] = Ret []"
| "asTypes t (a # as) =
     (case (case TypeOf a of None \<Rightarrow> None | Some p \<Rightarrow> Elem p) of
        None \<Rightarrow> Panicked nilPanic
      | Some ifaceType \<Rightarrow>
          if ifaceType = t then asTypes t as
          else if Kind ifaceType \<noteq> KInterface then
            Panicked (VRuntime ''reflect: non-interface type passed to Type.Implements'')
          else if \<not> Implements t ifaceType then
            Throw (newErrInvalidInput (MsgAsNotImplemented t ifaceType) None)
          else bindR (asTypes t as) (\<lambda>ts. Ret (ifaceType # ts)))"

definition newResultSingle :: "gotype \<Rightarrow> resultOptions \<Rightarrow> result res" where
  "newResultSingle t opts =
     bindR (asTypes t (roAs opts)) (\<lambda>ts.
       case ts of
         [] \<Rightarrow> Ret (resultSingle (roName opts) t [])
       | u # us \<Rightarrow> Ret (resultSingle (roName opts) u us))"

text \<open>
  The branch of \<open>newResult\<close> for the \<open>Group\<close> option. \<open>rg.Type.Elem()\<close> panics when \<open>rg.Type\<close> is an
  interface from \<open>As\<close>.
\<close>

definition newResultWithGroup :: "gotype \<Rightarrow> resultOptions \<Rightarrow> result res" where
  "newResultWithGroup t opts =
     bindR (wrapR (\<lambda>e. newErrInvalidInput (MsgParseGroup (roGroup opts)) (Some e))
              (parseGroupString (roGroup opts))) (\<lambda>g.
     bindR (asTypes t (roAs opts)) (\<lambda>ts.
       let (rgType, rgAs) = (case ts of [] \<Rightarrow> (t, []) | u # us \<Rightarrow> (u, us))
       in if gSoft g then Throw (newErrInvalidInput (MsgSoftResult (gName g)) None)
          else if gFlatten g then
            if Kind t \<noteq> KSlice then Throw (newErrInvalidInput (MsgFlattenNotSlice t) None)
            else (case Elem rgType of
                None \<Rightarrow> Panicked (VRuntime ''reflect: Elem of invalid type'')
              | Some e \<Rightarrow> Ret (resultGrouped (gName g) e True rgAs))
          else Ret (resultGrouped (gName g) rgType False rgAs)))"

definition newResultGrouped :: "gofield \<Rightarrow> result res" where
  "newResultGrouped f =
     bindR (parseGroupString (TagGet f ''group'')) (\<lambda>g.
       let name = TagGet f ''name''; optional = fst (isFieldOptional f)
       in if gFlatten g \<and> Kind (fieldType f) \<noteq> KSlice then
            Throw (newErrInvalidInput (MsgFlattenFieldNotSlice (fieldName f) (fieldType f)) None)
          else if gSoft g then Throw (newErrInvalidInput (MsgSoftField (gName g)) None)
          else if name \<noteq> '''' then
            Throw (newErrInvalidInput (MsgNamedGroupProvided name (gName g)) None)
          else if optional then Throw (newErrInvalidInput MsgGroupOptional None)
          else if gFlatten g then
            (case Elem (fieldType f) of
               None \<Rightarrow> Panicked (VRuntime ''reflect: Elem of invalid type'')
             | Some e \<Rightarrow> Ret (resultGrouped (gName g) e True []))
          else Ret (resultGrouped (gName g) (fieldType f) False []))"

lemma size_fields_of: "size_list size (structFields t) < size t"
  by (cases t; cases "under t") (auto simp: structFields_def)

lemma size_fieldType_of: "size (fieldType f) < size f"
  by (cases f) simp

definition elemIs :: "(gotype \<Rightarrow> bool) \<Rightarrow> gotype \<Rightarrow> bool" where
  "elemIs P t \<longleftrightarrow> Kind t = KPtr \<and> (case Elem t of Some e \<Rightarrow> P e | None \<Rightarrow> False)"

function (sequential)
  newResult :: "gotype \<Rightarrow> resultOptions \<Rightarrow> result res"
  and newResultObjectFields ::
    "gotype \<Rightarrow> resultOptions \<Rightarrow> nat \<Rightarrow> gofield list \<Rightarrow> resultObjectField list res"
  and newResultObjectField :: "nat \<Rightarrow> gofield \<Rightarrow> resultOptions \<Rightarrow> resultObjectField res"
where
  "newResult t opts =
     (if IsIn t \<or> elemIs IsIn t \<or> embedsType t inPtrType then
        Throw (newErrInvalidInput (MsgProvideIn t) None)
      else if isError t then Throw (newErrInvalidInput MsgReturnError None)
      else if IsOut t then
        if roName opts \<noteq> '''' then Throw (newErrInvalidInput (MsgNameOnOut t) None)
        else if roGroup opts \<noteq> '''' then Throw (newErrInvalidInput (MsgGroupOnOut t) None)
        else bindR (newResultObjectFields t opts 0 (structFields t)) (\<lambda>fs. Ret (resultObject t fs))
      else if embedsType t outPtrType then
        Throw (newErrInvalidInput (MsgResultEmbedsOutPtr t) None)
      else if elemIs IsOut t then Throw (newErrInvalidInput (MsgPtrToOut t) None)
      else if roGroup opts \<noteq> '''' then newResultWithGroup t opts
      else newResultSingle t opts)"
| "newResultObjectFields t opts i [] = Ret []"
| "newResultObjectFields t opts i (f # fs) =
     (if fieldType f = outType then newResultObjectFields t opts (Suc i) fs
      else
        bindR
          (wrapR (\<lambda>e. newErrInvalidInput (MsgBadField (fieldName f) t) (Some e)) (newResultObjectField i f opts))
          (\<lambda>rof. bindR (newResultObjectFields t opts (Suc i) fs) (\<lambda>rofs. Ret (rof # rofs))))"
| "newResultObjectField idx f opts =
     (if pkgPath f \<noteq> '''' then
        Throw (newErrInvalidInput (MsgUnexportedOut (fieldName f) (fieldType f)) None)
      else
        bindR
          (if TagGet f ''group'' \<noteq> '''' then newResultGrouped f
           else newResult (fieldType f)
             (if TagGet f ''name'' \<noteq> '''' then opts\<lparr>roName := TagGet f ''name''\<rparr> else opts))
          (\<lambda>r. Ret (resultObjectField (fieldName f) idx r)))"
  by pat_completeness auto
termination
  by (relation "measure (case_sum (\<lambda>(t, opts). size t)
      (case_sum (\<lambda>(t, opts, i, fs). size_list size fs) (\<lambda>(idx, f, opts). size f)))")
    (auto simp: size_fields_of intro: less_le_trans [OF size_fieldType_of])

declare newResult.simps [simp del] newResultObjectFields.simps [simp del] newResultObjectField.simps [simp del]

text \<open>The loop of \<open>newResultList\<close>, with its position \<open>i\<close> and the next free index \<open>resultIdx\<close>.\<close>

fun newResultListFrom ::
  "resultOptions \<Rightarrow> nat \<Rightarrow> nat \<Rightarrow> gotype list \<Rightarrow> (result list \<times> int list) res" where
  "newResultListFrom opts i resultIdx [] = Ret ([], [])"
| "newResultListFrom opts i resultIdx (t # ts) =
     (if isError t then
        bindR (newResultListFrom opts (Suc i) resultIdx ts) (\<lambda>(rs, is). Ret (rs, - 1 # is))
      else
        bindR (wrapR (\<lambda>e. newErrInvalidInput (MsgBadResult (Suc i)) (Some e)) (newResult t opts)) (\<lambda>r.
        bindR (newResultListFrom opts (Suc i) (Suc resultIdx) ts) (\<lambda>(rs, is).
          Ret (r # rs, int resultIdx # is))))"

definition newResultList :: "gotype \<Rightarrow> resultOptions \<Rightarrow> resultList res" where
  "newResultList ctype opts =
     bindR (newResultListFrom opts 0 0 (outs ctype)) (\<lambda>(rs, is).
       Ret \<lparr>rlCtype = ctype, Results = rs, resultIndexes = is\<rparr>)"

subsection \<open>Extracting values\<close>

text \<open>The interface \<open>containerWriter\<close> (src/container.go), over the type of what is written to.\<close>

record 'w containerWriter =
  cwSetValue :: "string \<Rightarrow> gotype \<Rightarrow> gval \<Rightarrow> ('w, unit) eff"
  cwSetDecoratedValue :: "string \<Rightarrow> gotype \<Rightarrow> gval \<Rightarrow> ('w, unit) eff"
  cwSubmitGroupedValue :: "string \<Rightarrow> gotype \<Rightarrow> gval \<Rightarrow> ('w, unit) eff"
  cwSubmitDecoratedGroupedValue :: "string \<Rightarrow> gotype \<Rightarrow> gval \<Rightarrow> ('w, unit) eff"

text \<open>\<open>v.Field(i)\<close> and the elements \<open>v.Index(0..v.Len())\<close>; they panic on other kinds of values.\<close>

definition valueField :: "gval \<Rightarrow> nat \<Rightarrow> gval option" where
  "valueField v i =
     (case v of
        VStruct t vs \<Rightarrow> if i < length vs then Some (vs ! i) else None
      | VZero t \<Rightarrow>
          if i < length (structFields t) then Some (VZero (fieldType (structFields t ! i))) else None
      | _ \<Rightarrow> None)"

definition elements :: "gval \<Rightarrow> gval list option" where
  "elements v = (case v of VSlice t vs \<Rightarrow> Some vs | VZero t \<Rightarrow> Some [] | _ \<Rightarrow> None)"

lemma size_rofResult [termination_simp]:
  "f \<in> set fs \<Longrightarrow> size (rofResult f) < Suc (size_list size fs)"
proof -
  assume "f \<in> set fs"
  then have "size f \<le> size_list size fs" by (rule size_list_estimation') simp
  then show ?thesis by (cases f) simp
qed

fun Extract :: "'w containerWriter \<Rightarrow> result \<Rightarrow> bool \<Rightarrow> gval \<Rightarrow> ('w, unit) eff" where
  "Extract cw (resultSingle name t as) decorated v =
     (if decorated then cwSetDecoratedValue cw name t v
      else bindS (cwSetValue cw name t v) (\<lambda>_. forS (\<lambda>asType. cwSetValue cw name asType v) as))"
| "Extract cw (resultObject t fs) decorated v =
     forS (\<lambda>f. case valueField v (rofIndex f) of
         Some x \<Rightarrow> Extract cw (rofResult f) decorated x
       | None \<Rightarrow> panicS (VRuntime ''reflect: Field of non-struct type'')) fs"
| "Extract cw (resultGrouped g t flatten as) decorated v =
     (if \<not> decorated \<and> \<not> flatten then
        bindS (cwSubmitGroupedValue cw g t v)
          (\<lambda>_. forS (\<lambda>asType. cwSubmitGroupedValue cw g asType v) as)
      else if decorated then cwSubmitDecoratedGroupedValue cw g t v
      else (case elements v of
          Some vs \<Rightarrow> forS (cwSubmitGroupedValue cw g t) vs
        | None \<Rightarrow> panicS (VRuntime ''reflect: call of reflect.Value.Len on a non-slice Value'')))"

text \<open>
  \<open>v.Interface().(error)\<close> for a value of a type that implements \<open>error\<close>: the zero value of an
  interface type is a nil error, the zero value of any other type is an error that is not nil.
  Errors that user code returns are \<open>VError\<close>. \<open>Interface\<close> panics on the zero \<open>reflect.Value\<close>.
\<close>

definition asError :: "gval \<Rightarrow> goerr option" where
  "asError v =
     (case v of
        VError e \<Rightarrow> Some e
      | VZero t \<Rightarrow> if Kind t = KInterface then None else Some (EZero t)
      | _ \<Rightarrow> None)"

definition ExtractList :: "'w containerWriter \<Rightarrow> resultList \<Rightarrow> bool \<Rightarrow> gval list \<Rightarrow> ('w, unit) eff" where
  "ExtractList cw rl decorated values =
     forS (\<lambda>(i, v).
         if length (resultIndexes rl) \<le> i then panicS (VRuntime ''index out of range'')
         else let resultIdx = resultIndexes rl ! i
              in if 0 \<le> resultIdx then Extract cw (Results rl ! nat resultIdx) decorated v
                 else if v = VNone then panicS (VRuntime ''reflect: call of Interface on zero Value'')
                 else (case asError v of Some e \<Rightarrow> throwS e | None \<Rightarrow> retS ()))
       (enumerate 0 values)"

subsection \<open>Writing to a scope\<close>

definition scopeWriter :: "nat \<Rightarrow> store containerWriter" where
  "scopeWriter s =
     \<lparr>cwSetValue = (\<lambda>name t v. doS (setValue s name t v)),
      cwSetDecoratedValue = (\<lambda>name t v. doS (setDecoratedValue s name t v)),
      cwSubmitGroupedValue = (\<lambda>name t v. doS (submitGroupedValue s name t v)),
      cwSubmitDecoratedGroupedValue = (\<lambda>name t v. doS (submitDecoratedGroupedValue s name t v))\<rparr>"

subsection \<open>The staging writer\<close>

text \<open>
  \<open>stagingContainerWriter\<close> (src/constructor.go) records the writes of a constructor until
  \<open>Commit\<close>.
\<close>

record staging =
  st_values :: "(key \<times> gval) list"
  st_groups :: "(key \<times> gval list) list"

definition newStagingContainerWriter :: staging where
  "newStagingContainerWriter = \<lparr>st_values = [], st_groups = []\<rparr>"

definition stSetValue :: "string \<Rightarrow> gotype \<Rightarrow> gval \<Rightarrow> staging \<Rightarrow> staging" where
  "stSetValue name t v sr = sr\<lparr>st_values := AList.update (value_key name t) v (st_values sr)\<rparr>"

definition stSubmitGroupedValue :: "string \<Rightarrow> gotype \<Rightarrow> gval \<Rightarrow> staging \<Rightarrow> staging" where
  "stSubmitGroupedValue g t v sr =
     (let k = group_key g t
      in sr\<lparr>st_groups := AList.update k (al_get [] (st_groups sr) k @ [v]) (st_groups sr)\<rparr>)"

definition bugPanic :: gval where
  "bugPanic = VRuntime ''must never be called''"

definition stagingWriter :: "staging containerWriter" where
  "stagingWriter =
     \<lparr>cwSetValue = (\<lambda>name t v. doS (stSetValue name t v)),
      cwSetDecoratedValue = (\<lambda>name t v. panicS bugPanic),
      cwSubmitGroupedValue = (\<lambda>name t v. doS (stSubmitGroupedValue name t v)),
      cwSubmitDecoratedGroupedValue = (\<lambda>name t v. panicS bugPanic)\<rparr>"

text \<open>
  \<open>Commit\<close> goes over the two maps in an order that Go leaves open; the orders are the arguments
  \<open>vs\<close> and \<open>gs\<close>, the code's \<open>Commit\<close> takes some permutation of the maps.
\<close>

definition commitValues :: "nat \<Rightarrow> (key \<times> gval) list \<Rightarrow> store \<Rightarrow> store" where
  "commitValues s vs = fold (\<lambda>(k, v). setValue s (key_name k) (key_t k) v) vs"

definition commitGroups :: "nat \<Rightarrow> (key \<times> gval list) list \<Rightarrow> store \<Rightarrow> store" where
  "commitGroups s gs =
     fold (\<lambda>(k, vs). fold (\<lambda>v. submitGroupedValue s (key_group k) (key_t k) v) vs) gs"

definition Commit :: "staging \<Rightarrow> nat \<Rightarrow> store \<Rightarrow> store" where
  "Commit sr s \<sigma> = commitGroups s (st_groups sr) (commitValues s (st_values sr) \<sigma>)"

subsection \<open>Collecting keys: the visitor of Provide\<close>

text \<open>
  A visitor \<open>'v\<close> is immutable apart from state \<open>'s\<close> it shares through pointers; \<^const>\<open>None\<close> is the
  nil visitor. \<open>resultList\<close> is a result of its own in the code, here \<open>VisitList\<close> visits it.
\<close>

record ('v, 's) resultVisitor =
  Visit :: "'v \<Rightarrow> result \<Rightarrow> 's \<Rightarrow> 'v option \<times> 's"
  VisitList :: "'v \<Rightarrow> resultList \<Rightarrow> 's \<Rightarrow> 'v option \<times> 's"
  AnnotateWithField :: "'v \<Rightarrow> resultObjectField \<Rightarrow> 'v option"
  AnnotateWithPosition :: "'v \<Rightarrow> nat \<Rightarrow> 'v option"

function walkResult :: "('v, 's) resultVisitor \<Rightarrow> result \<Rightarrow> 'v \<Rightarrow> 's \<Rightarrow> 's" where
  "walkResult V r v s =
     (case Visit V v r s of
        (None, s') \<Rightarrow> s'
      | (Some w, s') \<Rightarrow>
          (case r of
             resultObject t fs \<Rightarrow>
               fold (\<lambda>f s. case AnnotateWithField V w f of
                   None \<Rightarrow> s
                 | Some v \<Rightarrow> walkResult V (rofResult f) v s) fs s'
           | _ \<Rightarrow> s'))"
  by pat_completeness auto
termination
  by (relation "measure (\<lambda>(V, r, v, s). size r)") (auto simp: size_rofResult)

declare walkResult.simps [simp del]

definition walkResultList :: "('v, 's) resultVisitor \<Rightarrow> resultList \<Rightarrow> 'v \<Rightarrow> 's \<Rightarrow> 's" where
  "walkResultList V rl v s =
     (case VisitList V v rl s of
        (None, s') \<Rightarrow> s'
      | (Some w, s') \<Rightarrow>
          fold (\<lambda>(i, r) s. case AnnotateWithPosition V w i of
              None \<Rightarrow> s
            | Some v \<Rightarrow> walkResult V r v s) (enumerate 0 (Results rl)) s')"

type_synonym keyPaths = "(key \<times> string) list"

text \<open>\<open>checkKey\<close> records the path also when it reports a conflict.\<close>

definition checkKey :: "store \<Rightarrow> nat \<Rightarrow> key \<Rightarrow> string \<Rightarrow> keyPaths \<Rightarrow> goerr option \<times> keyPaths" where
  "checkKey \<sigma> s k path kp =
     ((case map_of kp k of
         Some conflict \<Rightarrow>
           Some (newErrInvalidInput (MsgCannotProvide k path)
                   (Some (newErrInvalidInput (MsgAlreadyProvidedAt conflict) None)))
       | None \<Rightarrow>
           let ps = getProviders \<sigma> s k
           in if ps \<noteq> [] then
                Some (newErrInvalidInput (MsgCannotProvide k path)
                  (Some (newErrInvalidInput
                     (MsgAlreadyProvidedBy (map (\<lambda>p. cn_location (ctor_of \<sigma> p)) ps)) None)))
              else None),
      AList.update k path kp)"

fun checkKeys :: "store \<Rightarrow> nat \<Rightarrow> key list \<Rightarrow> string \<Rightarrow> keyPaths \<Rightarrow> goerr option \<times> keyPaths" where
  "checkKeys \<sigma> s [] path kp = (None, kp)"
| "checkKeys \<sigma> s (k # ks) path kp =
     (case checkKey \<sigma> s k path kp of
        (Some e, kp') \<Rightarrow> (Some e, kp')
      | (None, kp') \<Rightarrow> checkKeys \<sigma> s ks path kp')"

definition cvVisit ::
  "store \<Rightarrow> nat \<Rightarrow> string list \<Rightarrow> result \<Rightarrow> goerr option \<times> keyPaths
    \<Rightarrow> string list option \<times> (goerr option \<times> keyPaths)" where
  "cvVisit \<sigma> s currentResultPath res st =
     (case st of
        (Some e, kp) \<Rightarrow> (None, (Some e, kp))
      | (None, kp) \<Rightarrow>
          let path = joinWith ''.'' currentResultPath
          in (case res of
                resultSingle name t as \<Rightarrow>
                  (case checkKeys \<sigma> s (map (value_key name) (t # as)) path kp of
                     (Some e, kp') \<Rightarrow> (None, (Some e, kp'))
                   | (None, kp') \<Rightarrow> (Some currentResultPath, (None, kp')))
              | resultGrouped g t flatten as \<Rightarrow>
                  (Some currentResultPath,
                   (None, fold (\<lambda>u kp. AList.update (group_key g u) path kp) (t # as) kp))
              | resultObject t fs \<Rightarrow> (Some currentResultPath, (None, kp))))"

definition connectionVisitor :: "store \<Rightarrow> nat \<Rightarrow> (string list, goerr option \<times> keyPaths) resultVisitor" where
  "connectionVisitor \<sigma> s =
     \<lparr>Visit = cvVisit \<sigma> s,
      VisitList = (\<lambda>path rl st. (if fst st \<noteq> None then None else Some path, st)),
      AnnotateWithField = (\<lambda>path f. Some (path @ [rofName f])),
      AnnotateWithPosition = (\<lambda>path i. Some (path @ [''['' @ digits i @ '']'']))\<rparr>"

definition findAndValidateResults :: "store \<Rightarrow> nat \<Rightarrow> resultList \<Rightarrow> key list res" where
  "findAndValidateResults \<sigma> s rl =
     (case walkResultList (connectionVisitor \<sigma> s) rl [] (None, []) of
        (Some e, kp) \<Rightarrow> Throw e
      | (None, kp) \<Rightarrow> Ret (map fst kp))"

subsection \<open>Collecting keys: the search of Decorate\<close>

lemma sum_size_rofs: "sum_list (map (size \<circ> rofResult) fs) + length fs \<le> size_list size fs"
proof (induction fs)
  case (Cons f fs)
  then show ?case by (cases f) auto
qed simp

function findResultKeysLoop :: "result list \<Rightarrow> key list \<Rightarrow> key list res" where
  "findResultKeysLoop [] keys = Ret keys"
| "findResultKeysLoop (resultSingle name t as # q) keys =
     findResultKeysLoop q (keys @ [value_key name t])"
| "findResultKeysLoop (resultGrouped g t flatten as # q) keys =
     (if Kind t \<noteq> KSlice then Throw (newErrInvalidInput MsgDecorateSingle None)
      else (case Elem t of
          None \<Rightarrow> Panicked (VRuntime ''reflect: Elem of invalid type'')
        | Some e \<Rightarrow> findResultKeysLoop q (keys @ [group_key g e])))"
| "findResultKeysLoop (resultObject t fs # q) keys = findResultKeysLoop (q @ map rofResult fs) keys"
  by pat_completeness auto

termination
proof (relation "measure (\<lambda>(q, keys). sum_list (map size q) + length q)", goal_cases)
  case (4 t fs q keys)
  then show ?case using sum_size_rofs [of fs] by simp
qed auto

definition findResultKeys :: "resultList \<Rightarrow> key list res" where
  "findResultKeys rl = findResultKeysLoop (Results rl) []"

end
