(* ===== verification/Nodes.thy ===== *)
theory Nodes
  imports Param Result
begin

text \<open>
  The nodes that run user code: constructors (src/constructor.go) and decorators (src/decorate.go),
  with the invokers (src/container.go), callbacks (src/callback.go, src/before_callback.go) and the
  recovery from panics.

  \<open>Call\<close> of a node builds its arguments, which calls other nodes. \<open>ctorCall\<close> and \<open>dcorCall\<close> are the
  bodies of the two \<open>Call\<close> methods over the calls they make; \<open>callC\<close> and \<open>callD\<close> tie the knot with
  fuel for the depth of the recursion. Out of fuel is the outcome \<open>Diverged\<close>: no statement about a
  returned value holds of it, and the theory \<open>Termination\<close> shows how much fuel is enough.

  Callbacks are user code that observes: they are events of the log, return, and do not panic.
\<close>

subsection \<open>Running user code\<close>

definition invoke_fn :: "env \<Rightarrow> invoker \<Rightarrow> caller \<Rightarrow> gofn \<Rightarrow> gval list \<Rightarrow> (store, gval list) eff" where
  "invoke_fn E ivk who f args \<sigma> =
     (case ivk of
        dryInvoker \<Rightarrow> (Ret (map VZero (outs (fn_type f))), \<sigma>)
      | defaultInvoker \<Rightarrow>
          if VNone \<in> set args then
            (Panicked (VRuntime ''reflect: Call using zero Value argument''), \<sigma>)
          else
            (case env_call E (fn_id f) (log \<sigma>) args of
               OReturn vs \<Rightarrow> (Ret vs, emit (EvCall who (fn_id f) args) \<sigma>)
             | OPanic p \<Rightarrow> (Panicked p, emit (EvCall who (fn_id f) args) \<sigma>)))"

text \<open>The deferred \<open>recover\<close>; a stack overflow cannot be recovered.\<close>

definition recoverS :: "bool \<Rightarrow> Func \<Rightarrow> (store, 'a) eff \<Rightarrow> (store, 'a) eff" where
  "recoverS b fn m \<sigma> =
     (case m \<sigma> of
        (Panicked p, \<sigma>') \<Rightarrow> if b then (Throw (EPanic fn p), \<sigma>') else (Panicked p, \<sigma>')
      | r \<Rightarrow> r)"

definition callbackName :: "Func \<Rightarrow> string" where
  "callbackName f = fnPackage f @ ''.'' @ fnName f"

definition before :: "nat option \<Rightarrow> string \<Rightarrow> store \<Rightarrow> store" where
  "before cb name \<sigma> = (case cb of None \<Rightarrow> \<sigma> | Some k \<Rightarrow> emit (EvBefore k name) \<sigma>)"

definition clockNow :: "env \<Rightarrow> store \<Rightarrow> int \<times> store" where
  "clockNow E \<sigma> = (env_now E (ticks \<sigma>), \<sigma>\<lparr>ticks := Suc (ticks \<sigma>)\<rparr>)"

text \<open>
  The deferred callback gets the error that the call returns; when a panic passes, that error is
  still nil.
\<close>

definition errOf :: "'a res \<Rightarrow> goerr option" where
  "errOf r = (case r of Throw e \<Rightarrow> Some e | _ \<Rightarrow> None)"

definition withCallback :: "env \<Rightarrow> nat option \<Rightarrow> string \<Rightarrow> (store, 'a) eff \<Rightarrow> (store, 'a) eff" where
  "withCallback E cb name m \<sigma> =
     (case cb of
        None \<Rightarrow> m \<sigma>
      | Some k \<Rightarrow>
          let (start, \<sigma>1) = clockNow E \<sigma>
          in (case m \<sigma>1 of
                (Diverged, \<sigma>2) \<Rightarrow> (Diverged, \<sigma>2)
              | (r, \<sigma>2) \<Rightarrow>
                  let (now, \<sigma>3) = clockNow E \<sigma>2
                  in (r, emit (EvCallback k name (errOf r) (now - start)) \<sigma>3)))"

subsection \<open>Constructor nodes\<close>

record constructorOptions =
  coResultName :: string
  coResultGroup :: string
  coResultAs :: "iface list"
  coLocation :: "Func option"
  coCallback :: "nat option"
  coBeforeCallback :: "nat option"

definition newConstructorNode ::
  "gofn \<Rightarrow> nat \<Rightarrow> nat \<Rightarrow> constructorOptions \<Rightarrow> (store, nat) eff" where
  "newConstructorNode ctor s origS opts =
     bindS (newParamList (fn_type ctor) s) (\<lambda>params.
     bindS (liftS (newResultList (fn_type ctor)
              \<lparr>roName = coResultName opts, roGroup = coResultGroup opts, roAs = coResultAs opts\<rparr>))
       (\<lambda>results \<sigma>.
          let n = length (ctors \<sigma>);
              (\<sigma>1, ords) = newGraphNode (NCtor n) s (\<sigma>, []);
              node = \<lparr>cn_ctor = ctor, cn_ctype = fn_type ctor,
                cn_location = (case coLocation opts of None \<Rightarrow> InspectFunc ctor | Some f \<Rightarrow> f),
                cn_id = fn_ptr ctor, cn_called = False, cn_paramList = params,
                cn_resultList = results, cn_orders = ords, cn_s = s, cn_origS = origS,
                cn_callback = coCallback opts, cn_beforeCallback = coBeforeCallback opts\<rparr>
          in (Ret n, \<sigma>1\<lparr>ctors := ctors \<sigma>1 @ [node]\<rparr>)))"

text \<open>From the returned values on: stage them, and commit when no error is among them.\<close>

definition ctorFinish :: "nat \<Rightarrow> gval list \<Rightarrow> (store, unit) eff" where
  "ctorFinish n results \<sigma> =
     (let N = ctor_of \<sigma> n
      in case ExtractList stagingWriter (cn_resultList N) False results newStagingContainerWriter of
           (Ret _, receiver) \<Rightarrow>
             (Ret (), upd_ctor n (\<lambda>c. c\<lparr>cn_called := True\<rparr>) (Commit receiver (cn_s N) \<sigma>))
         | (Throw e, receiver) \<Rightarrow> (Throw (EConstructorFailed (cn_location N) e), \<sigma>)
         | (Panicked p, receiver) \<Rightarrow> (Panicked p, \<sigma>)
         | (Diverged, receiver) \<Rightarrow> (Diverged, \<sigma>))"

definition ctorRun :: "env \<Rightarrow> nat \<Rightarrow> nat \<Rightarrow> gval list \<Rightarrow> (store, unit) eff" where
  "ctorRun E n c args \<sigma> =
     (let N = ctor_of \<sigma> n; name = callbackName (cn_location N)
      in withCallback E (cn_callback N) name
           (recoverS (recoverFromPanics (scope_of \<sigma> (cn_s N))) (cn_location N)
             (bindS (invoke_fn E (invokerFn (scope_of \<sigma> c)) (ByCtor n) (cn_ctor N) args)
                (ctorFinish n)))
           (before (cn_beforeCallback N) name \<sigma>))"

definition ctorCall :: "env \<Rightarrow> call \<Rightarrow> call \<Rightarrow> call" where
  "ctorCall E cC cD n c \<sigma> =
     (let N = ctor_of \<sigma> n
      in if cn_called N then (Ret (), \<sigma>)
         else case shallowCheckDependencies \<sigma> c (cn_paramList N) of
             Some err \<Rightarrow> (Throw (EMissingDependencies (cn_location N) err), \<sigma>)
           | None \<Rightarrow>
               bindS (wrapS (EArgumentsFailed (cn_location N)) (BuildList E cC cD (cn_paramList N) c))
                 (ctorRun E n c) \<sigma>)"

subsection \<open>Decorator nodes\<close>

definition newDecoratorNode ::
  "gofn \<Rightarrow> nat \<Rightarrow> nat option \<Rightarrow> nat option \<Rightarrow> (store, nat) eff" where
  "newDecoratorNode dcor s cb bcb =
     bindS (newParamList (fn_type dcor) s) (\<lambda>pl.
     bindS (liftS (newResultList (fn_type dcor) \<lparr>roName = '''', roGroup = '''', roAs = []\<rparr>))
       (\<lambda>rl \<sigma>.
          let node = \<lparr>dn_dcor = dcor, dn_dtype = fn_type dcor, dn_id = fn_ptr dcor,
                dn_location = InspectFunc dcor, dn_state = decoratorReady, dn_params = pl,
                dn_results = rl, dn_s = s, dn_callback = cb, dn_beforeCallback = bcb\<rparr>
          in (Ret (length (dcors \<sigma>)), \<sigma>\<lparr>dcors := dcors \<sigma> @ [node]\<rparr>)))"

definition setState :: "nat \<Rightarrow> decoratorState \<Rightarrow> store \<Rightarrow> store" where
  "setState d st = upd_dcor d (\<lambda>n. n\<lparr>dn_state := st\<rparr>)"

definition dcorFinish :: "nat \<Rightarrow> gval list \<Rightarrow> (store, unit) eff" where
  "dcorFinish d results \<sigma> =
     (let N = dcor_of \<sigma> d
      in bindS (ExtractList (scopeWriter (dn_s N)) (dn_results N) True results)
           (\<lambda>_. doS (setState d decoratorCalled)) \<sigma>)"

definition dcorRun :: "env \<Rightarrow> nat \<Rightarrow> nat \<Rightarrow> gval list \<Rightarrow> (store, unit) eff" where
  "dcorRun E d s args \<sigma> =
     (let N = dcor_of \<sigma> d; name = callbackName (dn_location N)
      in withCallback E (dn_callback N) name
           (recoverS (recoverFromPanics (scope_of \<sigma> (dn_s N))) (dn_location N)
             (bindS (invoke_fn E (invokerFn (scope_of \<sigma> s)) (ByDecorator d) (dn_dcor N) args)
                (dcorFinish d)))
           (before (dn_beforeCallback N) name \<sigma>))"

definition dcorCall :: "env \<Rightarrow> call \<Rightarrow> call \<Rightarrow> call" where
  "dcorCall E cC cD d s \<sigma> =
     (let N = dcor_of \<sigma> d
      in if dn_state N = decoratorCalled then (Ret (), \<sigma>)
         else
           let \<sigma>1 = setState d decoratorOnStack \<sigma>
           in case shallowCheckDependencies \<sigma>1 s (dn_params N) of
                Some err \<Rightarrow> (Throw (EMissingDependencies (dn_location N) err), \<sigma>1)
              | None \<Rightarrow>
                  bindS (wrapS (EArgumentsFailed (dn_location N)) (BuildList E cC cD (dn_params N) (dn_s N)))
                    (dcorRun E d s) \<sigma>1)"

subsection \<open>The recursion\<close>

fun callC :: "env \<Rightarrow> nat \<Rightarrow> call" and callD :: "env \<Rightarrow> nat \<Rightarrow> call" where
  "callC E 0 n c = (\<lambda>\<sigma>. (Diverged, \<sigma>))"
| "callC E (Suc k) n c = ctorCall E (callC E k) (callD E k) n c"
| "callD E 0 d s = (\<lambda>\<sigma>. (Diverged, \<sigma>))"
| "callD E (Suc k) d s = dcorCall E (callC E k) (callD E k) d s"

end
