(* ===== verification/Frames.thy ===== *)
theory Frames
  imports Nodes
begin

text \<open>
  What calling nodes keeps of the state. A relation between the states before and after that is
  reflexive, transitive and kept by the single steps is kept by building arguments and by the whole
  recursion of calls, whatever the fuel: the locales \<open>build_relation\<close> and \<open>call_relation\<close>. Their
  interpretations give the facts about a run that the properties rest on: what is never written
  (\<open>static\<close>), that a constructor that has completed is not run again (\<open>once\<close>), that the state of a
  decorator only advances (\<open>advances\<close>) and that a dry run calls nothing (\<open>silent\<close>).
\<close>

subsection \<open>Building arguments\<close>

lemma keeps_app: "keeps R m \<Longrightarrow> R \<sigma> (snd (m \<sigma>))"
  by (simp add: keeps_def)

locale build_relation = state_relation R for R :: "store \<Rightarrow> store \<Rightarrow> bool" +
  assumes R_rand: "R \<sigma> (upd_scope s (\<lambda>sc. sc\<lparr>rand := Suc (rand sc)\<rparr>) \<sigma>)"
begin

lemma keeps_getValueGroup: "keeps R (getValueGroup E s g t)"
  by (simp add: keeps_def getValueGroup_def Let_def R_rand)

lemma keeps_callProviders:
  assumes cC: "\<And>n c. keeps R (cC n c)"
  shows "keeps R (callProviders cC name optional t ns)"
proof (induction ns)
  case (Cons n ns)
  have "R \<sigma> (snd (callProviders cC name optional t (n # ns) \<sigma>))" for \<sigma>
  proof (cases "cC n (cn_origS (ctor_of \<sigma> n)) \<sigma>")
    case (Pair r \<sigma>')
    have "R \<sigma> \<sigma>'" using keepsD [OF cC Pair] .
    with R_trans [OF this keeps_app [OF Cons.IH, of \<sigma>']] show ?thesis
      by (cases r) (auto simp: Pair)
  qed
  then show ?case by (rule keepsI)
qed (simp add: keeps_def R_refl)

lemma keeps_pure: "keeps R (\<lambda>\<sigma>. (r \<sigma>, \<sigma>))"
  by (simp add: keeps_def R_refl)

lemma keeps_buildWithDecorators:
  assumes cD: "\<And>d s. keeps R (cD d s)"
  shows "keeps R (buildWithDecorators cD name t c)"
proof (rule keepsI)
  fix \<sigma>
  show "R \<sigma> (snd (buildWithDecorators cD name t c \<sigma>))"
  proof (cases "findDecorator \<sigma> name t (storesToRoot \<sigma> c)")
    case (Some ds)
    obtain d s where ds: "ds = (d, s)" by (cases ds)
    have "keeps R (bindS (wrapS (\<lambda>e. EParamSingleFailed (value_key name t) e 1) (cD d s))
        (\<lambda>_ \<sigma>'. (Ret (Some (orNoValue (getDecoratedValue \<sigma>' s name t))), \<sigma>')))"
      by (intro keeps_bindS keeps_wrapS cD keeps_pure)
    from keeps_app [OF this, of \<sigma>] show ?thesis by (simp add: buildWithDecorators_def Some ds)
  qed (simp add: buildWithDecorators_def R_refl)
qed

lemma keeps_buildFromProviders:
  assumes cC: "\<And>n c. keeps R (cC n c)"
  shows "keeps R (buildFromProviders cC name optional t c)"
proof (rule keepsI)
  fix \<sigma>
  have "keeps R (\<lambda>\<sigma>'. if b then (Ret (orNoValue (getValue \<sigma>' s name t)), \<sigma>') else (Ret (VZero t), \<sigma>'))"
    for b s by (cases b) (simp_all add: keeps_pure)
  note keeps_app [OF keeps_bindS [OF keeps_callProviders [OF cC] this], of \<sigma>]
  then show "R \<sigma> (snd (buildFromProviders cC name optional t c \<sigma>))"
    by (simp add: buildFromProviders_def R_refl split: option.split search.split)
qed

lemma keeps_buildSingle:
  assumes cC: "\<And>n c. keeps R (cC n c)" and cD: "\<And>d s. keeps R (cD d s)"
  shows "keeps R (buildSingle cC cD name optional t c)"
  unfolding buildSingle_def
  by (intro keeps_bindS keeps_buildWithDecorators cD)
    (auto split: option.splits intro: keeps_retS keeps_buildFromProviders cC)

lemma keeps_callGroupDecorators:
  assumes cD: "\<And>d s. keeps R (cD d s)"
  shows "keeps R (callGroupDecorators cD g t c)"
proof (rule keepsI)
  fix \<sigma>
  have "keeps R (\<lambda>\<sigma>'.
      case getGroupDecorator \<sigma>' s g (elemT t) of
        None \<Rightarrow> (Ret (), \<sigma>')
      | Some d \<Rightarrow>
          if dn_state (dcor_of \<sigma>' d) = decoratorOnStack then (Ret (), \<sigma>')
          else wrapS (\<lambda>e. EParamGroupFailed (group_key g (elemT t)) e (dn_id (dcor_of \<sigma>' d)))
                 (cD d s) \<sigma>')" for s
    by (rule keepsI) (auto simp: R_refl split: option.splits intro!: keeps_app [OF cD])
  then show "R \<sigma> (snd (callGroupDecorators cD g t c \<sigma>))"
    unfolding callGroupDecorators_def by (rule keeps_app [OF keeps_forS])
qed

lemma keeps_callGroupProviders:
  assumes cC: "\<And>n c. keeps R (cC n c)"
  shows "keeps R (callGroupProviders cC g t c)"
proof (rule keepsI)
  fix \<sigma>
  have inner: "keeps R (\<lambda>\<sigma>''. wrapS (\<lambda>e. EParamGroupFailed (group_key g (elemT t)) e (cn_id (ctor_of \<sigma>'' n)))
      (cC n (cn_origS (ctor_of \<sigma>'' n))) \<sigma>'')" for n
    by (rule keepsI, subst snd_wrapS, rule keeps_app [OF cC])
  have "keeps R (\<lambda>\<sigma>'. forS (\<lambda>n \<sigma>''.
      wrapS (\<lambda>e. EParamGroupFailed (group_key g (elemT t)) e (cn_id (ctor_of \<sigma>'' n)))
        (cC n (cn_origS (ctor_of \<sigma>'' n))) \<sigma>'') (getGroupProviders \<sigma>' s g (elemT t)) \<sigma>')" for s
    by (rule keepsI, rule keeps_app, rule keeps_forS, rule inner)
  then show "R \<sigma> (snd (callGroupProviders cC g t c \<sigma>))"
    unfolding callGroupProviders_def by (rule keeps_app [OF keeps_forS])
qed

lemma keeps_buildGroup:
  assumes cC: "\<And>n c. keeps R (cC n c)" and cD: "\<And>d s. keeps R (cD d s)"
  shows "keeps R (buildGroup E cC cD g t soft c)"
proof -
  let ?collect = "\<lambda>\<sigma>'. bindS (mapS (\<lambda>s. getValueGroup E s g (elemT t)) (storesToRoot \<sigma>' c))
      (\<lambda>vss. retS (VSlice t (concat vss))) \<sigma>'"
  have "keeps R (bindS (mapS (\<lambda>s. getValueGroup E s g (elemT t)) ss) (\<lambda>vss. retS (VSlice t (concat vss))))"
    for ss by (intro keeps_bindS keeps_mapS keeps_getValueGroup keeps_retS)
  then have "keeps R ?collect" by (rule keepsI [OF keeps_app])
  then have "keeps R (bindS (if soft then retS () else callGroupProviders cC g t c) (\<lambda>_. ?collect))"
    by (intro keeps_bindS keeps_if keeps_retS keeps_callGroupProviders cC)
  note keeps_app [OF this]
  then have "keeps R (\<lambda>\<sigma>. case firstSome (\<lambda>s. getDecoratedValueGroup \<sigma> s g t) (storesToRoot \<sigma> c) of
         Some v \<Rightarrow> (Ret v, \<sigma>)
       | None \<Rightarrow> bindS (if soft then retS () else callGroupProviders cC g t c) (\<lambda>_. ?collect) \<sigma>)"
    by (intro keepsI) (simp only: snd_conv R_refl simp_thms split: option.split)
  then show ?thesis
    unfolding buildGroup_def by (intro keeps_bindS keeps_callGroupDecorators cD)
qed

lemma keeps_build:
  "(\<And>n c. keeps R (cC n c)) \<Longrightarrow> (\<And>d s. keeps R (cD d s)) \<Longrightarrow> keeps R (build E cC cD p c)"
proof (induction E cC cD p c rule: build.induct)
  case (3 E cC cD t fs c)
  have "keeps R (bindS (build E cC cD (pofParam f) c) (settable (fieldType (structFields t ! pofIndex f))))" if "f \<in> set (build_order fs)" for f
    using 3 that by (intro keeps_bindS) (auto simp: settable_def keeps_panicS keeps_retS)
  then show ?case unfolding build.simps by (intro keeps_bindS [OF keeps_mapS] keeps_retS)
qed (auto intro: keeps_buildSingle keeps_buildGroup)

lemma keeps_BuildList:
  assumes "\<And>n c. keeps R (cC n c)" and "\<And>d s. keeps R (cD d s)"
  shows "keeps R (BuildList E cC cD pl c)"
  unfolding BuildList_def by (intro keeps_mapS keeps_build assms)

end

subsection \<open>Running a node\<close>

context state_relation
begin

lemma keeps_Extract:
  assumes "\<And>name t v. keeps R (cwSetValue cw name t v)"
    and "\<And>name t v. keeps R (cwSetDecoratedValue cw name t v)"
    and "\<And>name t v. keeps R (cwSubmitGroupedValue cw name t v)"
    and "\<And>name t v. keeps R (cwSubmitDecoratedGroupedValue cw name t v)"
  shows "keeps R (Extract cw r decorated v)"
  using assms
proof (induction cw r decorated v rule: Extract.induct)
  case (2 cw t fs decorated v)
  have "keeps R (case valueField v (rofIndex f) of
      Some x \<Rightarrow> Extract cw (rofResult f) decorated x
    | None \<Rightarrow> panicS (VRuntime ''reflect: Field of non-struct type''))" if "f \<in> set fs" for f
    using 2 that by (cases "valueField v (rofIndex f)") (simp_all add: keeps_panicS)
  then show ?case unfolding Extract.simps by (rule keeps_forS)
qed (auto intro!: keeps_bindS keeps_forS keeps_panicS split: option.split)

lemma keeps_ExtractList:
  assumes "\<And>r v. keeps R (Extract cw r decorated v)"
  shows "keeps R (ExtractList cw rl decorated values)"
  unfolding ExtractList_def
  by (intro keeps_forS)
    (auto simp: Let_def assms intro: keeps_panicS keeps_retS keeps_throwS split: option.split)

end

text \<open>The steps that every node makes: reading the clock and telling the callbacks.\<close>

locale callback_relation = build_relation R for R :: "store \<Rightarrow> store \<Rightarrow> bool" +
  assumes R_tick: "R \<sigma> (\<sigma>\<lparr>ticks := Suc (ticks \<sigma>)\<rparr>)"
    and R_before: "R \<sigma> (emit (EvBefore k name) \<sigma>)"
    and R_callback: "R \<sigma> (emit (EvCallback k name err rt) \<sigma>)"
begin

lemma keeps_recoverS:
  assumes "keeps R m"
  shows "keeps R (recoverS b fn m)"
proof (rule keepsI)
  fix \<sigma>
  have "snd (recoverS b fn m \<sigma>) = snd (m \<sigma>)"
    by (auto simp: recoverS_def split: prod.split res.split)
  then show "R \<sigma> (snd (recoverS b fn m \<sigma>))" using assms by (simp add: keeps_def)
qed

lemma keeps_withCallback:
  assumes m: "keeps R m"
  shows "keeps R (withCallback E cb name m)"
proof (rule keepsI)
  fix \<sigma>
  show "R \<sigma> (snd (withCallback E cb name m \<sigma>))"
  proof (cases cb)
    case (Some k)
    let ?\<sigma>1 = "\<sigma>\<lparr>ticks := Suc (ticks \<sigma>)\<rparr>"
    obtain r \<sigma>2 where r: "m ?\<sigma>1 = (r, \<sigma>2)" by fastforce
    have 2: "R \<sigma> \<sigma>2" using R_trans [OF R_tick keepsD [OF m r]] .
    then have "R \<sigma> (emit (EvCallback k name err rt) (\<sigma>2\<lparr>ticks := Suc (ticks \<sigma>2)\<rparr>))" for err rt
      using R_trans R_tick R_callback by blast
    with 2 show ?thesis
      by (cases r) (simp_all add: withCallback_def Some clockNow_def Let_def r)
  qed (simp add: withCallback_def keeps_app [OF m])
qed

lemma R_before_opt: "R \<sigma> (before cb name \<sigma>)"
  by (cases cb) (simp_all add: before_def R_refl R_before)

lemma keeps_ctorRun:
  assumes "\<And>ivk f args. keeps R (invoke_fn E ivk (ByCtor n) f args)" and "\<And>vs. keeps R (ctorFinish n vs)"
  shows "keeps R (ctorRun E n c args)"
proof (rule keepsI)
  fix \<sigma>
  have run: "keeps R (withCallback E cb name (recoverS b fn
      (bindS (invoke_fn E ivk (ByCtor n) f args) (ctorFinish n))))" for cb name b fn ivk f
    using assms by (intro keeps_withCallback keeps_recoverS keeps_bindS)
  show "R \<sigma> (snd (ctorRun E n c args \<sigma>))"
    unfolding ctorRun_def Let_def by (rule R_trans, rule R_before_opt, rule keeps_app, rule run)
qed

lemma keeps_dcorRun:
  assumes "\<And>ivk f args. keeps R (invoke_fn E ivk (ByDecorator d) f args)" and "\<And>vs. keeps R (dcorFinish d vs)"
  shows "keeps R (dcorRun E d s args)"
proof (rule keepsI)
  fix \<sigma>
  have run: "keeps R (withCallback E cb name (recoverS b fn
      (bindS (invoke_fn E ivk (ByDecorator d) f args) (dcorFinish d))))" for cb name b fn ivk f
    using assms by (intro keeps_withCallback keeps_recoverS keeps_bindS)
  show "R \<sigma> (snd (dcorRun E d s args \<sigma>))"
    unfolding dcorRun_def Let_def by (rule R_trans, rule R_before_opt, rule keeps_app, rule run)
qed

text \<open>The two bodies of \<open>Call\<close>, when every step of the node keeps the relation.\<close>

lemma keeps_ctorCall:
  assumes cC: "\<And>n c. keeps R (cC n c)" and cD: "\<And>d s. keeps R (cD d s)"
    and "\<And>ivk f args. keeps R (invoke_fn E ivk (ByCtor n) f args)" and "\<And>vs. keeps R (ctorFinish n vs)"
  shows "keeps R (ctorCall E cC cD n c)"
proof (rule keepsI)
  fix \<sigma>
  have "keeps R (bindS (wrapS w (BuildList E cC cD pl c)) (ctorRun E n c))" for w pl
    by (intro keeps_bindS keeps_wrapS keeps_BuildList keeps_ctorRun assms)
  from keeps_app [OF this] show "R \<sigma> (snd (ctorCall E cC cD n c \<sigma>))"
    by (simp add: ctorCall_def Let_def R_refl split: option.split)
qed

lemma keeps_dcorCall:
  assumes cC: "\<And>n c. keeps R (cC n c)" and cD: "\<And>d s. keeps R (cD d s)"
    and "\<And>ivk f args. keeps R (invoke_fn E ivk (ByDecorator d) f args)" and "\<And>vs. keeps R (dcorFinish d vs)"
    and onStack: "\<And>\<sigma>. dn_state (dcor_of \<sigma> d) \<noteq> decoratorCalled \<Longrightarrow> R \<sigma> (setState d decoratorOnStack \<sigma>)"
  shows "keeps R (dcorCall E cC cD d s)"
proof (rule keepsI)
  fix \<sigma>
  have "keeps R (bindS (wrapS w (BuildList E cC cD pl s')) (dcorRun E d s))" for w pl s'
    by (intro keeps_bindS keeps_wrapS keeps_BuildList keeps_dcorRun assms)
  note step = R_trans [OF onStack keeps_app [OF this, of "setState d decoratorOnStack \<sigma>"]]
  show "R \<sigma> (snd (dcorCall E cC cD d s \<sigma>))"
    by (simp add: dcorCall_def Let_def R_refl onStack step split: option.split)
qed

end

text \<open>A relation that both bodies keep, given that the calls they make keep it.\<close>

locale call_relation = callback_relation R for R :: "store \<Rightarrow> store \<Rightarrow> bool" +
  assumes ctor_step: "(\<And>n c. keeps R (cC n c)) \<Longrightarrow> (\<And>d s. keeps R (cD d s)) \<Longrightarrow>
      keeps R (ctorCall E cC cD n c)"
    and dcor_step: "(\<And>n c. keeps R (cC n c)) \<Longrightarrow> (\<And>d s. keeps R (cD d s)) \<Longrightarrow>
      keeps R (dcorCall E cC cD d s)"
begin

lemma keeps_calls: "keeps R (callC E k n c) \<and> keeps R (callD E k d s)"
proof (induction k arbitrary: n c d s)
  case 0
  then show ?case by (simp add: keeps_def R_refl)
next
  case (Suc k)
  have "\<And>n c. keeps R (callC E k n c)" and "\<And>d s. keeps R (callD E k d s)" using Suc by blast+
  then show ?case by (simp add: ctor_step dcor_step)
qed

lemma keeps_callC: "keeps R (callC E k n c)" and keeps_callD: "keeps R (callD E k d s)"
  using keeps_calls by blast+

lemma keeps_BuildList_calls: "keeps R (BuildList E (callC E k) (callD E k) pl c)"
  by (intro keeps_BuildList keeps_callC keeps_callD)

end

subsection \<open>What a run never writes\<close>

text \<open>
  The static part of a store: everything but the values that scopes cache, the flags of the nodes,
  the position in the random source, the log and the clock.
\<close>

definition static_scope :: "scope \<Rightarrow> scope" where
  "static_scope sc =
     sc\<lparr>decoratedValues := [], sc_values := [], groups := [], decoratedGroups := [], rand := 0\<rparr>"

definition static_ctor :: "constructorNode \<Rightarrow> constructorNode" where
  "static_ctor c = c\<lparr>cn_called := False\<rparr>"

definition static_dcor :: "decoratorNode \<Rightarrow> decoratorNode" where
  "static_dcor d = d\<lparr>dn_state := decoratorReady\<rparr>"

definition static :: "store \<Rightarrow> store" where
  "static \<sigma> = \<sigma>\<lparr>scopes := map static_scope (scopes \<sigma>), ctors := map static_ctor (ctors \<sigma>),
     dcors := map static_dcor (dcors \<sigma>), log := [], ticks := 0\<rparr>"

definition same_static :: "store \<Rightarrow> store \<Rightarrow> bool" where
  "same_static \<sigma> \<sigma>' \<longleftrightarrow> static \<sigma>' = static \<sigma>"

lemma map_list_update_same: "f y = f (xs ! i) \<Longrightarrow> map f (xs[i := y]) = map f xs"
  by (cases "i < length xs") (simp_all add: map_update list_update_same_conv list_update_beyond)

lemma static_upd_scope: "(\<And>sc. static_scope (f sc) = static_scope sc) \<Longrightarrow> static (upd_scope s f \<sigma>) = static \<sigma>"
  by (simp add: static_def upd_scope_def map_list_update_same)

lemma static_upd_ctor: "(\<And>c. static_ctor (f c) = static_ctor c) \<Longrightarrow> static (upd_ctor n f \<sigma>) = static \<sigma>"
  by (simp add: static_def upd_ctor_def map_list_update_same)

lemma static_upd_dcor: "(\<And>c. static_dcor (f c) = static_dcor c) \<Longrightarrow> static (upd_dcor d f \<sigma>) = static \<sigma>"
  by (simp add: static_def upd_dcor_def map_list_update_same)

lemma static_emit [simp]: "static (emit ev \<sigma>) = static \<sigma>"
  by (simp add: static_def emit_def)

lemma static_ticks [simp]: "static (\<sigma>\<lparr>ticks := n\<rparr>) = static \<sigma>"
  by (simp add: static_def)

lemma static_setState [simp]: "static (setState d st \<sigma>) = static \<sigma>"
  by (simp add: setState_def static_upd_dcor static_dcor_def)

lemma static_writes [simp]:
  "static (setValue s name t v \<sigma>) = static \<sigma>"
  "static (setDecoratedValue s name t v \<sigma>) = static \<sigma>"
  "static (submitGroupedValue s name t v \<sigma>) = static \<sigma>"
  "static (submitDecoratedGroupedValue s name t v \<sigma>) = static \<sigma>"
  by (simp_all add: setValue_def setDecoratedValue_def submitGroupedValue_def
      submitDecoratedGroupedValue_def static_upd_scope static_scope_def Let_def)

lemma fold_frame: "(\<And>x \<sigma>. h (g x \<sigma>) = h \<sigma>) \<Longrightarrow> h (fold g xs \<sigma>) = h \<sigma>"
  by (induction xs arbitrary: \<sigma>) auto

lemma Commit_frame:
  assumes "\<And>name t v \<sigma>. h (setValue s name t v \<sigma>) = h \<sigma>"
    and "\<And>name t v \<sigma>. h (submitGroupedValue s name t v \<sigma>) = h \<sigma>"
  shows "h (Commit sr s \<sigma>) = h \<sigma>"
proof -
  have "h (commitGroups s gs \<sigma>) = h \<sigma>" for gs \<sigma>
    unfolding commitGroups_def by (rule fold_frame) (auto intro!: fold_frame assms(2))
  moreover have "h (commitValues s vs \<sigma>) = h \<sigma>" for vs \<sigma>
    unfolding commitValues_def by (rule fold_frame) (auto intro: assms(1))
  ultimately show ?thesis by (simp add: Commit_def)
qed

text \<open>The parts of the store that writing to a scope leaves alone.\<close>

lemma upd_scope_frame [simp]:
  "ctors (upd_scope s f \<sigma>) = ctors \<sigma>" "dcors (upd_scope s f \<sigma>) = dcors \<sigma>"
  "orderMaps (upd_scope s f \<sigma>) = orderMaps \<sigma>"
  "log (upd_scope s f \<sigma>) = log \<sigma>" "ticks (upd_scope s f \<sigma>) = ticks \<sigma>"
  by (simp_all add: upd_scope_def)

lemma writes_frame [simp]:
  "ctors (setValue s name t v \<sigma>) = ctors \<sigma>" "dcors (setValue s name t v \<sigma>) = dcors \<sigma>"
  "log (setValue s name t v \<sigma>) = log \<sigma>"
  "ctors (setDecoratedValue s name t v \<sigma>) = ctors \<sigma>" "dcors (setDecoratedValue s name t v \<sigma>) = dcors \<sigma>"
  "log (setDecoratedValue s name t v \<sigma>) = log \<sigma>"
  "ctors (submitGroupedValue s name t v \<sigma>) = ctors \<sigma>" "dcors (submitGroupedValue s name t v \<sigma>) = dcors \<sigma>"
  "log (submitGroupedValue s name t v \<sigma>) = log \<sigma>"
  "ctors (submitDecoratedGroupedValue s name t v \<sigma>) = ctors \<sigma>"
  "dcors (submitDecoratedGroupedValue s name t v \<sigma>) = dcors \<sigma>"
  "log (submitDecoratedGroupedValue s name t v \<sigma>) = log \<sigma>"
  by (simp_all add: setValue_def setDecoratedValue_def submitGroupedValue_def
      submitDecoratedGroupedValue_def)

lemma Commit_frames [simp]:
  "ctors (Commit sr s \<sigma>) = ctors \<sigma>" "dcors (Commit sr s \<sigma>) = dcors \<sigma>" "log (Commit sr s \<sigma>) = log \<sigma>"
  "static (Commit sr s \<sigma>) = static \<sigma>"
  by (simp_all add: Commit_frame)

lemma emit_frame [simp]:
  "scopes (emit ev \<sigma>) = scopes \<sigma>" "ctors (emit ev \<sigma>) = ctors \<sigma>" "dcors (emit ev \<sigma>) = dcors \<sigma>"
  "orderMaps (emit ev \<sigma>) = orderMaps \<sigma>" "log (emit ev \<sigma>) = log \<sigma> @ [ev]"
  by (simp_all add: emit_def)

lemma setState_frame [simp]:
  "scopes (setState d st \<sigma>) = scopes \<sigma>" "ctors (setState d st \<sigma>) = ctors \<sigma>" "log (setState d st \<sigma>) = log \<sigma>"
  by (simp_all add: setState_def upd_dcor_def)

lemma upd_ctor_frame [simp]:
  "scopes (upd_ctor n f \<sigma>) = scopes \<sigma>" "dcors (upd_ctor n f \<sigma>) = dcors \<sigma>" "log (upd_ctor n f \<sigma>) = log \<sigma>"
  "length (ctors (upd_ctor n f \<sigma>)) = length (ctors \<sigma>)"
  by (simp_all add: upd_ctor_def)

lemma snd_invoke_fn:
  "snd (invoke_fn E ivk who f args \<sigma>) = \<sigma> \<or>
   snd (invoke_fn E ivk who f args \<sigma>) = emit (EvCall who (fn_id f) args) \<sigma>"
  by (auto simp: invoke_fn_def split: invoker.split outcome.split)

lemma snd_ctorFinish:
  "snd (ctorFinish n vs \<sigma>) = \<sigma> \<or>
   (\<exists>sr. snd (ctorFinish n vs \<sigma>) =
      upd_ctor n (\<lambda>c. c\<lparr>cn_called := True\<rparr>) (Commit sr (cn_s (ctor_of \<sigma> n)) \<sigma>))"
  by (auto simp: ctorFinish_def Let_def split: prod.split res.split)

text \<open>\<open>dcorFinish\<close> writes decorated values to the decorator's scope, then the decorator's state.\<close>

context callback_relation
begin

lemma keeps_dcorFinish:
  assumes "\<And>s name t v \<sigma>. R \<sigma> (setDecoratedValue s name t v \<sigma>)"
    and "\<And>s name t v \<sigma>. R \<sigma> (submitDecoratedGroupedValue s name t v \<sigma>)"
    and "\<And>s name t v \<sigma>. R \<sigma> (setValue s name t v \<sigma>)"
    and "\<And>s name t v \<sigma>. R \<sigma> (submitGroupedValue s name t v \<sigma>)"
    and "\<And>\<sigma>. R \<sigma> (setState d decoratorCalled \<sigma>)"
  shows "keeps R (dcorFinish d vs)"
proof (rule keepsI)
  fix \<sigma>
  have "keeps R (bindS (ExtractList (scopeWriter s) rl True vs) (\<lambda>_. doS (setState d decoratorCalled)))"
    for s rl
    by (intro keeps_bindS keeps_ExtractList keeps_Extract keeps_doS)
      (auto simp: scopeWriter_def intro!: keeps_doS assms)
  then show "R \<sigma> (snd (dcorFinish d vs \<sigma>))"
    unfolding dcorFinish_def Let_def by (rule keeps_app)
qed

end

interpretation static_cb: callback_relation same_static
  by standard (simp_all add: same_static_def static_upd_scope static_scope_def)

lemma static_invoke_fn [simp]: "static (snd (invoke_fn E ivk who f args \<sigma>)) = static \<sigma>"
  using snd_invoke_fn [of E ivk who f args \<sigma>] by auto

lemma static_ctorFinish [simp]: "static (snd (ctorFinish n vs \<sigma>)) = static \<sigma>"
  using snd_ctorFinish [of n vs \<sigma>] by (auto simp: static_upd_ctor static_ctor_def)

interpretation static_calls: call_relation same_static
proof (standard, goal_cases)
  case (1 cC cD E n c)
  then show ?case
    by (intro static_cb.keeps_ctorCall) (simp_all add: keeps_def same_static_def)
next
  case (2 cC cD E d s)
  then show ?case
    by (intro static_cb.keeps_dcorCall static_cb.keeps_dcorFinish)
      (simp_all add: keeps_def same_static_def)
qed

subsection \<open>Completed nodes are not run again\<close>

definition runs :: "caller \<Rightarrow> store \<Rightarrow> nat" where
  "runs who \<sigma> = length (filter (\<lambda>e. case e of EvCall w f args \<Rightarrow> w = who | _ \<Rightarrow> False) (log \<sigma>))"

definition once :: "nat \<Rightarrow> store \<Rightarrow> store \<Rightarrow> bool" where
  "once n \<sigma> \<sigma>' \<longleftrightarrow>
     (n < length (ctors \<sigma>) \<and> cn_called (ctor_of \<sigma> n) \<longrightarrow>
      n < length (ctors \<sigma>') \<and> cn_called (ctor_of \<sigma>' n) \<and> runs (ByCtor n) \<sigma>' = runs (ByCtor n) \<sigma>)"

definition once_dcor :: "nat \<Rightarrow> store \<Rightarrow> store \<Rightarrow> bool" where
  "once_dcor d \<sigma> \<sigma>' \<longleftrightarrow>
     (d < length (dcors \<sigma>) \<and> dn_state (dcor_of \<sigma> d) = decoratorCalled \<longrightarrow>
      d < length (dcors \<sigma>') \<and> dn_state (dcor_of \<sigma>' d) = decoratorCalled \<and>
      runs (ByDecorator d) \<sigma>' = runs (ByDecorator d) \<sigma>)"

lemma runs_log: "log \<sigma>' = log \<sigma> \<Longrightarrow> runs who \<sigma>' = runs who \<sigma>"
  by (simp add: runs_def)

lemma runs_upd [simp]:
  "runs who (upd_scope s f \<sigma>) = runs who \<sigma>" "runs who (upd_ctor n g \<sigma>) = runs who \<sigma>"
  "runs who (setState d st \<sigma>) = runs who \<sigma>" "runs who (\<sigma>\<lparr>ticks := k\<rparr>) = runs who \<sigma>"
  "runs who (Commit sr s \<sigma>) = runs who \<sigma>"
  "runs who (emit (EvBefore k name) \<sigma>) = runs who \<sigma>"
  "runs who (emit (EvCallback k name err rt) \<sigma>) = runs who \<sigma>"
  "runs who (setDecoratedValue s name t v \<sigma>) = runs who \<sigma>"
  "runs who (submitDecoratedGroupedValue s name t v \<sigma>) = runs who \<sigma>"
  "runs who (setValue s name t v \<sigma>) = runs who \<sigma>"
  "runs who (submitGroupedValue s name t v \<sigma>) = runs who \<sigma>"
  by (simp_all add: runs_def)

lemma runs_emit_call [simp]: "runs who (emit (EvCall w f args) \<sigma>) = runs who \<sigma> + (if w = who then 1 else 0)"
  by (simp add: runs_def)

lemma runs_invoke_fn: "w \<noteq> who \<Longrightarrow> runs who (snd (invoke_fn E ivk w f args \<sigma>)) = runs who \<sigma>"
  using snd_invoke_fn [of E ivk w f args \<sigma>] by auto

lemma invoke_fn_frame [simp]:
  "ctors (snd (invoke_fn E ivk w f args \<sigma>)) = ctors \<sigma>" "dcors (snd (invoke_fn E ivk w f args \<sigma>)) = dcors \<sigma>"
  using snd_invoke_fn [of E ivk w f args \<sigma>] by auto

lemma ctorFinish_frame:
  "runs who (snd (ctorFinish m vs \<sigma>)) = runs who \<sigma>"
  "length (ctors (snd (ctorFinish m vs \<sigma>))) = length (ctors \<sigma>)"
  "dcors (snd (ctorFinish m vs \<sigma>)) = dcors \<sigma>"
  "n < length (ctors \<sigma>) \<Longrightarrow> cn_called (ctor_of \<sigma> n) \<Longrightarrow> cn_called (ctor_of (snd (ctorFinish m vs \<sigma>)) n)"
  using snd_ctorFinish [of m vs \<sigma>]
  by (auto, cases "m = n", auto simp: upd_ctor_def)

lemma setState_dcors:
  "length (dcors (setState d st \<sigma>)) = length (dcors \<sigma>)"
  "d' < length (dcors \<sigma>) \<Longrightarrow> dcor_of (setState d st \<sigma>) d' =
     (if d' = d then (dcor_of \<sigma> d)\<lparr>dn_state := st\<rparr> else dcor_of \<sigma> d')"
  by (simp_all add: setState_def upd_dcor_def nth_list_update)

interpretation once_cb: callback_relation "once n" for n
  by standard (auto simp: once_def)

interpretation once_calls: call_relation "once n" for n
proof (standard, goal_cases)
  case (1 cC cD E m c)
  show ?case
  proof (cases "m = n")
    case True
    then show ?thesis by (auto simp: keeps_def once_def ctorCall_def)
  next
    case False
    then show ?thesis
      using 1 by (intro once_cb.keeps_ctorCall)
        (auto simp: keeps_def once_def runs_invoke_fn ctorFinish_frame)
  qed
next
  case (2 cC cD E d s)
  then show ?case
    by (intro once_cb.keeps_dcorCall once_cb.keeps_dcorFinish)
      (auto simp: keeps_def once_def runs_invoke_fn)
qed

interpretation once_dcor_cb: callback_relation "once_dcor d" for d
  by standard (auto simp: once_dcor_def)

interpretation once_dcor_calls: call_relation "once_dcor d" for d
proof (standard, goal_cases)
  case (1 cC cD E m c)
  then show ?case
    by (intro once_dcor_cb.keeps_ctorCall)
      (auto simp: keeps_def once_dcor_def runs_invoke_fn ctorFinish_frame)
next
  case (2 cC cD E d' s)
  show ?case
  proof (cases "d' = d")
    case True
    then show ?thesis by (auto simp: keeps_def once_dcor_def dcorCall_def)
  next
    case False
    then show ?thesis
      using 2 by (intro once_dcor_cb.keeps_dcorCall once_dcor_cb.keeps_dcorFinish)
        (auto simp: keeps_def once_dcor_def runs_invoke_fn setState_dcors)
  qed
qed

subsection \<open>Decorators only advance\<close>

text \<open>The state of a decorator as a number: ready, on the stack, called.\<close>

fun state_rank :: "decoratorState \<Rightarrow> nat" where
  "state_rank decoratorReady = 0"
| "state_rank decoratorOnStack = 1"
| "state_rank decoratorCalled = 2"

definition advances :: "store \<Rightarrow> store \<Rightarrow> bool" where
  "advances \<sigma> \<sigma>' \<longleftrightarrow> length (dcors \<sigma>') = length (dcors \<sigma>) \<and>
     (\<forall>d < length (dcors \<sigma>). state_rank (dn_state (dcor_of \<sigma> d)) \<le> state_rank (dn_state (dcor_of \<sigma>' d)))"

lemma state_rank_le_2: "state_rank st \<le> 2"
  by (cases st) auto

lemma state_rank_not_Called: "st \<noteq> decoratorCalled \<Longrightarrow> state_rank st \<le> 1"
  by (cases st) auto

interpretation advances_cb: callback_relation advances
  by standard (auto simp: advances_def intro: order_trans)

interpretation advances_calls: call_relation advances
proof (standard, goal_cases)
  case (1 cC cD E n c)
  then show ?case
    by (intro advances_cb.keeps_ctorCall) (auto simp: keeps_def advances_def ctorFinish_frame)
next
  case (2 cC cD E d s)
  then show ?case
    by (intro advances_cb.keeps_dcorCall advances_cb.keeps_dcorFinish)
      (auto simp: keeps_def advances_def setState_dcors state_rank_le_2 dest: state_rank_not_Called)
qed

end
