(* ===== verification/Keys.thy ===== *)
theory Keys
  imports Result "HOL-Library.Multiset"
begin

text \<open>
  The keys of a result: what the visitor of \<open>Provide\<close> (src/provide.go) and the search of \<open>Decorate\<close>
  (src/decorate.go) compute, against a definition by recursion on the result.
\<close>

subsection \<open>The keys that a constructor provides\<close>

text \<open>The keys of a result in the order of its fields; values are marked \<^const>\<open>True\<close>, groups \<^const>\<open>False\<close>.\<close>

fun result_keys :: "result \<Rightarrow> (bool \<times> key) list" where
  "result_keys (resultSingle name t as) = map (\<lambda>u. (True, value_key name u)) (t # as)"
| "result_keys (resultGrouped g t flatten as) = map (\<lambda>u. (False, group_key g u)) (t # as)"
| "result_keys (resultObject t fs) = concat (map (\<lambda>f. result_keys (rofResult f)) fs)"

definition list_keys :: "resultList \<Rightarrow> (bool \<times> key) list" where
  "list_keys rl = concat (map result_keys (Results rl))"

text \<open>No value key occurs before or has a provider in the scope.\<close>

fun conflict_free :: "store \<Rightarrow> nat \<Rightarrow> key set \<Rightarrow> (bool \<times> key) list \<Rightarrow> bool" where
  "conflict_free \<sigma> s seen [] = True"
| "conflict_free \<sigma> s seen ((isValue, k) # ks) =
     ((isValue \<longrightarrow> k \<notin> seen \<and> getProviders \<sigma> s k = []) \<and> conflict_free \<sigma> s (insert k seen) ks)"

lemma conflict_free_append:
  "conflict_free \<sigma> s seen (xs @ ys) \<longleftrightarrow>
     conflict_free \<sigma> s seen xs \<and> conflict_free \<sigma> s (seen \<union> snd ` set xs) ys"
  by (induction xs arbitrary: seen) (auto simp: insert_commute Un_commute)

lemma conflict_free_value:
  "conflict_free \<sigma> s seen ks \<Longrightarrow> (True, k) \<in> set ks \<Longrightarrow> getProviders \<sigma> s k = []"
  by (induction \<sigma> s seen ks rule: conflict_free.induct) auto

text \<open>The state of the visitor after the keys \<open>ks\<close> were visited without an error so far.\<close>

definition scanned :: "store \<Rightarrow> nat \<Rightarrow> (bool \<times> key) list \<Rightarrow> keyPaths \<Rightarrow> goerr option \<times> keyPaths \<Rightarrow> bool" where
  "scanned \<sigma> s ks kp st \<longleftrightarrow>
     (if conflict_free \<sigma> s (fst ` set kp) ks
      then fst st = None \<and> fst ` set (snd st) = fst ` set kp \<union> snd ` set ks \<and>
           (distinct (map fst kp) \<longrightarrow> distinct (map fst (snd st)))
      else fst st \<noteq> None)"

lemma scanned_append:
  assumes 1: "scanned \<sigma> s xs kp st"
    and 2: "\<And>kp'. st = (None, kp') \<Longrightarrow> scanned \<sigma> s ys kp' st'"
    and err: "\<And>e kp'. st = (Some e, kp') \<Longrightarrow> fst st' \<noteq> None"
  shows "scanned \<sigma> s (xs @ ys) kp st'"
proof (cases st)
  case (Pair e kp')
  then show ?thesis
  proof (cases e)
    case None
    with 1 2 Pair show ?thesis by (auto simp: scanned_def conflict_free_append split: if_splits)
  qed (use 1 err Pair in \<open>auto simp: scanned_def conflict_free_append split: if_splits\<close>)
qed

lemma map_of_None_fst: "map_of kp k = None \<longleftrightarrow> k \<notin> fst ` set kp"
  by (simp add: map_of_eq_None_iff)

lemma scanned_checkKeys: "scanned \<sigma> s (map (Pair True) ks) kp (checkKeys \<sigma> s ks path kp)"
proof (induction ks arbitrary: kp)
  case (Cons k ks)
  show ?case
  proof (cases "map_of kp k = None \<and> getProviders \<sigma> s k = []")
    case True
    then have step: "checkKeys \<sigma> s (k # ks) path kp = checkKeys \<sigma> s ks path (AList.update k path kp)"
      by (simp add: checkKey_def)
    have "scanned \<sigma> s ([(True, k)] @ map (Pair True) ks) kp (checkKeys \<sigma> s (k # ks) path kp)"
      unfolding step
    proof (rule scanned_append [where st = "(None, AList.update k path kp)"])
      show "scanned \<sigma> s [(True, k)] kp (None, AList.update k path kp)"
        using True by (simp add: scanned_def map_of_None_fst AList.dom_update AList.distinct_update)
    qed (use Cons in auto)
    then show ?thesis by simp
  next
    case False
    then have "fst (checkKeys \<sigma> s (k # ks) path kp) \<noteq> None"
      by (auto simp: checkKey_def Let_def split: option.split)
    with False show ?thesis by (auto simp: scanned_def map_of_None_fst)
  qed
qed (simp add: scanned_def)

lemma scanned_groups:
  "scanned \<sigma> s (map (\<lambda>u. (False, f u)) us) kp (None, fold (\<lambda>u. AList.update (f u) path) us kp)"
proof (induction us arbitrary: kp)
  case (Cons u us)
  have "scanned \<sigma> s ([(False, f u)] @ map (\<lambda>u. (False, f u)) us) kp
      (None, fold (\<lambda>u. AList.update (f u) path) us (AList.update (f u) path kp))"
  proof (rule scanned_append [where st = "(None, AList.update (f u) path kp)"])
    show "scanned \<sigma> s [(False, f u)] kp (None, AList.update (f u) path kp)"
      by (simp add: scanned_def AList.dom_update AList.distinct_update)
  qed (use Cons in auto)
  then show ?case by simp
qed (simp add: scanned_def)

text \<open>The walk scans the keys of a result, and does nothing once an error is set.\<close>

lemma walk_error: "walkResult (connectionVisitor \<sigma> s) r path (Some e, kp) = (Some e, kp)"
  by (subst walkResult.simps) (simp add: connectionVisitor_def cvVisit_def)

lemma walk_object:
  "walkResult (connectionVisitor \<sigma> s) (resultObject t fs) path (None, kp) =
     fold (\<lambda>f. walkResult (connectionVisitor \<sigma> s) (rofResult f) (path @ [rofName f])) fs (None, kp)"
  by (subst walkResult.simps) (simp add: connectionVisitor_def cvVisit_def)

lemma fold_walk_error:
  assumes "\<And>x e kp. g x (Some e, kp) = (Some e, kp)"
  shows "fold g xs (Some e, kp) = (Some e, kp)"
  using assms by (induction xs) auto

lemma scanned_fold:
  assumes "\<And>x kp. x \<in> set xs \<Longrightarrow> scanned \<sigma> s (h x) kp (g x (None, kp))"
    and err: "\<And>x e kp. g x (Some e, kp) = (Some e, kp)"
  shows "scanned \<sigma> s (concat (map h xs)) kp (fold g xs (None, kp))"
  using assms(1)
proof (induction xs arbitrary: kp)
  case (Cons x xs)
  have "scanned \<sigma> s (h x @ concat (map h xs)) kp (fold g xs (g x (None, kp)))"
    by (rule scanned_append [where st = "g x (None, kp)"])
      (use Cons in \<open>auto simp: fold_walk_error [OF err]\<close>)
  then show ?case by simp
qed (simp add: scanned_def)

lemma scanned_walk:
  "scanned \<sigma> s (result_keys r) kp (walkResult (connectionVisitor \<sigma> s) r path (None, kp))"
proof (induction r arbitrary: kp path rule: result_keys.induct)
  case (1 name t as)
  have "scanned \<sigma> s (map (Pair True) (map (value_key name) (t # as))) kp
      (checkKeys \<sigma> s (map (value_key name) (t # as)) (joinWith ''.'' path) kp)"
    by (rule scanned_checkKeys)
  then show ?case
    by (subst walkResult.simps)
      (auto simp: connectionVisitor_def cvVisit_def Let_def comp_def simp del: checkKeys.simps
        split: prod.split option.split)
next
  case (2 g t flatten as)
  then show ?case
    using scanned_groups [of \<sigma> s "group_key g" "t # as" kp "joinWith ''.'' path"]
    by (subst walkResult.simps) (simp add: connectionVisitor_def cvVisit_def Let_def)
next
  case (3 t fs)
  show ?case
    unfolding walk_object result_keys.simps
    by (rule scanned_fold) (use 3 in \<open>auto simp: walk_error\<close>)
qed

lemma walkResultList_fold:
  "walkResultList (connectionVisitor \<sigma> s) rl [] (None, []) =
     fold (\<lambda>(i, r). walkResult (connectionVisitor \<sigma> s) r [''['' @ digits i @ '']'']) (enumerate 0 (Results rl)) (None, [])"
  unfolding walkResultList_def by (simp add: connectionVisitor_def case_prod_unfold)

lemma findAndValidateResults_scan:
  "if conflict_free \<sigma> s {} (list_keys rl)
   then (\<exists>ks. findAndValidateResults \<sigma> s rl = Ret ks \<and> distinct ks \<and> set ks = snd ` set (list_keys rl))
   else (\<exists>e. findAndValidateResults \<sigma> s rl = Throw e)"
proof -
  let ?st = "walkResultList (connectionVisitor \<sigma> s) rl [] (None, [])"
  have "scanned \<sigma> s (concat (map (\<lambda>(i, r). result_keys r) (enumerate 0 (Results rl)))) [] ?st"
    unfolding walkResultList_fold
    by (rule scanned_fold) (auto simp: walk_error scanned_walk)
  moreover have "map (\<lambda>(i, r). result_keys r) (enumerate 0 (Results rl)) = map result_keys (Results rl)"
    by (rule nth_equalityI) (simp_all add: nth_enumerate_eq)
  ultimately have "scanned \<sigma> s (list_keys rl) [] ?st" by (simp add: list_keys_def)
  moreover obtain e kp where st: "?st = (e, kp)" by (cases ?st)
  ultimately show ?thesis
    by (cases e) (simp_all add: scanned_def findAndValidateResults_def split: if_splits)
qed

text \<open>
  C16: \<open>findAndValidateResults\<close> accepts a result exactly when every value it produces, in the order of
  the fields, has a key that did not occur before in the result and that has no provider in the
  scope yet. It then returns the keys of the result, each once; otherwise it returns an error.
\<close>

theorem findAndValidateResults_correct:
  "if conflict_free \<sigma> s {} (list_keys rl)
   then (\<exists>ks. findAndValidateResults \<sigma> s rl = Ret ks \<and> distinct ks \<and> set ks = snd ` set (list_keys rl))
   else (\<exists>e. findAndValidateResults \<sigma> s rl = Throw e)"
  by (rule findAndValidateResults_scan)

subsection \<open>The keys that a decorator replaces\<close>

text \<open>The keys of a decorator's result: groups are decorated as a whole, by a slice of the group's type.\<close>

fun decorated_keys :: "result \<Rightarrow> key list" where
  "decorated_keys (resultSingle name t as) = [value_key name t]"
| "decorated_keys (resultGrouped g t flatten as) = (case Elem t of Some e \<Rightarrow> [group_key g e] | None \<Rightarrow> [])"
| "decorated_keys (resultObject t fs) = concat (map (\<lambda>f. decorated_keys (rofResult f)) fs)"

text \<open>Every group of the result is a slice.\<close>

fun decoratable :: "result \<Rightarrow> bool" where
  "decoratable (resultSingle name t as) = True"
| "decoratable (resultGrouped g t flatten as) \<longleftrightarrow> Kind t = KSlice"
| "decoratable (resultObject t fs) \<longleftrightarrow> list_all (\<lambda>f. decoratable (rofResult f)) fs"

lemma Kind_Slice_Elem: "Kind t = KSlice \<Longrightarrow> \<exists>e. Elem t = Some e"
  by (auto simp: Kind_def Elem_def split: shape.splits)

lemma findResultKeysLoop_correct:
  "if list_all decoratable q
   then (\<exists>ks. findResultKeysLoop q keys = Ret ks \<and>
          mset ks = mset keys + mset (concat (map decorated_keys q)))
   else findResultKeysLoop q keys = Throw (newErrInvalidInput MsgDecorateSingle None)"
proof (induction q keys rule: findResultKeysLoop.induct)
  case (3 g t flatten as q keys)
  show ?case
  proof (cases "Kind t = KSlice")
    case True
    with Kind_Slice_Elem obtain e where "Elem t = Some e" by blast
    with 3 True show ?thesis by (auto split: if_splits)
  qed simp
next
  case (4 t fs q keys)
  then show ?case by (auto simp: list_all_iff comp_def split: if_splits)
qed (auto split: if_splits)

text \<open>
  C17: the breadth-first search \<open>findResultKeys\<close> finds every key of a decorator's result as often as
  it occurs; it fails exactly when some group of the result is not a slice.
\<close>

theorem findResultKeys_correct:
  "if list_all decoratable (Results rl)
   then (\<exists>ks. findResultKeys rl = Ret ks \<and> mset ks = mset (concat (map decorated_keys (Results rl))))
   else findResultKeys rl = Throw (newErrInvalidInput MsgDecorateSingle None)"
  using findResultKeysLoop_correct [of "Results rl" "[]"] by (simp add: findResultKeys_def split: if_splits)

end
