(* ===== verification/Dot.thy ===== *)
theory Dot
  imports GoTypes
begin

text \<open>
  The graph that \<open>Visualize\<close> prints (src/internal/dot/graph.go): adding constructors, marking
  failures, and pruning what did not fail.

  The code shares constructors and groups by pointer: a \<open>*Ctor\<close> is an index into \<open>ctorHeap\<close>, a
  \<open>*Group\<close> an index into \<open>groupHeap\<close>. A \<open>*Result\<close> is not changed once its \<open>GroupIndex\<close> is set,
  so results are values.
\<close>

subsection \<open>Data\<close>

datatype ErrorType = noError | rootCause | transitiveFailure

record nodeKey =
  nk_t :: gotype
  nk_name :: string
  nk_group :: string

text \<open>\<open>Param\<close> and \<open>Result\<close> embed a \<open>Node\<close>, whose fields are those of its \<open>nodeKey\<close>.\<close>

record dotParam =
  dp_node :: nodeKey
  dp_optional :: bool

record dotResult =
  dr_node :: nodeKey
  dr_groupIndex :: nat

record dotGroup =
  dg_type :: gotype
  dg_name :: string
  dg_results :: "dotResult list"
  dg_errorType :: ErrorType

record dotCtor =
  dc_name :: string
  dc_package :: string
  dc_file :: string
  dc_line :: nat
  dc_id :: nat
  dc_params :: "dotParam list"
  dc_groupParams :: "nat list"
  dc_results :: "dotResult list"
  dc_errorType :: ErrorType

record FailedNodes =
  RootCauses :: "dotResult list"
  TransitiveFailures :: "dotResult list"
  failedCtors :: "nat list"
  failedGroups :: "nodeKey list"

record dotGraph =
  ctorHeap :: "dotCtor list"
  groupHeap :: "dotGroup list"
  Ctors :: "nat list"
  ctorMap :: "(nat \<times> nat) list"
  Groups :: "nat list"
  groupMap :: "(nodeKey \<times> nat) list"
  consumers :: "(nodeKey \<times> nat list) list"
  Failed :: FailedNodes

definition groupNodeKey :: "dotGroup \<Rightarrow> nodeKey" where
  "groupNodeKey g = \<lparr>nk_t = dg_type g, nk_name = '''', nk_group = dg_name g\<rparr>"

definition NewGraph :: dotGraph where
  "NewGraph = \<lparr>ctorHeap = [], groupHeap = [], Ctors = [], ctorMap = [], Groups = [],
     groupMap = [], consumers = [],
     Failed = \<lparr>RootCauses = [], TransitiveFailures = [], failedCtors = [], failedGroups = []\<rparr>\<rparr>"

definition NewGroup :: "nodeKey \<Rightarrow> dotGroup" where
  "NewGroup k = \<lparr>dg_type = nk_t k, dg_name = nk_group k, dg_results = [], dg_errorType = noError\<rparr>"

definition upd_dotCtor :: "nat \<Rightarrow> (dotCtor \<Rightarrow> dotCtor) \<Rightarrow> dotGraph \<Rightarrow> dotGraph" where
  "upd_dotCtor i f g = g\<lparr>ctorHeap := (ctorHeap g)[i := f (ctorHeap g ! i)]\<rparr>"

definition upd_dotGroup :: "nat \<Rightarrow> (dotGroup \<Rightarrow> dotGroup) \<Rightarrow> dotGraph \<Rightarrow> dotGraph" where
  "upd_dotGroup i f g = g\<lparr>groupHeap := (groupHeap g)[i := f (groupHeap g ! i)]\<rparr>"

definition upd_Failed :: "(FailedNodes \<Rightarrow> FailedNodes) \<Rightarrow> dotGraph \<Rightarrow> dotGraph" where
  "upd_Failed f g = g\<lparr>Failed := f (Failed g)\<rparr>"

subsection \<open>Adding constructors\<close>

definition getGroup :: "nodeKey \<Rightarrow> dotGraph \<Rightarrow> nat \<times> dotGraph" where
  "getGroup k g =
     (case map_of (groupMap g) k of
        Some i \<Rightarrow> (i, g)
      | None \<Rightarrow>
          let i = length (groupHeap g)
          in (i, g\<lparr>groupHeap := groupHeap g @ [NewGroup k], groupMap := AList.update k i (groupMap g),
                  Groups := Groups g @ [i]\<rparr>))"

definition addToGroup :: "dotResult \<Rightarrow> dotGraph \<Rightarrow> dotResult \<times> dotGraph" where
  "addToGroup r g =
     (let k = \<lparr>nk_t = nk_t (dr_node r), nk_name = '''', nk_group = nk_group (dr_node r)\<rparr>;
          (i, g1) = getGroup k g;
          r' = r\<lparr>dr_groupIndex := length (dg_results (groupHeap g1 ! i))\<rparr>
      in (r', upd_dotGroup i (\<lambda>gr. gr\<lparr>dg_results := dg_results gr @ [r']\<rparr>) g1))"

text \<open>The two loops of \<open>AddCtor\<close>: over the parameters, then over the results.\<close>

definition elemType :: "gotype \<Rightarrow> gotype" where
  "elemType t = (case Elem t of Some e \<Rightarrow> e | None \<Rightarrow> t)"

fun addParams :: "dotParam list \<Rightarrow> dotGraph \<Rightarrow> dotParam list \<times> nat list \<times> dotGraph" where
  "addParams [] g = ([], [], g)"
| "addParams (p # ps) g =
     (if nk_group (dp_node p) = '''' then
        let (params, groupParams, g') = addParams ps g in (p # params, groupParams, g')
      else
        let (i, g1) = getGroup \<lparr>nk_t = elemType (nk_t (dp_node p)), nk_name = '''',
                                nk_group = nk_group (dp_node p)\<rparr> g;
            (params, groupParams, g') = addParams ps g1
        in (params, i # groupParams, g'))"

fun addResults :: "dotResult list \<Rightarrow> dotGraph \<Rightarrow> dotResult list \<times> dotGraph" where
  "addResults [] g = ([], g)"
| "addResults (r # rs) g =
     (let (r', g1) = (if nk_group (dr_node r) \<noteq> '''' then addToGroup r g else (r, g));
          (rs', g2) = addResults rs g1
      in (r' # rs', g2))"

definition addConsumers :: "nat \<Rightarrow> dotParam list \<Rightarrow> dotGraph \<Rightarrow> dotGraph" where
  "addConsumers i = fold (\<lambda>p g. g\<lparr>consumers :=
     AList.update (dp_node p) (al_get [] (consumers g) (dp_node p) @ [i]) (consumers g)\<rparr>)"

definition AddCtor :: "dotCtor \<Rightarrow> dotParam list \<Rightarrow> dotResult list \<Rightarrow> dotGraph \<Rightarrow> dotGraph" where
  "AddCtor c paramList resultList g =
     (let (params, groupParams, g1) = addParams paramList g;
          (results, g2) = addResults resultList g1;
          i = length (ctorHeap g2);
          c' = c\<lparr>dc_params := params, dc_groupParams := groupParams, dc_results := results\<rparr>;
          g3 = addConsumers i paramList (g2\<lparr>ctorHeap := ctorHeap g2 @ [c']\<rparr>)
      in g3\<lparr>Ctors := Ctors g3 @ [i], ctorMap := AList.update (dc_id c) i (ctorMap g3)\<rparr>)"

subsection \<open>Marking failures\<close>

definition addRootCause :: "dotResult \<Rightarrow> dotGraph \<Rightarrow> dotGraph" where
  "addRootCause r = upd_Failed (\<lambda>f. f\<lparr>RootCauses := RootCauses f @ [r]\<rparr>)"

definition addTransitiveFailure :: "dotResult \<Rightarrow> dotGraph \<Rightarrow> dotGraph" where
  "addTransitiveFailure r = upd_Failed (\<lambda>f. f\<lparr>TransitiveFailures := TransitiveFailures f @ [r]\<rparr>)"

definition failNode :: "bool \<Rightarrow> dotResult \<Rightarrow> dotGraph \<Rightarrow> dotGraph" where
  "failNode isRootCause r = (if isRootCause then addRootCause r else addTransitiveFailure r)"

definition AddMissingNodes :: "dotResult list \<Rightarrow> dotGraph \<Rightarrow> dotGraph" where
  "AddMissingNodes results g =
     (let isRootCause = (RootCauses (Failed g) = []) in fold (failNode isRootCause) results g)"

definition markCtor :: "nat \<Rightarrow> ErrorType \<Rightarrow> dotGraph \<Rightarrow> dotGraph" where
  "markCtor i e = upd_dotCtor i (\<lambda>c. c\<lparr>dc_errorType := e\<rparr>)"

definition FailNodes :: "dotResult list \<Rightarrow> nat \<Rightarrow> dotGraph \<Rightarrow> dotGraph" where
  "FailNodes results cid g =
     (let isRootCause = (RootCauses (Failed g) = []);
          g1 = upd_Failed (\<lambda>f. f\<lparr>failedCtors := List.insert cid (failedCtors f)\<rparr>) g;
          g2 = fold (failNode isRootCause) results g1
      in case map_of (ctorMap g2) cid of
           None \<Rightarrow> g2
         | Some i \<Rightarrow> markCtor i (if isRootCause then rootCause else transitiveFailure) g2)"

definition FailGroupNodes :: "string \<Rightarrow> gotype \<Rightarrow> nat \<Rightarrow> dotGraph \<Rightarrow> dotGraph" where
  "FailGroupNodes name t cid g =
     (let isRootCause = (RootCauses (Failed g) = []);
          k = \<lparr>nk_t = t, nk_name = '''', nk_group = name\<rparr>;
          (gr, g1) = getGroup k g
      in case map_of (ctorMap g1) cid of
           None \<Rightarrow> g1
         | Some i \<Rightarrow>
             let g2 = upd_Failed (\<lambda>f. f\<lparr>failedCtors := List.insert cid (failedCtors f),
                        failedGroups := List.insert k (failedGroups f)\<rparr>) g1;
                 g3 = fold (failNode isRootCause)
                        (filter (\<lambda>r. nk_t (dr_node r) = t \<and> nk_group (dr_node r) = name)
                           (dc_results (ctorHeap g2 ! i))) g2;
                 e = (if isRootCause then rootCause else transitiveFailure)
             in markCtor i e (upd_dotGroup gr (\<lambda>x. x\<lparr>dg_errorType := e\<rparr>) g3))"

subsection \<open>Pruning\<close>

definition removeParam :: "nodeKey \<Rightarrow> dotCtor \<Rightarrow> dotCtor" where
  "removeParam k c = c\<lparr>dc_params := filter (\<lambda>p. k \<noteq> dp_node p) (dc_params c)\<rparr>"

definition removeResult :: "dotResult \<Rightarrow> dotGroup \<Rightarrow> dotGroup" where
  "removeResult r gr =
     gr\<lparr>dg_results := filter (\<lambda>rg. dr_groupIndex r \<noteq> dr_groupIndex rg) (dg_results gr)\<rparr>"

definition pruneCtorParams :: "dotCtor \<Rightarrow> dotGraph \<Rightarrow> dotGraph" where
  "pruneCtorParams c = fold (\<lambda>r g.
     fold (\<lambda>i. upd_dotCtor i (removeParam (dr_node r))) (al_get [] (consumers g) (dr_node r)) g)
       (dc_results c)"

definition pruneGroupResults :: "dotCtor \<Rightarrow> dotGraph \<Rightarrow> dotGraph" where
  "pruneGroupResults c = fold (\<lambda>r g.
     if nk_group (dr_node r) = '''' then g
     else (case map_of (groupMap g) (dr_node r) of
         None \<Rightarrow> g
       | Some i \<Rightarrow> upd_dotGroup i (removeResult r) g)) (dc_results c)"

fun pruneCtorsLoop :: "nat list \<Rightarrow> dotGraph \<Rightarrow> nat list \<times> dotGraph" where
  "pruneCtorsLoop [] g = ([], g)"
| "pruneCtorsLoop (i # is) g =
     (let c = ctorHeap g ! i
      in if dc_id c \<in> set (failedCtors (Failed g)) then
           let (pruned, g') = pruneCtorsLoop is g in (i # pruned, g')
         else
           let g1 = pruneGroupResults c (pruneCtorParams c g)
           in pruneCtorsLoop is (g1\<lparr>ctorMap := AList.delete (dc_id c) (ctorMap g1)\<rparr>))"

definition pruneCtors :: "dotGraph \<Rightarrow> dotGraph" where
  "pruneCtors g = (let (pruned, g') = pruneCtorsLoop (Ctors g) g in g'\<lparr>Ctors := pruned\<rparr>)"

fun pruneGroupsLoop :: "nat list \<Rightarrow> dotGraph \<Rightarrow> nat list \<times> dotGraph" where
  "pruneGroupsLoop [] g = ([], g)"
| "pruneGroupsLoop (i # is) g =
     (let k = groupNodeKey (groupHeap g ! i)
      in if k \<in> set (failedGroups (Failed g)) then
           let (pruned, g') = pruneGroupsLoop is g in (i # pruned, g')
         else pruneGroupsLoop is (g\<lparr>groupMap := AList.delete k (groupMap g)\<rparr>))"

definition pruneCtorGroupParams :: "dotGraph \<Rightarrow> dotGraph" where
  "pruneCtorGroupParams g =
     fold (\<lambda>i g. upd_dotCtor i (\<lambda>c. c\<lparr>dc_groupParams :=
         filter (\<lambda>gp. map_of (groupMap g) (groupNodeKey (groupHeap g ! gp)) \<noteq> None)
           (dc_groupParams c)\<rparr>) g) (Ctors g) g"

definition pruneGroups :: "dotGraph \<Rightarrow> dotGraph" where
  "pruneGroups g =
     (let (pruned, g') = pruneGroupsLoop (Groups g) g in pruneCtorGroupParams (g'\<lparr>Groups := pruned\<rparr>))"

definition PruneSuccess :: "dotGraph \<Rightarrow> dotGraph" where
  "PruneSuccess g = pruneGroups (pruneCtors g)"

end
