(* ===== verification/Info.thy ===== *)
theory Info
  imports Param Result Dot
begin

text \<open>
  Describing functions to the user: the parameters and results of a function as nodes of the DOT
  graph (\<open>DotParam\<close>, \<open>DotResult\<close> of src/param.go and src/result.go), the \<open>Input\<close> and \<open>Output\<close> lists
  of \<open>ProvideInfo\<close>, \<open>DecorateInfo\<close> and \<open>InvokeInfo\<close>, and the \<open>String\<close> methods.
\<close>

subsection \<open>Nodes of the DOT graph\<close>

fun DotParam :: "param \<Rightarrow> dotParam list" where
  "DotParam (paramSingle name optional t) =
     [\<lparr>dp_node = \<lparr>nk_t = t, nk_name = name, nk_group = ''''\<rparr>, dp_optional = optional\<rparr>]"
| "DotParam (paramObject t fs) = concat (map (\<lambda>f. DotParam (pofParam f)) fs)"
| "DotParam (paramGroupedSlice g t soft oid) =
     [\<lparr>dp_node = \<lparr>nk_t = t, nk_name = '''', nk_group = g\<rparr>, dp_optional = False\<rparr>]"

definition DotParamList :: "paramList \<Rightarrow> dotParam list" where
  "DotParamList pl = concat (map DotParam (Params pl))"

definition dotResultAt :: "gotype \<Rightarrow> string \<Rightarrow> string \<Rightarrow> dotResult" where
  "dotResultAt t name g = \<lparr>dr_node = \<lparr>nk_t = t, nk_name = name, nk_group = g\<rparr>, dr_groupIndex = 0\<rparr>"

fun DotResult :: "result \<Rightarrow> dotResult list" where
  "DotResult (resultSingle name t as) = map (\<lambda>u. dotResultAt u name '''') (t # as)"
| "DotResult (resultObject t fs) = concat (map (\<lambda>f. DotResult (rofResult f)) fs)"
| "DotResult (resultGrouped g t flatten as) = map (\<lambda>u. dotResultAt u '''' g) (t # as)"

definition DotResultList :: "resultList \<Rightarrow> dotResult list" where
  "DotResultList rl = concat (map DotResult (Results rl))"

subsection \<open>Inputs and outputs\<close>

record Input =
  in_t :: gotype
  in_optional :: bool
  in_name :: string
  in_group :: string

record Output =
  out_t :: gotype
  out_name :: string
  out_group :: string

text \<open>\<open>ProvideInfo\<close> and \<open>DecorateInfo\<close> have the same fields.\<close>

record ProvideInfo =
  pi_id :: nat
  pi_inputs :: "Input list"
  pi_outputs :: "Output list"

definition inputsOf :: "paramList \<Rightarrow> Input list" where
  "inputsOf pl = map (\<lambda>p. \<lparr>in_t = nk_t (dp_node p), in_optional = dp_optional p,
     in_name = nk_name (dp_node p), in_group = nk_group (dp_node p)\<rparr>) (DotParamList pl)"

definition outputsOf :: "resultList \<Rightarrow> Output list" where
  "outputsOf rl = map (\<lambda>r. \<lparr>out_t = nk_t (dr_node r), out_name = nk_name (dr_node r),
     out_group = nk_group (dr_node r)\<rparr>) (DotResultList rl)"

subsection \<open>Printing\<close>

text \<open>
  \<open>strconv.Quote\<close> (the verb \<open>%q\<close>) on ASCII text: printable characters as they are, the quote and the
  backslash escaped, the named control characters by their letter, the others as \<open>\x\<close> and two digits.
\<close>

definition hexDigit :: "nat \<Rightarrow> char" where
  "hexDigit n = ''0123456789abcdef'' ! n"

definition quoteChar :: "char \<Rightarrow> string" where
  "quoteChar c =
     (let n = of_char c :: nat
      in if n = 34 \<or> n = 92 then [CHR 0x5C, c]
         else if 32 \<le> n \<and> n < 127 then [c]
         else if n = 7 then [CHR 0x5C, CHR ''a'']
         else if n = 8 then [CHR 0x5C, CHR ''b'']
         else if n = 12 then [CHR 0x5C, CHR ''f'']
         else if n = 10 then [CHR 0x5C, CHR ''n'']
         else if n = 13 then [CHR 0x5C, CHR ''r'']
         else if n = 9 then [CHR 0x5C, CHR ''t'']
         else if n = 11 then [CHR 0x5C, CHR ''v'']
         else [CHR 0x5C, CHR ''x'', hexDigit (n div 16), hexDigit (n mod 16)])"

definition goQuote :: "string \<Rightarrow> string" where
  "goQuote s = CHR 0x22 # concat (map quoteChar s) @ [CHR 0x22]"

definition bracketed :: "string \<Rightarrow> string list \<Rightarrow> string" where
  "bracketed t toks = (if toks = [] then t else t @ ''['' @ joinWith '', '' toks @ '']'')"

definition key_String :: "key \<Rightarrow> string" where
  "key_String k =
     (if key_name k \<noteq> '''' then type_string (key_t k) @ ''[name='' @ goQuote (key_name k) @ '']''
      else if key_group k \<noteq> '''' then type_string (key_t k) @ ''[group='' @ goQuote (key_group k) @ '']''
      else type_string (key_t k))"

definition Input_String :: "Input \<Rightarrow> string" where
  "Input_String i = bracketed (type_string (in_t i))
     ((if in_optional i then [''optional''] else []) @
      (if in_name i \<noteq> '''' then [''name = '' @ goQuote (in_name i)] else []) @
      (if in_group i \<noteq> '''' then [''group = '' @ goQuote (in_group i)] else []))"

definition Output_String :: "Output \<Rightarrow> string" where
  "Output_String out = bracketed (type_string (out_t out))
     ((if out_name out \<noteq> '''' then [''name = '' @ goQuote (out_name out)] else []) @
      (if out_group out \<noteq> '''' then [''group = '' @ goQuote (out_group out)] else []))"

fun param_String :: "param \<Rightarrow> string" where
  "param_String (paramSingle name optional t) =
     bracketed (type_string t)
       ((if optional then [''optional''] else []) @
        (if name \<noteq> '''' then [''name='' @ goQuote name] else []))"
| "param_String (paramObject t fs) = joinWith '' '' (map (\<lambda>f. param_String (pofParam f)) fs)"
| "param_String (paramGroupedSlice g t soft oid) =
     type_string (elemT t) @ ''[group='' @ goQuote g @ '']''"

definition paramList_String :: "paramList \<Rightarrow> string" where
  "paramList_String pl = ''['' @ joinWith '' '' (map param_String (Params pl)) @ '']''"

end
