(* ===== verification/Provide.thy ===== *)
theory Provide
  imports Nodes Info
begin

text \<open>
  \<open>Provide\<close> (src/provide.go): the options and their validation, registering a constructor with a
  snapshot of the graph to fall back to, and the cycle check over all scopes below.
\<close>

subsection \<open>Options\<close>

record provideOptions =
  poName :: string
  poGroup :: string
  poInfo :: bool
  poAs :: "iface list"
  poLocation :: "Func option"
  poExported :: bool
  poCallback :: "nat option"
  poBeforeCallback :: "nat option"

datatype ProvideOption =
    provideNameOption string
  | provideGroupOption string
  | fillProvideInfoOption
  | provideAsOption "iface list"
  | provideLocationOption "Func option"
  | provideExportOption bool
  | withProviderCallbackOption nat
  | withProviderBeforeCallbackOption nat

definition LocationForPC :: "runtime_func option \<Rightarrow> ProvideOption" where
  "LocationForPC pc = provideLocationOption (InspectFuncPC pc)"

fun applyProvideOption :: "ProvideOption \<Rightarrow> provideOptions \<Rightarrow> provideOptions" where
  "applyProvideOption (provideNameOption n) o' = o'\<lparr>poName := n\<rparr>"
| "applyProvideOption (provideGroupOption g) o' = o'\<lparr>poGroup := g\<rparr>"
| "applyProvideOption fillProvideInfoOption o' = o'\<lparr>poInfo := True\<rparr>"
| "applyProvideOption (provideAsOption as) o' = o'\<lparr>poAs := poAs o' @ as\<rparr>"
| "applyProvideOption (provideLocationOption l) o' = o'\<lparr>poLocation := l\<rparr>"
| "applyProvideOption (provideExportOption b) o' = o'\<lparr>poExported := b\<rparr>"
| "applyProvideOption (withProviderCallbackOption c) o' = o'\<lparr>poCallback := Some c\<rparr>"
| "applyProvideOption (withProviderBeforeCallbackOption c) o' = o'\<lparr>poBeforeCallback := Some c\<rparr>"

definition noProvideOptions :: provideOptions where
  "noProvideOptions = \<lparr>poName = '''', poGroup = '''', poInfo = False, poAs = [], poLocation = None,
     poExported = False, poCallback = None, poBeforeCallback = None\<rparr>"

fun validateAs :: "iface list \<Rightarrow> goerr option" where
  "validateAs [] = None"
| "validateAs (i # is) =
     (case TypeOf i of
        None \<Rightarrow> Some (newErrInvalidInput MsgAsNil None)
      | Some t \<Rightarrow>
          if Kind t \<noteq> KPtr then Some (newErrInvalidInput (MsgAsNotPtr t) None)
          else if Kind (elemT t) \<noteq> KInterface then
            Some (newErrInvalidInput (MsgAsNotInterface (elemT t)) None)
          else validateAs is)"

definition Validate :: "provideOptions \<Rightarrow> goerr option" where
  "Validate o' =
     (if poGroup o' \<noteq> '''' \<and> poName o' \<noteq> '''' then
        Some (newErrInvalidInput (MsgNameWithGroup (poName o') (poGroup o')) None)
      else if CHR 0x60 \<in> set (poName o') then
        Some (newErrInvalidInput (MsgNameBackquote (poName o')) None)
      else if CHR 0x60 \<in> set (poGroup o') then
        Some (newErrInvalidInput (MsgGroupBackquote (poGroup o')) None)
      else validateAs (poAs o'))"

subsection \<open>Registering a constructor\<close>

definition snapshotAll :: "nat list \<Rightarrow> store \<Rightarrow> store" where
  "snapshotAll = fold (\<lambda>sc. upd_scope sc (\<lambda>x. x\<lparr>gh := Snapshot (gh x)\<rparr>))"

definition rollbackAll :: "nat list \<Rightarrow> store \<Rightarrow> store" where
  "rollbackAll = fold (\<lambda>sc. upd_scope sc (\<lambda>x. x\<lparr>gh := Rollback (gh x)\<rparr>))"

definition setProviders :: "nat \<Rightarrow> key \<Rightarrow> nat list \<Rightarrow> store \<Rightarrow> store" where
  "setProviders s k ns = upd_scope s (\<lambda>x. x\<lparr>providers := AList.update k ns (providers x)\<rparr>)"

definition addProvider :: "nat \<Rightarrow> nat \<Rightarrow> key \<Rightarrow> store \<Rightarrow> store" where
  "addProvider s n k \<sigma> = setProviders s k (getProviders \<sigma> s k @ [n]) \<sigma>"

definition setVerified :: "nat \<Rightarrow> bool \<Rightarrow> store \<Rightarrow> store" where
  "setVerified s b = upd_scope s (\<lambda>x. x\<lparr>isVerifiedAcyclic := b\<rparr>)"

text \<open>
  One round of the cycle check. The loop variable of the code is named \<open>s\<close> and hides the scope that
  the constructor is provided to: the old providers are restored in the scope being checked.
\<close>

definition verifyScope :: "(key \<times> nat list) list \<Rightarrow> nat \<Rightarrow> (store, unit) eff" where
  "verifyScope oldProviders s \<sigma> =
     (let \<sigma>1 = setVerified s False \<sigma>
      in if deferAcyclicVerification (scope_of \<sigma>1 s) then (Ret (), \<sigma>1)
         else case IsAcyclic (scope_graph \<sigma>1 s) of
             None \<Rightarrow> (Panicked (VRuntime ''index out of range''), \<sigma>1)
           | Some (True, _) \<Rightarrow> (Ret (), setVerified s True \<sigma>1)
           | Some (False, cycle) \<Rightarrow>
               let \<sigma>2 = fold (\<lambda>(k, ops). setProviders s k ops) oldProviders \<sigma>1
               in (Throw (newErrInvalidInput MsgIntroducesCycle (Some (cycleDetectedError \<sigma>2 s cycle))), \<sigma>2))"

definition provideInfo :: "store \<Rightarrow> nat \<Rightarrow> ProvideInfo" where
  "provideInfo \<sigma> n =
     (let N = ctor_of \<sigma> n
      in \<lparr>pi_id = cn_id N, pi_inputs = inputsOf (cn_paramList N), pi_outputs = outputsOf (cn_resultList N)\<rparr>)"

definition registerCtor ::
  "nat \<Rightarrow> nat list \<Rightarrow> bool \<Rightarrow> nat \<Rightarrow> key list \<Rightarrow> (store, ProvideInfo option) eff" where
  "registerCtor s allScopes info n keys \<sigma> =
     (let oldProviders = map (\<lambda>k. (k, getProviders \<sigma> s k)) keys;
          \<sigma>1 = fold (addProvider s n) keys \<sigma>
      in bindS (forS (verifyScope oldProviders) allScopes)
           (\<lambda>_ \<sigma>2. (Ret (if info then Some (provideInfo \<sigma>2 n) else None),
                    upd_scope s (\<lambda>x. x\<lparr>nodes := nodes x @ [n]\<rparr>) \<sigma>2)) \<sigma>1)"

definition provideBody ::
  "gofn \<Rightarrow> provideOptions \<Rightarrow> nat \<Rightarrow> nat \<Rightarrow> nat list \<Rightarrow> (store, ProvideInfo option) eff" where
  "provideBody ctor opts s origScope allScopes =
     bindS (newConstructorNode ctor s origScope
              \<lparr>coResultName = poName opts, coResultGroup = poGroup opts, coResultAs = poAs opts,
               coLocation = poLocation opts, coCallback = poCallback opts,
               coBeforeCallback = poBeforeCallback opts\<rparr>) (\<lambda>n.
     bindS (\<lambda>\<sigma>. (findAndValidateResults \<sigma> s (cn_resultList (ctor_of \<sigma> n)), \<sigma>)) (\<lambda>keys.
       if keys = [] then throwS (newErrInvalidInput (MsgNoResults (fn_type ctor)) None)
       else registerCtor s allScopes (poInfo opts) n keys))"

text \<open>The deferred rollback runs when \<open>provide\<close> returns an error; when a panic passes, \<open>err\<close> is nil.\<close>

definition provide :: "gofn \<Rightarrow> provideOptions \<Rightarrow> nat \<Rightarrow> (store, ProvideInfo option) eff" where
  "provide ctor opts origScope \<sigma> =
     (let s = (if poExported opts then rootScope \<sigma> origScope else origScope);
          allScopes = appendSubscopes \<sigma> s []
      in case provideBody ctor opts s origScope allScopes (snapshotAll allScopes \<sigma>) of
           (Throw e, \<sigma>') \<Rightarrow> (Throw e, rollbackAll allScopes \<sigma>')
         | r \<Rightarrow> r)"

definition Provide :: "nat \<Rightarrow> iface \<Rightarrow> ProvideOption list \<Rightarrow> (store, ProvideInfo option) eff" where
  "Provide s constructor opts =
     (case constructor of
        INil \<Rightarrow> throwS (newErrInvalidInput MsgProvideNil None)
      | IVal t \<Rightarrow> throwS (newErrInvalidInput (MsgProvideNonFunc t) None)
      | IFunc f \<Rightarrow>
          if Kind (fn_type f) \<noteq> KFunc then
            throwS (newErrInvalidInput (MsgProvideNonFunc (fn_type f)) None)
          else
            let options = fold applyProvideOption opts noProvideOptions
            in case Validate options of
                 Some e \<Rightarrow> throwS e
               | None \<Rightarrow>
                   wrapS (\<lambda>e. EProvide
                       (case poLocation options of None \<Rightarrow> InspectFunc f | Some l \<Rightarrow> l) e)
                     (provide f options s))"

end
