(* ===== verification/Decorate.thy ===== *)
theory Decorate
  imports Nodes Info
begin

text \<open>
  \<open>Decorate\<close> (src/decorate.go): the options, and registering a decorator for the keys of its results.
\<close>

record decorateOptions =
  doInfo :: bool
  doCallback :: "nat option"
  doBeforeCallback :: "nat option"

datatype DecorateOption =
    fillDecorateInfoOption
  | withDecoratorCallbackOption nat
  | withDecoratorBeforeCallbackOption nat

fun applyDecorateOption :: "DecorateOption \<Rightarrow> decorateOptions \<Rightarrow> decorateOptions" where
  "applyDecorateOption fillDecorateInfoOption o' = o'\<lparr>doInfo := True\<rparr>"
| "applyDecorateOption (withDecoratorCallbackOption c) o' = o'\<lparr>doCallback := Some c\<rparr>"
| "applyDecorateOption (withDecoratorBeforeCallbackOption c) o' = o'\<lparr>doBeforeCallback := Some c\<rparr>"

definition noDecorateOptions :: decorateOptions where
  "noDecorateOptions = \<lparr>doInfo = False, doCallback = None, doBeforeCallback = None\<rparr>"

definition setDecorator :: "nat \<Rightarrow> key \<Rightarrow> nat \<Rightarrow> store \<Rightarrow> store" where
  "setDecorator s k d = upd_scope s (\<lambda>x. x\<lparr>decorators := AList.update k d (decorators x)\<rparr>)"

definition decorateKey :: "nat \<Rightarrow> nat \<Rightarrow> key \<Rightarrow> (store, unit) eff" where
  "decorateKey s d k \<sigma> =
     (if getDecorators \<sigma> s k \<noteq> None then
        (Throw (newErrInvalidInput (MsgAlreadyDecorated (dn_dtype (dcor_of \<sigma> d)) k) None), \<sigma>)
      else (Ret (), setDecorator s k d \<sigma>))"

definition decorateInfo :: "store \<Rightarrow> nat \<Rightarrow> ProvideInfo" where
  "decorateInfo \<sigma> d =
     (let N = dcor_of \<sigma> d
      in \<lparr>pi_id = dn_id N, pi_inputs = inputsOf (dn_params N), pi_outputs = outputsOf (dn_results N)\<rparr>)"

text \<open>
  \<open>Decorate\<close> does not check its argument: \<open>reflect.ValueOf(nil).Type()\<close>, and \<open>Pointer\<close> on a value
  that is neither a function nor a pointer, panic. The model stops with a panic on every argument
  that is not a function; the code reaches \<open>NumIn\<close> on a pointer argument, which panics too.
\<close>

definition Decorate :: "nat \<Rightarrow> iface \<Rightarrow> DecorateOption list \<Rightarrow> (store, ProvideInfo option) eff" where
  "Decorate s decorator opts =
     (case decorator of
        IFunc f \<Rightarrow>
          let options = fold applyDecorateOption opts noDecorateOptions
          in bindS (newDecoratorNode f s (doCallback options) (doBeforeCallback options)) (\<lambda>d.
             bindS (\<lambda>\<sigma>. (findResultKeys (dn_results (dcor_of \<sigma> d)), \<sigma>)) (\<lambda>keys.
             bindS (forS (decorateKey s d) keys) (\<lambda>_ \<sigma>.
               (Ret (if doInfo options then Some (decorateInfo \<sigma> d) else None), \<sigma>))))
      | _ \<Rightarrow> panicS (VRuntime ''reflect: call of Decorate on a value that is not a function''))"

end
