(* ===== verification/Invoke.thy ===== *)
theory Invoke
  imports Nodes Info
begin

text \<open>
  \<open>Invoke\<close> (src/invoke.go): running a function on arguments built by the container.
\<close>

text \<open>The part under the deferred \<open>recover\<close>: running the function and reading its last result.\<close>

definition lastError :: "gotype list \<Rightarrow> gval list \<Rightarrow> goerr option" where
  "lastError ts returned =
     (if returned = [] then None
      else if isError (last ts) then asError (last returned) else None)"

definition invokeRun :: "env \<Rightarrow> nat \<Rightarrow> gofn \<Rightarrow> gval list \<Rightarrow> (store, unit) eff" where
  "invokeRun E s f args \<sigma> =
     recoverS (recoverFromPanics (scope_of \<sigma> s)) (InspectFunc f)
       (bindS (invoke_fn E (invokerFn (scope_of \<sigma> s)) ByInvoke f args)
          (\<lambda>returned. case lastError (outs (fn_type f)) returned of
               Some e \<Rightarrow> throwS e
             | None \<Rightarrow> retS ())) \<sigma>"

text \<open>The check that the graph of the scope has no cycle, unless \<open>Provide\<close> has made it.\<close>

definition verifyAcyclic :: "nat \<Rightarrow> (store, unit) eff" where
  "verifyAcyclic s \<sigma> =
     (if isVerifiedAcyclic (scope_of \<sigma> s) then (Ret (), \<sigma>)
      else case IsAcyclic (scope_graph \<sigma> s) of
          None \<Rightarrow> (Panicked (VRuntime ''index out of range''), \<sigma>)
        | Some (False, cycle) \<Rightarrow>
            (Throw (newErrInvalidInput MsgCycleInGraph (Some (cycleDetectedError \<sigma> s cycle))), \<sigma>)
        | Some (True, _) \<Rightarrow> (Ret (), upd_scope s (\<lambda>x. x\<lparr>isVerifiedAcyclic := True\<rparr>) \<sigma>))"

definition invokeFn :: "env \<Rightarrow> nat \<Rightarrow> nat \<Rightarrow> gofn \<Rightarrow> (store, unit) eff" where
  "invokeFn E fuel s f =
     bindS (newParamList (fn_type f) s) (\<lambda>pl \<sigma>.
       case shallowCheckDependencies \<sigma> s pl of
         Some err \<Rightarrow> (Throw (EMissingDependencies (InspectFunc f) err), \<sigma>)
       | None \<Rightarrow>
           bindS (verifyAcyclic s) (\<lambda>_.
           bindS (wrapS (EArgumentsFailed (InspectFunc f)) (BuildList E (callC E fuel) (callD E fuel) pl s))
             (invokeRun E s f)) \<sigma>)"

definition Invoke :: "env \<Rightarrow> nat \<Rightarrow> nat \<Rightarrow> iface \<Rightarrow> (store, unit) eff" where
  "Invoke E fuel s function =
     (case function of
        INil \<Rightarrow> throwS (newErrInvalidInput MsgInvokeNil None)
      | IVal t \<Rightarrow> throwS (newErrInvalidInput (MsgInvokeNonFunc t) None)
      | IFunc f \<Rightarrow>
          if Kind (fn_type f) \<noteq> KFunc then
            throwS (newErrInvalidInput (MsgInvokeNonFunc (fn_type f)) None)
          else invokeFn E fuel s f)"

end
