(* ===== verification/Examples.thy ===== *)
theory Examples
  imports Store
begin

text \<open>
  Go types and functions that the concrete instances of the properties use: the basic types, structs
  that embed \<open>dig.In\<close>, functions, and an environment in which every function returns values of
  its result types.
\<close>

definition basicT :: "string \<Rightarrow> gotype" where
  "basicT name = GoType name [] [] SBasic"

abbreviation intT :: gotype where "intT \<equiv> basicT ''int''"
abbreviation stringT :: gotype where "stringT \<equiv> basicT ''string''"
abbreviation boolT :: gotype where "boolT \<equiv> basicT ''bool''"

definition funcT :: "gotype list \<Rightarrow> gotype list \<Rightarrow> gotype" where
  "funcT is os = GoType '''' [] [] (SFunc is os False)"

definition fnOf :: "nat \<Rightarrow> gotype list \<Rightarrow> gotype list \<Rightarrow> gofn" where
  "fnOf i is os = \<lparr>fn_id = i, fn_ptr = i, fn_type = funcT is os,
     fn_rt = \<lparr>rtName = ''main.f'', rtFile = ''main.go'', rtLine = int i\<rparr>\<rparr>"

end
