(* ===== verification/Registering.thy ===== *)
theory Registering
  imports Frames Keys Provide Decorate Invoke Examples
begin

text \<open>
  What registering a function changes (src/provide.go, src/decorate.go, src/invoke.go). Reading the
  parameters of a function adds graph nodes to the scope and the scopes below it and nothing else
  (the relation \<open>registers\<close>); on that rest the properties of \<open>Provide\<close>: when it fails, the graph of
  every scope is as it was, when it succeeds, the constructor is registered for exactly its keys
  and the graphs of the scopes below have no cycle.
\<close>

subsection \<open>New containers\<close>

lemma skel_applyOption: "skel (applyOption opt \<sigma>) = skel \<sigma>"
  by (cases opt) (simp_all add: skel_upd_scope)

lemma wf_tree_New: "wf_tree (New opts)"
proof -
  have "skel (New opts) = skel empty_store"
    unfolding New_def by (induction opts rule: rev_induct) (simp_all add: skel_applyOption)
  moreover have "wf_tree empty_store"
    by (simp add: wf_tree_def empty_store_def newScope_def)
  ultimately show ?thesis using wf_tree_skel [of empty_store "New opts"] by simp
qed

subsection \<open>Reading parameters\<close>

definition no_gh :: "scope \<Rightarrow> scope" where
  "no_gh sc = sc\<lparr>gh := newGraphHolder\<rparr>"

definition sans_graph :: "store \<Rightarrow> store" where
  "sans_graph \<sigma> = \<sigma>\<lparr>scopes := map no_gh (scopes \<sigma>), orderMaps := []\<rparr>"

definition gh_grows :: "nat set \<Rightarrow> store \<Rightarrow> store \<Rightarrow> bool" where
  "gh_grows S \<sigma> \<sigma>' \<longleftrightarrow>
     (\<forall>s < length (scopes \<sigma>). \<exists>ws.
        gh (scope_of \<sigma>' s) = (gh (scope_of \<sigma> s))\<lparr>gh_nodes := gh_nodes (gh (scope_of \<sigma> s)) @ ws\<rparr> \<and>
        (s \<notin> S \<longrightarrow> ws = []))"

definition registers :: "nat \<Rightarrow> store \<Rightarrow> store \<Rightarrow> bool" where
  "registers c \<sigma> \<sigma>' \<longleftrightarrow>
     (wf_tree \<sigma> \<and> c < length (scopes \<sigma>) \<longrightarrow>
      sans_graph \<sigma>' = sans_graph \<sigma> \<and> gh_grows (set (subscopes \<sigma> c)) \<sigma> \<sigma>')"

lemma skel_sans_graph: "skel (sans_graph \<sigma>) = skel \<sigma>"
  by (simp add: skel_def sans_graph_def no_gh_def)

lemma skel_cong_sans_graph: "sans_graph \<sigma>' = sans_graph \<sigma> \<Longrightarrow> skel \<sigma>' = skel \<sigma>"
  by (metis skel_sans_graph)

lemma sans_graph_scopes:
  assumes "sans_graph \<sigma>' = sans_graph \<sigma>"
  shows "length (scopes \<sigma>') = length (scopes \<sigma>)"
    and "s < length (scopes \<sigma>) \<Longrightarrow> no_gh (scope_of \<sigma>' s) = no_gh (scope_of \<sigma> s)"
    and "ctors \<sigma>' = ctors \<sigma>" and "dcors \<sigma>' = dcors \<sigma>" and "log \<sigma>' = log \<sigma>" and "ticks \<sigma>' = ticks \<sigma>"
proof -
  have sc: "map no_gh (scopes \<sigma>') = map no_gh (scopes \<sigma>)"
    using arg_cong [OF assms, of scopes] by (simp add: sans_graph_def)
  then show len: "length (scopes \<sigma>') = length (scopes \<sigma>)" by (rule map_eq_imp_length_eq)
  show "no_gh (scope_of \<sigma>' s) = no_gh (scope_of \<sigma> s)" if "s < length (scopes \<sigma>)"
    using arg_cong [OF sc, of "\<lambda>l. l ! s"] that len by simp
  show "ctors \<sigma>' = ctors \<sigma>" using arg_cong [OF assms, of ctors] by (simp add: sans_graph_def)
  show "dcors \<sigma>' = dcors \<sigma>" using arg_cong [OF assms, of dcors] by (simp add: sans_graph_def)
  show "log \<sigma>' = log \<sigma>" using arg_cong [OF assms, of log] by (simp add: sans_graph_def)
  show "ticks \<sigma>' = ticks \<sigma>" using arg_cong [OF assms, of ticks] by (simp add: sans_graph_def)
qed

lemma gh_grows_refl: "gh_grows S \<sigma> \<sigma>"
  by (auto simp: gh_grows_def intro: exI [of _ "[]"])

lemma gh_grows_trans:
  assumes 1: "gh_grows S \<sigma>1 \<sigma>2" and 2: "gh_grows S \<sigma>2 \<sigma>3" and len: "length (scopes \<sigma>2) = length (scopes \<sigma>1)"
  shows "gh_grows S \<sigma>1 \<sigma>3"
  unfolding gh_grows_def
proof (intro allI impI)
  fix s assume s: "s < length (scopes \<sigma>1)"
  obtain ws where ws: "gh (scope_of \<sigma>2 s) = (gh (scope_of \<sigma>1 s))\<lparr>gh_nodes := gh_nodes (gh (scope_of \<sigma>1 s)) @ ws\<rparr>"
    "s \<notin> S \<longrightarrow> ws = []" using 1 s by (auto simp: gh_grows_def)
  obtain vs where vs: "gh (scope_of \<sigma>3 s) = (gh (scope_of \<sigma>2 s))\<lparr>gh_nodes := gh_nodes (gh (scope_of \<sigma>2 s)) @ vs\<rparr>"
    "s \<notin> S \<longrightarrow> vs = []" using 2 s len by (auto simp: gh_grows_def)
  show "\<exists>ws. gh (scope_of \<sigma>3 s) = (gh (scope_of \<sigma>1 s))\<lparr>gh_nodes := gh_nodes (gh (scope_of \<sigma>1 s)) @ ws\<rparr> \<and>
      (s \<notin> S \<longrightarrow> ws = [])"
    using ws vs by (intro exI [of _ "ws @ vs"]) simp
qed

interpretation registers: state_relation "registers c" for c
proof
  show "registers c \<sigma> \<sigma>" for c \<sigma> by (simp add: registers_def gh_grows_refl)
next
  fix c \<sigma>1 \<sigma>2 \<sigma>3 assume 1: "registers c \<sigma>1 \<sigma>2" and 2: "registers c \<sigma>2 \<sigma>3"
  show "registers c \<sigma>1 \<sigma>3"
    unfolding registers_def
  proof
    assume wf: "wf_tree \<sigma>1 \<and> c < length (scopes \<sigma>1)"
    with 1 have same: "sans_graph \<sigma>2 = sans_graph \<sigma>1" and grows: "gh_grows (set (subscopes \<sigma>1 c)) \<sigma>1 \<sigma>2"
      by (simp_all add: registers_def)
    note skel = skel_cong_sans_graph [OF same, symmetric]
    have "wf_tree \<sigma>2" "length (scopes \<sigma>2) = length (scopes \<sigma>1)" "subscopes \<sigma>2 c = subscopes \<sigma>1 c"
      using wf wf_tree_skel [OF skel] skel_length [OF skel] subscopes_skel [OF skel] by simp_all
    with 2 wf same grows gh_grows_trans [OF grows]
    show "sans_graph \<sigma>3 = sans_graph \<sigma>1 \<and> gh_grows (set (subscopes \<sigma>1 c)) \<sigma>1 \<sigma>3"
      by (simp add: registers_def)
  qed
qed

lemma sans_graph_orderMaps [simp]: "sans_graph (\<sigma>\<lparr>orderMaps := ms\<rparr>) = sans_graph \<sigma>"
  by (simp add: sans_graph_def)

lemma sans_graph_pushNodes [simp]: "sans_graph (pushNodes w ts \<sigma>) = sans_graph \<sigma>"
proof -
  have "map no_gh (scopes (pushNodes w ts \<sigma>)) = map no_gh (scopes \<sigma>)"
    by (rule nth_equalityI) (auto simp: pushNodes_def pushNode_def no_gh_def)
  then show ?thesis by (simp add: sans_graph_def pushNodes_def)
qed

lemma gh_grows_pushNodes: "ts \<subseteq> S \<Longrightarrow> gh_grows S \<sigma> (pushNodes w ts \<sigma>)"
  by (auto simp: gh_grows_def scope_of_pushNodes pushNode_def intro: exI [of _ "[]"])

lemma gh_grows_orderMaps [simp]: "gh_grows S \<sigma> (\<sigma>'\<lparr>orderMaps := ms\<rparr>) = gh_grows S \<sigma> \<sigma>'"
  by (simp add: gh_grows_def)

lemma registers_newGraphNode:
  "newGraphNode w c (\<sigma>, ords) = (\<sigma>', ords') \<Longrightarrow> registers c \<sigma> (\<sigma>'\<lparr>orderMaps := ms\<rparr>)"
  by (auto simp: registers_def newGraphNode_eq intro: gh_grows_pushNodes)

lemma keeps_newParamGroupedSlice: "keeps (registers c) (newParamGroupedSlice f c)"
proof -
  have "keeps (registers c) (\<lambda>\<sigma>.
            let oid = length (orderMaps \<sigma>);
                (\<sigma>1, ords) = newGraphNode w c (\<sigma>, [])
            in (Ret (paramGroupedSlice a b d oid), \<sigma>1\<lparr>orderMaps := orderMaps \<sigma>1 @ [ords]\<rparr>))" for w a b d
    by (rule keepsI) (auto simp: Let_def split: prod.split intro: registers_newGraphNode)
  then show ?thesis
    unfolding newParamGroupedSlice_def Let_def
    by (intro registers.keeps_intros)
qed

lemma keeps_newParam:
  "keeps (registers c) (newParam t c)"
  "keeps (registers c) (newParamObjectFields t ign i fs c)"
  "keeps (registers c) (newParamObjectField i f c)"
proof (induction t c and t ign i fs c and i f c rule: newParam_newParamObjectFields_newParamObjectField.induct)
  case (1 t c)
  then show ?case
    by (subst newParam.simps)
      (auto split: option.split prod.split intro!: registers.keeps_intros)
next
  case (2 t ign i c)
  then show ?case unfolding newParamObjectFields.simps by (rule registers.keeps_retS)
next
  case (3 t ign i f fs c)
  then show ?case
    by (subst newParamObjectFields.simps) (auto intro!: registers.keeps_intros)
next
  case (4 i f c)
  then show ?case
    by (subst newParamObjectField.simps) (auto intro!: registers.keeps_intros keeps_newParamGroupedSlice)
qed

lemma keeps_newParamList: "keeps (registers c) (newParamList ctype c)"
  unfolding newParamList_def Let_def
  by (intro registers.keeps_intros) (auto intro!: registers.keeps_intros keeps_newParam)

subsection \<open>Snapshot and rollback over scopes\<close>

lemma scope_of_fold_upd:
  assumes "\<And>x. f (f x) = f x"
  shows "u < length (scopes \<sigma>) \<Longrightarrow>
    scope_of (fold (\<lambda>t. upd_scope t f) ts \<sigma>) u = (if u \<in> set ts then f (scope_of \<sigma> u) else scope_of \<sigma> u)"
proof (induction ts arbitrary: \<sigma>)
  case (Cons t ts)
  then show ?case
    using Cons.IH [of "upd_scope t f \<sigma>"] assms by (cases "u = t") (auto simp: upd_scope_def)
qed simp

lemma fold_upd_scope_frame:
  "length (scopes (fold (\<lambda>t. upd_scope t f) ts \<sigma>)) = length (scopes \<sigma>)"
  "ctors (fold (\<lambda>t. upd_scope t f) ts \<sigma>) = ctors \<sigma>"
  "dcors (fold (\<lambda>t. upd_scope t f) ts \<sigma>) = dcors \<sigma>"
  "orderMaps (fold (\<lambda>t. upd_scope t f) ts \<sigma>) = orderMaps \<sigma>"
  "log (fold (\<lambda>t. upd_scope t f) ts \<sigma>) = log \<sigma>"
  "ticks (fold (\<lambda>t. upd_scope t f) ts \<sigma>) = ticks \<sigma>"
  by (induction ts arbitrary: \<sigma>) (simp_all add: upd_scope_def)

lemma scope_of_snapshotAll:
  "u < length (scopes \<sigma>) \<Longrightarrow> scope_of (snapshotAll ts \<sigma>) u =
     (if u \<in> set ts then (scope_of \<sigma> u)\<lparr>gh := Snapshot (gh (scope_of \<sigma> u))\<rparr> else scope_of \<sigma> u)"
  unfolding snapshotAll_def by (subst scope_of_fold_upd) (simp_all add: Snapshot_def)

lemma scope_of_rollbackAll:
  "u < length (scopes \<sigma>) \<Longrightarrow> scope_of (rollbackAll ts \<sigma>) u =
     (if u \<in> set ts then (scope_of \<sigma> u)\<lparr>gh := Rollback (gh (scope_of \<sigma> u))\<rparr> else scope_of \<sigma> u)"
  unfolding rollbackAll_def by (subst scope_of_fold_upd) (simp_all add: Rollback_def)

lemmas snapshotAll_frame [simp] = fold_upd_scope_frame [where f = "\<lambda>x. x\<lparr>gh := Snapshot (gh x)\<rparr>", folded snapshotAll_def]
lemmas rollbackAll_frame [simp] = fold_upd_scope_frame [where f = "\<lambda>x. x\<lparr>gh := Rollback (gh x)\<rparr>", folded rollbackAll_def]

subsection \<open>The steps of provide\<close>

text \<open>
  What \<open>provide\<close> may change before it succeeds: graph nodes in the scopes below, providers, the flag
  \<open>isVerifiedAcyclic\<close>, and new constructor nodes.
\<close>

definition no_provide :: "scope \<Rightarrow> scope" where
  "no_provide sc = sc\<lparr>gh := newGraphHolder, providers := [], isVerifiedAcyclic := False\<rparr>"

definition sans_provide :: "store \<Rightarrow> store" where
  "sans_provide \<sigma> = \<sigma>\<lparr>scopes := map no_provide (scopes \<sigma>), ctors := [], orderMaps := []\<rparr>"

definition provides :: "nat \<Rightarrow> store \<Rightarrow> store \<Rightarrow> bool" where
  "provides c \<sigma> \<sigma>' \<longleftrightarrow>
     (wf_tree \<sigma> \<and> c < length (scopes \<sigma>) \<longrightarrow>
      sans_provide \<sigma>' = sans_provide \<sigma> \<and> gh_grows (set (subscopes \<sigma> c)) \<sigma> \<sigma>' \<and>
      (\<exists>cs. ctors \<sigma>' = ctors \<sigma> @ cs))"

lemma skel_sans_provide: "skel (sans_provide \<sigma>) = skel \<sigma>"
  by (simp add: skel_def sans_provide_def no_provide_def)

lemma skel_cong_sans_provide: "sans_provide \<sigma>' = sans_provide \<sigma> \<Longrightarrow> skel \<sigma>' = skel \<sigma>"
  by (metis skel_sans_provide)

lemma sans_provide_scopes:
  assumes "sans_provide \<sigma>' = sans_provide \<sigma>"
  shows "length (scopes \<sigma>') = length (scopes \<sigma>)"
    and "s < length (scopes \<sigma>) \<Longrightarrow> no_provide (scope_of \<sigma>' s) = no_provide (scope_of \<sigma> s)"
    and "dcors \<sigma>' = dcors \<sigma>" and "log \<sigma>' = log \<sigma>" and "ticks \<sigma>' = ticks \<sigma>"
proof -
  have sc: "map no_provide (scopes \<sigma>') = map no_provide (scopes \<sigma>)"
    using arg_cong [OF assms, of scopes] by (simp add: sans_provide_def)
  then show len: "length (scopes \<sigma>') = length (scopes \<sigma>)" by (rule map_eq_imp_length_eq)
  show "no_provide (scope_of \<sigma>' s) = no_provide (scope_of \<sigma> s)" if "s < length (scopes \<sigma>)"
    using arg_cong [OF sc, of "\<lambda>l. l ! s"] that len by simp
  show "dcors \<sigma>' = dcors \<sigma>" using arg_cong [OF assms, of dcors] by (simp add: sans_provide_def)
  show "log \<sigma>' = log \<sigma>" using arg_cong [OF assms, of log] by (simp add: sans_provide_def)
  show "ticks \<sigma>' = ticks \<sigma>" using arg_cong [OF assms, of ticks] by (simp add: sans_provide_def)
qed

lemma provides_tree:
  assumes "provides c \<sigma> \<sigma>'" and "wf_tree \<sigma>" and "c < length (scopes \<sigma>)"
  shows "wf_tree \<sigma>'" and "length (scopes \<sigma>') = length (scopes \<sigma>)" and "subscopes \<sigma>' c = subscopes \<sigma> c"
proof -
  have "sans_provide \<sigma>' = sans_provide \<sigma>" using assms by (simp add: provides_def)
  note skel = skel_cong_sans_provide [OF this, symmetric]
  show "wf_tree \<sigma>'" and "length (scopes \<sigma>') = length (scopes \<sigma>)" and "subscopes \<sigma>' c = subscopes \<sigma> c"
    using assms wf_tree_skel [OF skel] skel_length [OF skel] subscopes_skel [OF skel] by simp_all
qed

interpretation provides: state_relation "provides c" for c
proof
  show "provides c \<sigma> \<sigma>" for c \<sigma> by (simp add: provides_def gh_grows_refl)
next
  fix c \<sigma>1 \<sigma>2 \<sigma>3 assume 1: "provides c \<sigma>1 \<sigma>2" and 2: "provides c \<sigma>2 \<sigma>3"
  show "provides c \<sigma>1 \<sigma>3"
    unfolding provides_def
  proof
    assume wf: "wf_tree \<sigma>1 \<and> c < length (scopes \<sigma>1)"
    note tree = provides_tree [OF 1 conjunct1 [OF wf] conjunct2 [OF wf]]
    from wf 1 have 12: "sans_provide \<sigma>2 = sans_provide \<sigma>1" "gh_grows (set (subscopes \<sigma>1 c)) \<sigma>1 \<sigma>2"
      "\<exists>cs. ctors \<sigma>2 = ctors \<sigma>1 @ cs" by (simp_all add: provides_def)
    from wf tree 2 have 23: "sans_provide \<sigma>3 = sans_provide \<sigma>2" "gh_grows (set (subscopes \<sigma>1 c)) \<sigma>2 \<sigma>3"
      "\<exists>cs. ctors \<sigma>3 = ctors \<sigma>2 @ cs" by (simp_all add: provides_def)
    from 12 23 gh_grows_trans [OF 12(2) 23(2) tree(2)]
    show "sans_provide \<sigma>3 = sans_provide \<sigma>1 \<and> gh_grows (set (subscopes \<sigma>1 c)) \<sigma>1 \<sigma>3 \<and>
        (\<exists>cs. ctors \<sigma>3 = ctors \<sigma>1 @ cs)" by auto
  qed
qed

lemma no_provide_no_gh: "no_provide sc = no_provide (no_gh sc)"
  by (simp add: no_provide_def no_gh_def)

lemma registers_provides: "registers c \<sigma> \<sigma>' \<Longrightarrow> provides c \<sigma> \<sigma>'"
proof (unfold provides_def, rule impI)
  assume "registers c \<sigma> \<sigma>'" and "wf_tree \<sigma> \<and> c < length (scopes \<sigma>)"
  then have same: "sans_graph \<sigma>' = sans_graph \<sigma>" and grows: "gh_grows (set (subscopes \<sigma> c)) \<sigma> \<sigma>'"
    by (simp_all add: registers_def)
  have "map no_provide (scopes \<sigma>') = map no_provide (map no_gh (scopes \<sigma>'))"
    by (simp add: no_provide_no_gh [symmetric])
  also have "map no_gh (scopes \<sigma>') = map no_gh (scopes \<sigma>)"
    using arg_cong [OF same, of scopes] by (simp add: sans_graph_def)
  finally have "map no_provide (scopes \<sigma>') = map no_provide (scopes \<sigma>)"
    by (simp add: no_provide_no_gh [symmetric])
  with sans_graph_scopes [OF same] grows
  show "sans_provide \<sigma>' = sans_provide \<sigma> \<and> gh_grows (set (subscopes \<sigma> c)) \<sigma> \<sigma>' \<and> (\<exists>cs. ctors \<sigma>' = ctors \<sigma> @ cs)"
    by (simp add: sans_provide_def)
qed

lemma keeps_registers: "keeps (registers c) m \<Longrightarrow> keeps (provides c) m"
  by (simp add: keeps_def registers_provides)

lemma provides_upd_scope:
  assumes "\<And>sc. no_provide (f sc) = no_provide sc" and "\<And>sc. gh (f sc) = gh sc"
  shows "provides c \<sigma> (upd_scope s f \<sigma>)"
proof -
  have "sans_provide (upd_scope s f \<sigma>) = sans_provide \<sigma>"
    using assms(1) by (simp add: sans_provide_def upd_scope_def map_list_update_same)
  moreover have "gh (scope_of (upd_scope s f \<sigma>) u) = gh (scope_of \<sigma> u)" if "u < length (scopes \<sigma>)" for u
    using assms(2) that by (cases "u = s") (simp_all add: upd_scope_def)
  then have "gh_grows S \<sigma> (upd_scope s f \<sigma>)" for S
    by (auto simp: gh_grows_def intro: exI [of _ "[]"])
  ultimately show ?thesis by (simp add: provides_def)
qed

lemma provides_setProviders: "provides c \<sigma> (setProviders s k ns \<sigma>)"
  unfolding setProviders_def by (rule provides_upd_scope) (simp_all add: no_provide_def)

lemma provides_setVerified: "provides c \<sigma> (setVerified s b \<sigma>)"
  unfolding setVerified_def by (rule provides_upd_scope) (simp_all add: no_provide_def)

lemma provides_fold: "(\<And>x \<sigma>. provides c \<sigma> (g x \<sigma>)) \<Longrightarrow> provides c \<sigma> (fold g xs \<sigma>)"
  by (induction xs arbitrary: \<sigma>) (auto intro: provides.R_refl provides.R_trans)

lemma keeps_verifyScope: "keeps (provides c) (verifyScope old s)"
proof (rule keepsI)
  fix \<sigma>
  have 1: "provides c \<sigma> (setVerified s False \<sigma>)" by (rule provides_setVerified)
  have "provides c \<sigma> (fold (\<lambda>(k, ops). setProviders s k ops) old (setVerified s False \<sigma>))"
    by (rule provides.R_trans [OF 1]) (auto intro!: provides_fold provides_setProviders)
  moreover have "provides c \<sigma> (setVerified s True (setVerified s False \<sigma>))"
    by (rule provides.R_trans [OF 1 provides_setVerified])
  ultimately show "provides c \<sigma> (snd (verifyScope old s \<sigma>))"
    using 1 by (simp add: verifyScope_def Let_def split: option.split prod.split bool.split)
qed

text \<open>What reading parameters and allocating a constructor keep, making a constructor node keeps.\<close>

locale register_relation = state_relation R for R :: "store \<Rightarrow> store \<Rightarrow> bool" and c :: nat +
  assumes R_registers: "registers c \<sigma> \<sigma>' \<Longrightarrow> R \<sigma> \<sigma>'"
    and R_ctors: "R \<sigma> (\<sigma>\<lparr>ctors := ctors \<sigma> @ [node]\<rparr>)"
begin

lemma keeps_newConstructorNode: "keeps R (newConstructorNode ctor c origS opts)"
proof -
  have "R \<sigma> (\<sigma>1\<lparr>ctors := ctors \<sigma>1 @ [node]\<rparr>)"
    if "newGraphNode w c (\<sigma>, []) = (\<sigma>1, ords)" for \<sigma> \<sigma>1 w ords node
  proof (rule R_trans [OF _ R_ctors])
    have "registers c \<sigma> (\<sigma>1\<lparr>orderMaps := orderMaps \<sigma>1\<rparr>)" by (rule registers_newGraphNode [OF that])
    then show "R \<sigma> \<sigma>1" by (simp add: R_registers)
  qed
  moreover have "keeps R (newParamList ctype c)" for ctype
    using keeps_newParamList [of c ctype] R_registers by (simp add: keeps_def)
  ultimately show ?thesis
    unfolding newConstructorNode_def
    by (intro keeps_bindS keeps_liftS keepsI) (simp_all add: Let_def keeps_def split: prod.split)
qed

end

interpretation provides_register: register_relation "provides c" c for c
proof
  show "provides c \<sigma> (\<sigma>\<lparr>ctors := ctors \<sigma> @ [node]\<rparr>)" for c \<sigma> node
    by (auto simp: provides_def sans_provide_def gh_grows_def intro: exI [of _ "[]"])
qed (rule registers_provides)

text \<open>Neither touches the providers.\<close>

definition same_providers :: "nat \<Rightarrow> store \<Rightarrow> store \<Rightarrow> bool" where
  "same_providers c \<sigma> \<sigma>' \<longleftrightarrow>
     (wf_tree \<sigma> \<and> c < length (scopes \<sigma>) \<longrightarrow>
      skel \<sigma>' = skel \<sigma> \<and> (\<forall>t < length (scopes \<sigma>). providers (scope_of \<sigma>' t) = providers (scope_of \<sigma> t)))"

interpretation same_providers: state_relation "same_providers c" for c
proof
  fix c \<sigma>1 \<sigma>2 \<sigma>3 assume 1: "same_providers c \<sigma>1 \<sigma>2" and 2: "same_providers c \<sigma>2 \<sigma>3"
  show "same_providers c \<sigma>1 \<sigma>3"
    unfolding same_providers_def
  proof
    assume wf: "wf_tree \<sigma>1 \<and> c < length (scopes \<sigma>1)"
    with 1 have skel: "skel \<sigma>1 = skel \<sigma>2" by (simp add: same_providers_def)
    with wf 1 2 wf_tree_skel [OF skel] skel_length [OF skel]
    show "skel \<sigma>3 = skel \<sigma>1 \<and>
        (\<forall>t < length (scopes \<sigma>1). providers (scope_of \<sigma>3 t) = providers (scope_of \<sigma>1 t))"
      by (simp add: same_providers_def)
  qed
qed (simp add: same_providers_def)

lemma no_gh_eq:
  assumes "no_gh sc = no_gh sc'"
  shows "providers sc = providers sc'" and "decorators sc = decorators sc'"
    and "sc_values sc = sc_values sc'" and "nodes sc = nodes sc'"
    and "invokerFn sc = invokerFn sc'" and "recoverFromPanics sc = recoverFromPanics sc'"
    and "deferAcyclicVerification sc = deferAcyclicVerification sc'"
    and "decoratedValues sc = decoratedValues sc'" and "groups sc = groups sc'" and "decoratedGroups sc = decoratedGroups sc'"
  using arg_cong [OF assms, of decoratedValues] arg_cong [OF assms, of groups] arg_cong [OF assms, of decoratedGroups]
    arg_cong [OF assms, of providers] arg_cong [OF assms, of decorators] arg_cong [OF assms, of sc_values]
    arg_cong [OF assms, of nodes] arg_cong [OF assms, of invokerFn]
    arg_cong [OF assms, of recoverFromPanics] arg_cong [OF assms, of deferAcyclicVerification]
  by (simp_all add: no_gh_def)

interpretation same_providers_register: register_relation "same_providers c" c for c
proof
  show "same_providers c \<sigma> \<sigma>'" if "registers c \<sigma> \<sigma>'" for c \<sigma> \<sigma>'
    unfolding same_providers_def
  proof
    assume "wf_tree \<sigma> \<and> c < length (scopes \<sigma>)"
    with that have same: "sans_graph \<sigma>' = sans_graph \<sigma>" by (simp add: registers_def)
    show "skel \<sigma>' = skel \<sigma> \<and> (\<forall>t < length (scopes \<sigma>). providers (scope_of \<sigma>' t) = providers (scope_of \<sigma> t))"
      using skel_cong_sans_graph [OF same] no_gh_eq(1) [OF sans_graph_scopes(2) [OF same]] by simp
  qed
  show "same_providers c \<sigma> (\<sigma>\<lparr>ctors := ctors \<sigma> @ [node]\<rparr>)" for c \<sigma> node
    by (simp add: same_providers_def skel_def)
qed

subsection \<open>Provide that fails\<close>

lemma bindS_eq_Throw:
  "bindS m f \<sigma> = (Throw e, \<sigma>') \<longleftrightarrow>
     m \<sigma> = (Throw e, \<sigma>') \<or> (\<exists>a \<sigma>1. m \<sigma> = (Ret a, \<sigma>1) \<and> f a \<sigma>1 = (Throw e, \<sigma>'))"
  by (auto simp: bindS_def split: prod.splits res.splits)

lemma registerCtor_Throw:
  assumes "registerCtor s all info n keys \<sigma> = (Throw e, \<sigma>')"
  shows "forS (verifyScope (map (\<lambda>k. (k, getProviders \<sigma> s k)) keys)) all (fold (addProvider s n) keys \<sigma>) =
    (Throw e, \<sigma>')"
  using assms by (simp add: registerCtor_def Let_def bindS_eq_Throw)

lemma provides_registerCtor:
  assumes "registerCtor s all info n keys \<sigma> = (Throw e, \<sigma>')"
  shows "provides c \<sigma> \<sigma>'"
proof (rule provides.R_trans)
  show "provides c \<sigma> (fold (addProvider s n) keys \<sigma>)"
    by (intro provides_fold) (simp add: addProvider_def provides_setProviders)
  show "provides c (fold (addProvider s n) keys \<sigma>) \<sigma>'"
    by (rule keepsD [OF provides.keeps_forS [OF keeps_verifyScope] registerCtor_Throw [OF assms]])
qed

lemma provideBody_Throw:
  assumes "provideBody ctor opts c origS all \<sigma> = (Throw e, \<sigma>')"
  obtains co where "newConstructorNode ctor c origS co \<sigma> = (Throw e, \<sigma>')"
  | co n where "newConstructorNode ctor c origS co \<sigma> = (Ret n, \<sigma>')"
  | co n \<sigma>1 keys where "newConstructorNode ctor c origS co \<sigma> = (Ret n, \<sigma>1)"
      and "registerCtor c all (poInfo opts) n keys \<sigma>1 = (Throw e, \<sigma>')"
proof -
  define co where "co = \<lparr>coResultName = poName opts, coResultGroup = poGroup opts, coResultAs = poAs opts,
               coLocation = poLocation opts, coCallback = poCallback opts,
               coBeforeCallback = poBeforeCallback opts\<rparr>"
  note body = assms [unfolded provideBody_def, folded co_def]
  show ?thesis
  proof (cases "newConstructorNode ctor c origS co \<sigma>")
    case (Pair r \<sigma>1)
    show ?thesis
    proof (cases r)
      case (Ret n)
      with body Pair have "bindS (\<lambda>\<sigma>. (findAndValidateResults \<sigma> c (cn_resultList (ctor_of \<sigma> n)), \<sigma>)) (\<lambda>keys.
         if keys = [] then throwS (newErrInvalidInput (MsgNoResults (fn_type ctor)) None)
         else registerCtor c all (poInfo opts) n keys) \<sigma>1 = (Throw e, \<sigma>')" by simp
      then have "\<sigma>1 = \<sigma>' \<or> (\<exists>keys. registerCtor c all (poInfo opts) n keys \<sigma>1 = (Throw e, \<sigma>'))"
        unfolding bindS_eq_Throw by (auto split: if_splits)
      with that Pair Ret show ?thesis by blast
    qed (use body Pair that in \<open>simp_all add: bindS_def\<close>)
  qed
qed

lemma provides_provideBody:
  assumes "provideBody ctor opts c origS all \<sigma> = (Throw e, \<sigma>')"
  shows "provides c \<sigma> \<sigma>'"
  using assms
proof (cases rule: provideBody_Throw)
  case (3 co n \<sigma>1 keys)
  then show ?thesis
    using keepsD [OF provides_register.keeps_newConstructorNode] provides_registerCtor provides.R_trans by blast
qed (use keepsD [OF provides_register.keeps_newConstructorNode] in blast)+

text \<open>The scope that a constructor is provided to.\<close>

definition provideScope :: "store \<Rightarrow> provideOptions \<Rightarrow> nat \<Rightarrow> nat" where
  "provideScope \<sigma> opts s = (if poExported opts then rootScope \<sigma> s else s)"

lemma provideScope_less:
  "wf_tree \<sigma> \<Longrightarrow> s < length (scopes \<sigma>) \<Longrightarrow> provideScope \<sigma> opts s < length (scopes \<sigma>)"
  using wf_tree_nonempty [of \<sigma>] by (simp add: provideScope_def rootScope_0)

lemma skel_snapshotAll: "skel (snapshotAll ts \<sigma>) = skel \<sigma>"
  unfolding snapshotAll_def by (induction ts arbitrary: \<sigma>) (simp_all add: skel_upd_scope)

lemma provide_Throw:
  assumes wf: "wf_tree \<sigma>" "s < length (scopes \<sigma>)" and throw: "provide ctor opts s \<sigma> = (Throw e, \<sigma>')"
  defines "c \<equiv> provideScope \<sigma> opts s" and "\<sigma>0 \<equiv> snapshotAll (subscopes \<sigma> (provideScope \<sigma> opts s)) \<sigma>"
  obtains \<sigma>1 where "provideBody ctor opts c s (subscopes \<sigma> c) \<sigma>0 = (Throw e, \<sigma>1)"
    and "\<sigma>' = rollbackAll (subscopes \<sigma> c) \<sigma>1" and "provides c \<sigma>0 \<sigma>1"
    and "wf_tree \<sigma>0" and "c < length (scopes \<sigma>0)" and "subscopes \<sigma>0 c = subscopes \<sigma> c"
proof -
  from throw obtain \<sigma>1 where body: "provideBody ctor opts c s (subscopes \<sigma> c) \<sigma>0 = (Throw e, \<sigma>1)"
    and "\<sigma>' = rollbackAll (subscopes \<sigma> c) \<sigma>1"
    by (auto simp: provide_def Let_def appendSubscopes_subs c_def \<sigma>0_def provideScope_def
        split: prod.splits res.splits)
  moreover have skel: "skel \<sigma> = skel \<sigma>0" by (simp add: \<sigma>0_def skel_snapshotAll)
  moreover have "c < length (scopes \<sigma>)" using provideScope_less [OF wf] by (simp add: c_def)
  ultimately show ?thesis
    using that provides_provideBody [OF body] wf wf_tree_skel [OF skel] subscopes_skel [OF skel]
    by (simp add: \<sigma>0_def)
qed


text \<open>A constructor that needs its own result introduces a cycle.\<close>

definition selfish :: gofn where
  "selfish = fnOf 1 [intT] [intT]"

lemma provide_selfish: "\<exists>e \<sigma>'. provide selfish noProvideOptions 0 (New []) = (Throw e, \<sigma>')"
proof -
  have "case fst (provide selfish noProvideOptions 0 (New [])) of Throw e \<Rightarrow> True | _ \<Rightarrow> False" by code_simp
  then show ?thesis by (cases "provide selfish noProvideOptions 0 (New [])") (auto split: res.splits)
qed

lemma length_scopes_New: "length (scopes (New [])) = 1"
  by code_simp


lemma getProviders_setProviders:
  "s < length (scopes \<sigma>) \<Longrightarrow> getProviders (setProviders s k ns \<sigma>) t k' =
     (if t = s \<and> k' = k then ns else getProviders \<sigma> t k')"
  by (cases "t = s") (simp_all add: getProviders_def setProviders_def upd_scope_def al_get_def)

lemma setProviders_length [simp]: "length (scopes (setProviders s k ns \<sigma>)) = length (scopes \<sigma>)"
  by (simp add: setProviders_def upd_scope_def)

lemma getProviders_upd_scope:
  "(\<And>sc. providers (f sc) = providers sc) \<Longrightarrow> getProviders (upd_scope u f \<sigma>) t k = getProviders \<sigma> t k"
  by (cases "u = t"; cases "t < length (scopes \<sigma>)")
    (simp_all add: upd_scope_def getProviders_def list_update_beyond)

lemma setVerified_providers [simp]:
  "length (scopes (setVerified s b \<sigma>)) = length (scopes \<sigma>)"
  "getProviders (setVerified s b \<sigma>) t k = getProviders \<sigma> t k"
  by (simp_all add: setVerified_def getProviders_upd_scope) (simp add: upd_scope_def)

lemma getProviders_restore:
  "s < length (scopes \<sigma>) \<Longrightarrow> getProviders (fold (\<lambda>(k, ops). setProviders s k ops) (map (\<lambda>k. (k, f k)) keys) \<sigma>) t k =
     (if t = s \<and> k \<in> set keys then f k else getProviders \<sigma> t k)"
  by (induction keys arbitrary: \<sigma>) (auto simp: getProviders_setProviders)

lemma addProviders:
  "s < length (scopes \<sigma>) \<Longrightarrow> distinct keys \<Longrightarrow>
     length (scopes (fold (addProvider s n) keys \<sigma>)) = length (scopes \<sigma>) \<and>
     getProviders (fold (addProvider s n) keys \<sigma>) t k =
       (if t = s \<and> k \<in> set keys then getProviders \<sigma> t k @ [n] else getProviders \<sigma> t k)"
  by (induction keys arbitrary: \<sigma>) (auto simp: addProvider_def getProviders_setProviders)

lemma addProviders_other:
  "s < length (scopes \<sigma>) \<Longrightarrow> \<not> (t = s \<and> k \<in> set keys) \<Longrightarrow>
     length (scopes (fold (addProvider s n) keys \<sigma>)) = length (scopes \<sigma>) \<and>
     getProviders (fold (addProvider s n) keys \<sigma>) t k = getProviders \<sigma> t k"
  by (induction keys arbitrary: \<sigma>) (auto simp: addProvider_def getProviders_setProviders)

lemma addProviders_length:
  "length (scopes (fold (addProvider s n) keys \<sigma>)) = length (scopes \<sigma>)"
  by (induction keys arbitrary: \<sigma>) (auto simp: addProvider_def)

lemma registerCtor_leaf_Throw:
  assumes throw: "registerCtor s [s] info n keys \<sigma> = (Throw e, \<sigma>')" and s: "s < length (scopes \<sigma>)"
  shows "getProviders \<sigma>' t k = getProviders \<sigma> t k"
proof -
  let ?\<sigma>1 = "fold (addProvider s n) keys \<sigma>" and ?old = "map (\<lambda>k. (k, getProviders \<sigma> s k)) keys"
  have "verifyScope ?old s ?\<sigma>1 = (Throw e, \<sigma>')"
    using registerCtor_Throw [OF throw] by (simp add: bindS_eq_Throw)
  then have \<sigma>': "\<sigma>' = fold (\<lambda>(k, ops). setProviders s k ops) ?old (setVerified s False ?\<sigma>1)"
    by (auto simp: verifyScope_def Let_def split: if_splits option.splits prod.splits bool.splits)
  show ?thesis
    using s addProviders_other [OF s, of t k keys n]
    by (auto simp: \<sigma>' getProviders_restore addProviders_length)
qed

lemma getProviders_rollbackAll [simp]: "getProviders (rollbackAll ts \<sigma>) t k = getProviders \<sigma> t k"
  unfolding rollbackAll_def by (rule fold_frame) (simp add: getProviders_upd_scope)

lemma getProviders_snapshotAll [simp]: "getProviders (snapshotAll ts \<sigma>) t k = getProviders \<sigma> t k"
  unfolding snapshotAll_def by (rule fold_frame) (simp add: getProviders_upd_scope)

lemma same_providers_get:
  "same_providers c \<sigma> \<sigma>' \<Longrightarrow> wf_tree \<sigma> \<Longrightarrow> c < length (scopes \<sigma>) \<Longrightarrow> t < length (scopes \<sigma>) \<Longrightarrow>
     getProviders \<sigma>' t k = getProviders \<sigma> t k"
  by (simp add: same_providers_def getProviders_def)

text \<open>
  C5: when \<open>provide\<close> returns an error for a scope that has no children, the providers of every key
  in every scope are as before.
\<close>

theorem provide_error_restores_providers:
  assumes "wf_tree \<sigma>" and "s < length (scopes \<sigma>)" and leaf: "childScopes (scope_of \<sigma> (provideScope \<sigma> opts s)) = []"
    and "provide ctor opts s \<sigma> = (Throw e, \<sigma>')" and "t < length (scopes \<sigma>)"
  shows "getProviders \<sigma>' t k = getProviders \<sigma> t k"
proof -
  define c where "c = provideScope \<sigma> opts s"
  define \<sigma>0 where "\<sigma>0 = snapshotAll (subscopes \<sigma> c) \<sigma>"
  obtain \<sigma>1 where body: "provideBody ctor opts c s (subscopes \<sigma> c) \<sigma>0 = (Throw e, \<sigma>1)"
    and \<sigma>': "\<sigma>' = rollbackAll (subscopes \<sigma> c) \<sigma>1" and wf0: "wf_tree \<sigma>0" "c < length (scopes \<sigma>0)"
    unfolding c_def \<sigma>0_def by (rule provide_Throw [OF assms(1,2,4)])
  have "c < length (scopes \<sigma>)" using wf0(2) by (simp add: \<sigma>0_def)
  then have sub: "subscopes \<sigma> c = [c]"
    using leaf by (subst subscopes_unfold [OF assms(1)]) (simp_all add: c_def)
  have t0: "t < length (scopes \<sigma>0)" using assms(5) by (simp add: \<sigma>0_def)
  note new = same_providers_get [OF keepsD [OF same_providers_register.keeps_newConstructorNode] wf0 t0]
  from body have "getProviders \<sigma>1 t k = getProviders \<sigma>0 t k"
  proof (cases rule: provideBody_Throw)
    case (3 co n \<sigma>2 keys)
    have "skel \<sigma>2 = skel \<sigma>0"
      using keepsD [OF same_providers_register.keeps_newConstructorNode 3(1)] wf0
      by (simp add: same_providers_def)
    then have "length (scopes \<sigma>2) = length (scopes \<sigma>0)" by (rule skel_length)
    with registerCtor_leaf_Throw [OF 3(2) [unfolded sub]] wf0(2) new [OF 3(1)] show ?thesis by simp
  qed (rule new, assumption)+
  then show ?thesis by (simp add: \<sigma>' \<sigma>0_def)
qed

theorem provide_error_restores_providers_witness:
  "\<exists>e \<sigma>'. provide selfish noProvideOptions 0 (New []) = (Throw e, \<sigma>') \<and>
     getProviders \<sigma>' 0 (value_key '''' intT) = []"
proof -
  obtain e \<sigma>' where p: "provide selfish noProvideOptions 0 (New []) = (Throw e, \<sigma>')"
    using provide_selfish by blast
  have leaf: "childScopes (scope_of (New []) (provideScope (New []) noProvideOptions 0)) = []" by code_simp
  have "getProviders (New []) 0 (value_key '''' intT) = []" by code_simp
  with provide_error_restores_providers [OF wf_tree_New _ leaf p, of 0] p show ?thesis
    by (simp add: length_scopes_New)
qed

subsection \<open>Provide that succeeds\<close>

lemma scope_of_upd_scope: "scope_of (upd_scope u f \<sigma>) t = (if t = u \<and> u < length (scopes \<sigma>) then f (scope_of \<sigma> u) else scope_of \<sigma> t)"
  by (auto simp: upd_scope_def list_update_beyond)

lemma length_upd_scope [simp]: "length (scopes (upd_scope u f \<sigma>)) = length (scopes \<sigma>)"
  by (simp add: upd_scope_def)

lemma ancestors_upd_scope:
  assumes "\<And>sc. parentScope (f sc) = parentScope sc"
  shows "ancestors (upd_scope u f \<sigma>) t = ancestors \<sigma> t"
proof -
  have "ancestorsUpTo k (upd_scope u f \<sigma>) t = ancestorsUpTo k \<sigma> t" for k t
    using assms by (induction k arbitrary: t) (simp_all add: scope_of_upd_scope split: option.split)
  then show ?thesis by (simp add: ancestors_def)
qed

lemma scope_graph_upd_scope:
  assumes "\<And>sc. providers (f sc) = providers sc" and "\<And>sc. gh (f sc) = gh sc"
    and "\<And>sc. parentScope (f sc) = parentScope sc"
  shows "scope_graph (upd_scope u f \<sigma>) t = scope_graph \<sigma> t"
proof -
  have all: "getAllProviders (upd_scope u f \<sigma>) t k = getAllProviders \<sigma> t k" for k
    by (simp add: getAllProviders_def ancestors_upd_scope getProviders_upd_scope assms)
  have "getParamOrder (upd_scope u f \<sigma>) t p = getParamOrder \<sigma> t p" for p
    by (induction \<sigma> t p rule: getParamOrder.induct)
      (auto simp: getAllValueProviders_def getAllProviders_def ancestors_upd_scope getProviders_upd_scope
        assms ctorOrder_def intro!: arg_cong [where f = concat] map_cong)
  then have order: "getParamOrder (upd_scope u f \<sigma>) t = getParamOrder \<sigma> t" by (rule ext)
  have "nodeEdges (upd_scope u f \<sigma>) t w = nodeEdges \<sigma> t w" for w
    by (cases w) (simp_all add: nodeEdges_def order all getAllGroupProviders_def ctorOrder_def)
  moreover have "gh (scope_of (upd_scope u f \<sigma>) t) = gh (scope_of \<sigma> t)"
    by (simp add: scope_of_upd_scope assms(2))
  ultimately show ?thesis by (simp add: scope_graph_def cong: option.case_cong)
qed

lemma setVerified_setVerified: "setVerified s b (setVerified s b' \<sigma>) = setVerified s b \<sigma>"
  by (cases "s < length (scopes \<sigma>)") (simp_all add: setVerified_def upd_scope_def list_update_beyond)

lemma scope_graph_setVerified [simp]: "scope_graph (setVerified s b \<sigma>) t = scope_graph \<sigma> t"
  unfolding setVerified_def by (rule scope_graph_upd_scope) simp_all

lemma setVerified_frame [simp]:
  "deferAcyclicVerification (scope_of (setVerified s b \<sigma>) t) = deferAcyclicVerification (scope_of \<sigma> t)"
  "nodes (scope_of (setVerified s b \<sigma>) t) = nodes (scope_of \<sigma> t)"
  "ctors (setVerified s b \<sigma>) = ctors \<sigma>"
  by (simp_all add: setVerified_def scope_of_upd_scope)

lemma verifyScope_Ret:
  assumes "verifyScope old s \<sigma> = (Ret u, \<sigma>')"
  obtains b where "\<sigma>' = setVerified s b \<sigma>" and "b \<or> deferAcyclicVerification (scope_of \<sigma> s)"
    and "b \<longrightarrow> (\<exists>c. IsAcyclic (scope_graph \<sigma> s) = Some (True, c))"
  using assms
  by (fastforce simp: verifyScope_def Let_def setVerified_setVerified
      split: if_splits option.splits prod.splits bool.splits)

definition verified :: "store \<Rightarrow> nat \<Rightarrow> bool" where
  "verified \<sigma> t \<longleftrightarrow> deferAcyclicVerification (scope_of \<sigma> t) \<or>
     (isVerifiedAcyclic (scope_of \<sigma> t) \<and> (\<exists>c. IsAcyclic (scope_graph \<sigma> t) = Some (True, c)))"

lemma forS_verifyScope_Ret:
  "forS (verifyScope old) ts \<sigma> = (Ret u, \<sigma>') \<Longrightarrow> set ts \<subseteq> {..<length (scopes \<sigma>)} \<Longrightarrow>
    (\<forall>t. scope_graph \<sigma>' t = scope_graph \<sigma> t) \<and> (\<forall>t k. getProviders \<sigma>' t k = getProviders \<sigma> t k) \<and>
    (\<forall>t. deferAcyclicVerification (scope_of \<sigma>' t) = deferAcyclicVerification (scope_of \<sigma> t) \<and>
       nodes (scope_of \<sigma>' t) = nodes (scope_of \<sigma> t) \<and>
       (t \<notin> set ts \<longrightarrow> isVerifiedAcyclic (scope_of \<sigma>' t) = isVerifiedAcyclic (scope_of \<sigma> t))) \<and>
    ctors \<sigma>' = ctors \<sigma> \<and> length (scopes \<sigma>') = length (scopes \<sigma>) \<and> (\<forall>t \<in> set ts. verified \<sigma>' t)"
proof (induction ts arbitrary: \<sigma>)
  case (Cons x ts)
  then obtain \<sigma>1 where 1: "verifyScope old x \<sigma> = (Ret (), \<sigma>1)" and 2: "forS (verifyScope old) ts \<sigma>1 = (Ret u, \<sigma>')"
    by (auto simp: bindS_eq_Ret)
  from 1 obtain b where \<sigma>1: "\<sigma>1 = setVerified x b \<sigma>" and b: "b \<or> deferAcyclicVerification (scope_of \<sigma> x)"
    and ok: "b \<longrightarrow> (\<exists>c. IsAcyclic (scope_graph \<sigma> x) = Some (True, c))" by (rule verifyScope_Ret)
  have x: "isVerifiedAcyclic (scope_of \<sigma>1 t) = (if t = x then b else isVerifiedAcyclic (scope_of \<sigma> t))" for t
    using Cons.prems(2) by (simp add: \<sigma>1 setVerified_def scope_of_upd_scope)
  have IH: "(\<forall>t. scope_graph \<sigma>' t = scope_graph \<sigma> t) \<and> (\<forall>t k. getProviders \<sigma>' t k = getProviders \<sigma> t k) \<and>
    (\<forall>t. deferAcyclicVerification (scope_of \<sigma>' t) = deferAcyclicVerification (scope_of \<sigma> t) \<and>
       nodes (scope_of \<sigma>' t) = nodes (scope_of \<sigma> t) \<and>
       (t \<notin> set ts \<longrightarrow> isVerifiedAcyclic (scope_of \<sigma>' t) = isVerifiedAcyclic (scope_of \<sigma>1 t))) \<and>
    ctors \<sigma>' = ctors \<sigma> \<and> length (scopes \<sigma>') = length (scopes \<sigma>) \<and> (\<forall>t \<in> set ts. verified \<sigma>' t)"
    using Cons.IH [OF 2] Cons.prems(2) by (simp add: \<sigma>1)
  moreover have "verified \<sigma>' x"
    using IH b ok x by (cases "x \<in> set ts") (auto simp: verified_def)
  ultimately show ?case using x by auto
qed simp

lemma newConstructorNode_Ret:
  assumes "newConstructorNode f c origS opts \<sigma> = (Ret n, \<sigma>1)" and wf: "wf_tree \<sigma>" "c < length (scopes \<sigma>)"
  obtains node where "n = length (ctors \<sigma>)" and "ctors \<sigma>1 = ctors \<sigma> @ [node]"
    and "cn_ctor node = f" and "cn_s node = c" and "cn_origS node = origS" and "\<not> cn_called node"
proof -
  obtain params \<sigma>2 node where pl: "newParamList (fn_type f) c \<sigma> = (Ret params, \<sigma>2)"
    and n: "n = length (ctors \<sigma>2)"
    and ctors: "ctors \<sigma>1 = ctors (fst (newGraphNode (NCtor (length (ctors \<sigma>2))) c (\<sigma>2, []))) @ [node]"
    and node: "cn_ctor node = f" "cn_s node = c" "cn_origS node = origS" "\<not> cn_called node"
    using assms(1) unfolding newConstructorNode_def bindS_eq_Ret
    by (auto simp: Let_def case_prod_beta)
  have same2: "sans_graph \<sigma>2 = sans_graph \<sigma>"
    using keepsD [OF keeps_newParamList pl] wf by (simp add: registers_def)
  note skel = skel_cong_sans_graph [OF same2, symmetric]
  have "wf_tree \<sigma>2" "c < length (scopes \<sigma>2)"
    using wf wf_tree_skel [OF skel] skel_length [OF skel] by simp_all
  with ctors have "ctors \<sigma>1 = ctors \<sigma>2 @ [node]" by (simp add: newGraphNode_eq frame)
  with that node sans_graph_scopes(3) [OF same2] n show ?thesis by simp
qed

lemma provideBody_Ret:
  assumes "provideBody f opts c s all \<sigma> = (Ret i, \<sigma>')"
  obtains co n \<sigma>1 keys \<sigma>3 where "newConstructorNode f c s co \<sigma> = (Ret n, \<sigma>1)"
    and "findAndValidateResults \<sigma>1 c (cn_resultList (ctor_of \<sigma>1 n)) = Ret keys" and "keys \<noteq> []"
    and "forS (verifyScope (map (\<lambda>k. (k, getProviders \<sigma>1 c k)) keys)) all (fold (addProvider c n) keys \<sigma>1) = (Ret (), \<sigma>3)"
    and "\<sigma>' = upd_scope c (\<lambda>x. x\<lparr>nodes := nodes x @ [n]\<rparr>) \<sigma>3"
  using assms unfolding provideBody_def bindS_eq_Ret
  by (auto simp: registerCtor_def Let_def bindS_eq_Ret split: if_splits)

lemma provide_Ret:
  assumes wf: "wf_tree \<sigma>" "s < length (scopes \<sigma>)" and "provide f opts s \<sigma> = (Ret i, \<sigma>')"
  defines "c \<equiv> provideScope \<sigma> opts s"
  obtains n \<sigma>1 keys \<sigma>3 node where "n = length (ctors \<sigma>)" and "ctors \<sigma>1 = ctors \<sigma> @ [node]"
    and "cn_ctor node = f" and "cn_s node = c" and "cn_origS node = s" and "\<not> cn_called node"
    and "length (scopes \<sigma>1) = length (scopes \<sigma>)" and "\<forall>t < length (scopes \<sigma>). \<forall>k. getProviders \<sigma>1 t k = getProviders \<sigma> t k"
    and "\<forall>t < length (scopes \<sigma>). nodes (scope_of \<sigma>1 t) = nodes (scope_of \<sigma> t)"
    and "findAndValidateResults \<sigma>1 c (cn_resultList node) = Ret keys" and "keys \<noteq> []"
    and "forS (verifyScope (map (\<lambda>k. (k, getProviders \<sigma>1 c k)) keys)) (subscopes \<sigma> c) (fold (addProvider c n) keys \<sigma>1) = (Ret (), \<sigma>3)"
    and "\<sigma>' = upd_scope c (\<lambda>x. x\<lparr>nodes := nodes x @ [n]\<rparr>) \<sigma>3" and "c < length (scopes \<sigma>)"
proof -
  let ?\<sigma>0 = "snapshotAll (subscopes \<sigma> c) \<sigma>"
  have c: "c < length (scopes \<sigma>)" using provideScope_less [OF wf] by (simp add: c_def)
  have skel: "skel \<sigma> = skel ?\<sigma>0" by (simp add: skel_snapshotAll)
  have wf0: "wf_tree ?\<sigma>0" "c < length (scopes ?\<sigma>0)" using wf wf_tree_skel [OF skel] c by simp_all
  have "provideBody f opts c s (subscopes \<sigma> c) ?\<sigma>0 = (Ret i, \<sigma>')"
    using assms(3) by (auto simp: provide_def Let_def appendSubscopes_subs c_def provideScope_def split: prod.splits res.splits)
  then obtain co n \<sigma>1 keys \<sigma>3 where new: "newConstructorNode f c s co ?\<sigma>0 = (Ret n, \<sigma>1)"
    and keys: "findAndValidateResults \<sigma>1 c (cn_resultList (ctor_of \<sigma>1 n)) = Ret keys" "keys \<noteq> []"
    and forS: "forS (verifyScope (map (\<lambda>k. (k, getProviders \<sigma>1 c k)) keys)) (subscopes \<sigma> c) (fold (addProvider c n) keys \<sigma>1) = (Ret (), \<sigma>3)"
    and \<sigma>': "\<sigma>' = upd_scope c (\<lambda>x. x\<lparr>nodes := nodes x @ [n]\<rparr>) \<sigma>3"
    by (rule provideBody_Ret)
  obtain node where node: "n = length (ctors ?\<sigma>0)" "ctors \<sigma>1 = ctors ?\<sigma>0 @ [node]" "cn_ctor node = f"
    "cn_s node = c" "cn_origS node = s" "\<not> cn_called node" by (rule newConstructorNode_Ret [OF new wf0])
  have prov: "sans_provide \<sigma>1 = sans_provide ?\<sigma>0"
    using keepsD [OF provides_register.keeps_newConstructorNode new] wf0 by (simp add: provides_def)
  have nodes: "nodes (scope_of \<sigma>1 t) = nodes (scope_of \<sigma> t)" if "t < length (scopes \<sigma>)" for t
    using arg_cong [OF sans_provide_scopes(2) [OF prov, of t], of nodes] that
    by (simp add: no_provide_def scope_of_snapshotAll split: if_splits)
  show ?thesis
    by (rule that [of n \<sigma>1 node keys \<sigma>3])
      (use node keys forS \<sigma>' c nodes sans_provide_scopes(1) [OF prov]
        same_providers_get [OF keepsD [OF same_providers_register.keeps_newConstructorNode new] wf0] in simp_all)
qed

lemma addProviders_ctors [simp]: "ctors (fold (addProvider s n) keys \<sigma>) = ctors \<sigma>"
  by (rule fold_frame) (simp add: addProvider_def setProviders_def)

lemma addProviders_nodes: "nodes (scope_of (fold (addProvider s n) keys \<sigma>) t) = nodes (scope_of \<sigma> t)"
  by (rule fold_frame [where h = "\<lambda>\<sigma>. nodes (scope_of \<sigma> t)"])
    (simp add: addProvider_def setProviders_def scope_of_upd_scope)

lemma set_subscopes_bound:
  "wf_tree \<sigma> \<Longrightarrow> c < length (scopes \<sigma>) \<Longrightarrow> set (subscopes \<sigma> c) \<subseteq> {..<length (scopes \<sigma>)}"
  by (auto simp: subscopes_set)

text \<open>
  C2: when \<open>provide\<close> succeeds, it has added one constructor node, not called yet, that belongs to the
  scope it was provided to (the root when exported); the node is a provider of exactly the keys of
  its results, in that scope only, after the providers that were there. No value key had a
  provider in that scope before, so a value never has two.
\<close>

theorem provide_success_registers:
  assumes wf: "wf_tree \<sigma>" "s < length (scopes \<sigma>)" and ok: "provide f opts s \<sigma> = (Ret i, \<sigma>')"
  shows "\<exists>node ks. ctors \<sigma>' = ctors \<sigma> @ [node] \<and> cn_ctor node = f \<and> cn_s node = provideScope \<sigma> opts s \<and>
    cn_origS node = s \<and> \<not> cn_called node \<and> ks = list_keys (cn_resultList node) \<and> ks \<noteq> [] \<and>
    (\<forall>t < length (scopes \<sigma>). nodes (scope_of \<sigma>' t) =
       nodes (scope_of \<sigma> t) @ (if t = provideScope \<sigma> opts s then [length (ctors \<sigma>)] else [])) \<and>
    (\<forall>t < length (scopes \<sigma>). \<forall>k. getProviders \<sigma>' t k =
       getProviders \<sigma> t k @ (if t = provideScope \<sigma> opts s \<and> k \<in> snd ` set ks then [length (ctors \<sigma>)] else [])) \<and>
    (\<forall>k. (True, k) \<in> set ks \<longrightarrow> getProviders \<sigma> (provideScope \<sigma> opts s) k = [])"
proof -
  define c where "c = provideScope \<sigma> opts s"
  obtain n \<sigma>1 keys \<sigma>3 node where n: "n = length (ctors \<sigma>)" and ctors: "ctors \<sigma>1 = ctors \<sigma> @ [node]"
    and node: "cn_ctor node = f" "cn_s node = c" "cn_origS node = s" "\<not> cn_called node"
    and len1: "length (scopes \<sigma>1) = length (scopes \<sigma>)"
    and prov1: "\<forall>t < length (scopes \<sigma>). \<forall>k. getProviders \<sigma>1 t k = getProviders \<sigma> t k"
    and nodes1: "\<forall>t < length (scopes \<sigma>). nodes (scope_of \<sigma>1 t) = nodes (scope_of \<sigma> t)"
    and keys: "findAndValidateResults \<sigma>1 c (cn_resultList node) = Ret keys" "keys \<noteq> []"
    and forS: "forS (verifyScope (map (\<lambda>k. (k, getProviders \<sigma>1 c k)) keys)) (subscopes \<sigma> c)
        (fold (addProvider c n) keys \<sigma>1) = (Ret (), \<sigma>3)"
    and \<sigma>': "\<sigma>' = upd_scope c (\<lambda>x. x\<lparr>nodes := nodes x @ [n]\<rparr>) \<sigma>3" and c: "c < length (scopes \<sigma>)"
    unfolding c_def by (rule provide_Ret [OF assms])
  let ?ks = "list_keys (cn_resultList node)"
  from keys have free: "conflict_free \<sigma>1 c {} ?ks" and "distinct keys" and set: "set keys = snd ` set ?ks"
    using findAndValidateResults_scan [of \<sigma>1 c "cn_resultList node"] by (auto split: if_splits)
  note verify = forS_verifyScope_Ret [OF forS] and bound = set_subscopes_bound [OF wf(1) c]
  have "getProviders \<sigma>' t k = getProviders \<sigma> t k @ (if t = c \<and> k \<in> snd ` set ?ks then [n] else [])"
    if "t < length (scopes \<sigma>)" for t k
    using verify bound addProviders [of c \<sigma>1 keys n t k] that len1 c \<open>distinct keys\<close> prov1
    by (simp add: \<sigma>' getProviders_upd_scope addProviders_length set)
  moreover have "nodes (scope_of \<sigma>' t) = nodes (scope_of \<sigma> t) @ (if t = c then [n] else [])"
    if "t < length (scopes \<sigma>)" for t
    using verify bound that c nodes1 len1
    by (simp add: \<sigma>' scope_of_upd_scope addProviders_nodes addProviders_length)
  moreover have "ctors \<sigma>' = ctors \<sigma> @ [node]"
    using verify bound ctors len1 by (simp add: \<sigma>' addProviders_length)
  moreover have "getProviders \<sigma> c k = []" if "(True, k) \<in> set ?ks" for k
    using conflict_free_value [OF free that] prov1 c by simp
  moreover have "?ks \<noteq> []" using set keys(2) by auto
  ultimately show ?thesis using node by (auto simp: c_def n)
qed

lemma provide_int: "\<exists>i \<sigma>'. provide (fnOf 1 [] [intT]) noProvideOptions 0 (New []) = (Ret i, \<sigma>')"
proof -
  have "case fst (provide (fnOf 1 [] [intT]) noProvideOptions 0 (New [])) of Ret i \<Rightarrow> True | _ \<Rightarrow> False"
    by code_simp
  then show ?thesis
    by (cases "provide (fnOf 1 [] [intT]) noProvideOptions 0 (New [])") (auto split: res.splits)
qed

theorem provide_success_registers_witness:
  "\<exists>i \<sigma>' node. provide (fnOf 1 [] [intT]) noProvideOptions 0 (New []) = (Ret i, \<sigma>') \<and>
     ctors \<sigma>' = ctors (New []) @ [node] \<and> cn_ctor node = fnOf 1 [] [intT] \<and> cn_origS node = 0"
proof -
  obtain i \<sigma>' where p: "provide (fnOf 1 [] [intT]) noProvideOptions 0 (New []) = (Ret i, \<sigma>')"
    using provide_int by blast
  from provide_success_registers [OF wf_tree_New _ p] p show ?thesis by (auto simp: length_scopes_New)
qed

text \<open>What the loop over the scopes that see a new constructor leaves of each of them.\<close>

lemma provide_Ret_verified:
  assumes wf: "wf_tree \<sigma>" "s < length (scopes \<sigma>)" and ok: "provide f opts s \<sigma> = (Ret i, \<sigma>')"
    and t: "t \<in> set (appendSubscopes \<sigma> (provideScope \<sigma> opts s) [])"
  shows "verified \<sigma>' t"
proof -
  define c where "c = provideScope \<sigma> opts s"
  obtain n \<sigma>1 keys \<sigma>3 where len1: "length (scopes \<sigma>1) = length (scopes \<sigma>)"
    and forS: "forS (verifyScope (map (\<lambda>k. (k, getProviders \<sigma>1 c k)) keys)) (subscopes \<sigma> c)
        (fold (addProvider c n) keys \<sigma>1) = (Ret (), \<sigma>3)"
    and \<sigma>': "\<sigma>' = upd_scope c (\<lambda>x. x\<lparr>nodes := nodes x @ [n]\<rparr>) \<sigma>3" and c: "c < length (scopes \<sigma>)"
    unfolding c_def by (rule provide_Ret [OF wf ok])
  have "verified \<sigma>3 t"
    using forS_verifyScope_Ret [OF forS] set_subscopes_bound [OF wf(1) c] t
    by (simp add: len1 addProviders_length appendSubscopes_subs c_def)
  then show "verified \<sigma>' t" by (auto simp: verified_def \<sigma>' scope_graph_upd_scope scope_of_upd_scope)
qed



end
