(* ===== verification/Triples.thy ===== *)
theory Triples
  imports Effects
begin

text \<open>
  Hoare triples for the effects of the model: from a state with \<open>P\<close>, the code returns a value and a
  state with \<open>Q\<close>, or fails (an error, a panic, no fuel) in a state with \<open>F\<close>.
\<close>

fun post :: "('a \<Rightarrow> 's \<Rightarrow> bool) \<Rightarrow> ('s \<Rightarrow> bool) \<Rightarrow> 'a res \<times> 's \<Rightarrow> bool" where
  "post Q F (Ret a, \<sigma>) = Q a \<sigma>"
| "post Q F (Throw e, \<sigma>) = F \<sigma>"
| "post Q F (Panicked p, \<sigma>) = F \<sigma>"
| "post Q F (Diverged, \<sigma>) = F \<sigma>"

definition triple :: "('s \<Rightarrow> bool) \<Rightarrow> ('s, 'a) eff \<Rightarrow> ('a \<Rightarrow> 's \<Rightarrow> bool) \<Rightarrow> ('s \<Rightarrow> bool) \<Rightarrow> bool" where
  "triple P m Q F \<longleftrightarrow> (\<forall>\<sigma>. P \<sigma> \<longrightarrow> post Q F (m \<sigma>))"

lemma tripleI: "(\<And>\<sigma>. P \<sigma> \<Longrightarrow> post Q F (m \<sigma>)) \<Longrightarrow> triple P m Q F"
  by (simp add: triple_def)

lemma tripleD: "triple P m Q F \<Longrightarrow> P \<sigma> \<Longrightarrow> post Q F (m \<sigma>)"
  by (simp add: triple_def)

lemma triple_Ret: "triple P m Q F \<Longrightarrow> P \<sigma> \<Longrightarrow> m \<sigma> = (Ret a, \<sigma>') \<Longrightarrow> Q a \<sigma>'"
  by (metis tripleD post.simps(1))

lemma triple_fail: "triple P m Q F \<Longrightarrow> P \<sigma> \<Longrightarrow> m \<sigma> = (r, \<sigma>') \<Longrightarrow> \<forall>a. r \<noteq> Ret a \<Longrightarrow> F \<sigma>'"
  by (cases r) (metis tripleD post.simps)+

lemma post_snd: "post (\<lambda>_. F) F x = F (snd x)"
  by (cases x; cases "fst x") auto

lemma triple_snd: "triple P m (\<lambda>_. F) F \<Longrightarrow> P \<sigma> \<Longrightarrow> F (snd (m \<sigma>))"
  by (simp add: triple_def post_snd)

lemma post_mono: "post Q F x \<Longrightarrow> (\<And>a \<sigma>. Q a \<sigma> \<Longrightarrow> Q' a \<sigma>) \<Longrightarrow> (\<And>\<sigma>. F \<sigma> \<Longrightarrow> F' \<sigma>) \<Longrightarrow> post Q' F' x"
  by (cases x; cases "fst x") auto

lemma post_bindS: "post Q F (m \<sigma>) \<Longrightarrow> (\<And>a. triple (Q a) (f a) R F) \<Longrightarrow> post R F (bindS m f \<sigma>)"
  by (cases "m \<sigma>"; cases "fst (m \<sigma>)") (auto simp: bindS_def triple_def)

lemma post_wrapS: "post Q F (wrapS w m \<sigma>) = post Q F (m \<sigma>)"
  by (cases "m \<sigma>"; cases "fst (m \<sigma>)") (auto simp: wrapS_def)

lemma triple_weaken:
  "triple P' m Q' F' \<Longrightarrow> (\<And>\<sigma>. P \<sigma> \<Longrightarrow> P' \<sigma>) \<Longrightarrow> (\<And>a \<sigma>. Q' a \<sigma> \<Longrightarrow> Q a \<sigma>) \<Longrightarrow> (\<And>\<sigma>. F' \<sigma> \<Longrightarrow> F \<sigma>) \<Longrightarrow>
   triple P m Q F"
  unfolding triple_def by (blast intro: post_mono)

lemma triple_retS: "(\<And>\<sigma>. P \<sigma> \<Longrightarrow> Q a \<sigma>) \<Longrightarrow> triple P (retS a) Q F"
  by (simp add: triple_def)

lemma triple_throwS: "(\<And>\<sigma>. P \<sigma> \<Longrightarrow> F \<sigma>) \<Longrightarrow> triple P (throwS e) Q F"
  and triple_panicS: "(\<And>\<sigma>. P \<sigma> \<Longrightarrow> F \<sigma>) \<Longrightarrow> triple P (panicS p) Q F"
  by (simp_all add: triple_def)

lemma triple_liftS: "(\<And>a \<sigma>. P \<sigma> \<Longrightarrow> r = Ret a \<Longrightarrow> Q a \<sigma>) \<Longrightarrow> (\<And>\<sigma>. P \<sigma> \<Longrightarrow> F \<sigma>) \<Longrightarrow> triple P (liftS r) Q F"
  by (cases r) (simp_all add: triple_def)

lemma triple_read:
  "(\<And>a \<sigma>. P \<sigma> \<Longrightarrow> r \<sigma> = Ret a \<Longrightarrow> Q a \<sigma>) \<Longrightarrow> (\<And>\<sigma>. P \<sigma> \<Longrightarrow> F \<sigma>) \<Longrightarrow> triple P (\<lambda>\<sigma>. (r \<sigma>, \<sigma>)) Q F"
  unfolding triple_def by (metis post.simps res.exhaust)

lemma triple_doS: "(\<And>\<sigma>. P \<sigma> \<Longrightarrow> Q () (f \<sigma>)) \<Longrightarrow> triple P (doS f) Q F"
  by (simp add: triple_def)

lemma triple_bindS:
  "triple P m Q F \<Longrightarrow> (\<And>a. triple (Q a) (f a) R F) \<Longrightarrow> triple P (bindS m f) R F"
  by (auto intro: tripleI post_bindS dest: tripleD)

lemma triple_wrapS: "triple P m Q F \<Longrightarrow> triple P (wrapS w m) Q F"
  by (simp add: triple_def post_wrapS)

lemma triple_forS: "(\<And>x. x \<in> set xs \<Longrightarrow> triple P (f x) (\<lambda>_. P) F) \<Longrightarrow> triple P (forS f xs) (\<lambda>_. P) F"
  by (induction xs) (auto simp del: retS_app intro!: triple_bindS triple_retS)

lemma triple_keeps: "keeps R m \<Longrightarrow> (\<And>\<sigma> \<sigma>'. P \<sigma> \<Longrightarrow> R \<sigma> \<sigma>' \<Longrightarrow> P \<sigma>') \<Longrightarrow> triple P m (\<lambda>_. P) P"
  by (auto simp: triple_def keeps_def post_snd)

lemmas triple_intros = triple_retS triple_throwS triple_panicS triple_liftS triple_doS triple_bindS
  triple_wrapS triple_forS

end
