(* ===== verification/Typing.thy ===== *)
theory Typing
  imports Nodes Triples
begin

text \<open>
  Types of values. \<open>fits t v\<close> says that a variable of type \<open>t\<close> can hold the value \<open>v\<close>; parameters and
  results are checked against the types of the function they were read off (src/param.go,
  src/result.go).
\<close>

subsection \<open>Values of a type\<close>

definition inhabits :: "gotype \<Rightarrow> gotype \<Rightarrow> bool" where
  "inhabits u t \<longleftrightarrow> u = t \<or> Implements u t"

lemma inhabits_refl [simp]: "inhabits t t"
  by (simp add: inhabits_def)

lemma Implements_interface: "Implements u t \<Longrightarrow> Kind t = KInterface"
  by (auto simp: Implements_def Kind_def split: shape.splits)

lemma inhabits_concrete: "inhabits u t \<Longrightarrow> Kind t \<noteq> KInterface \<Longrightarrow> u = t"
  using Implements_interface by (auto simp: inhabits_def)

lemma Implements_trans: "Implements u t \<Longrightarrow> Implements t w \<Longrightarrow> Implements u w"
  by (auto simp: Implements_def method_set_def split: shape.splits)

lemma inhabits_trans: "inhabits u t \<Longrightarrow> inhabits t w \<Longrightarrow> inhabits u w"
  using Implements_trans by (auto simp: inhabits_def)

declare list.rel_cong [fundef_cong]

fun fits :: "gotype \<Rightarrow> gval \<Rightarrow> bool" where
  "fits t VNone = False"
| "fits t (VZero u) = inhabits u t"
| "fits t (VData u n) = inhabits u t"
| "fits t (VStruct u vs) = (inhabits u t \<and> list_all2 (\<lambda>f v. fits (fieldType f) v) (structFields u) vs)"
| "fits t (VSlice u vs) = (inhabits u t \<and> Kind u = KSlice \<and> (\<forall>v \<in> set vs. fits (elemT u) v))"
| "fits t (VError e) = (Kind t = KInterface \<or> isError t)"
| "fits t (VRuntime m) = False"

lemma fits_mono: "fits t v \<Longrightarrow> inhabits t u \<Longrightarrow> fits u v"
  by (cases v) (auto intro: inhabits_trans dest: Implements_interface simp: inhabits_def [of t u])

lemma fits_VNone: "fits t v \<Longrightarrow> v \<noteq> VNone"
  by auto

text \<open>A value that fits can be assigned: \<open>reflect\<close> has no reason to panic.\<close>

lemma fits_AssignableTo: "fits t v \<Longrightarrow> AssignableTo v t"
  by (cases v) (auto simp: AssignableTo_def typeOf_def inhabits_def)

lemma fits_concrete: "fits t v \<Longrightarrow> Kind t \<noteq> KInterface \<Longrightarrow> typeOf v = Some t \<or> (isError t \<and> (\<exists>e. v = VError e))"
  by (cases v) (auto simp: typeOf_def dest: inhabits_concrete)

lemma fits_valueField:
  assumes v: "fits t v" and t: "Kind t = KStruct" and i: "i < length (structFields t)" and x: "valueField v i = Some x"
  shows "fits (fieldType (structFields t ! i)) x"
proof (cases v)
  case (VStruct u vs)
  then have "u = t" using v t inhabits_concrete by auto
  with VStruct v i x show ?thesis by (auto simp: valueField_def list_all2_conv_all_nth split: if_splits)
next
  case (VZero u)
  then have "u = t" using v t inhabits_concrete by auto
  with VZero i x show ?thesis by (auto simp: valueField_def)
qed (use x in \<open>simp_all add: valueField_def\<close>)

lemma fits_elements:
  assumes v: "fits t v" and t: "Kind t = KSlice" and vs: "elements v = Some vs" and x: "x \<in> set vs"
  shows "fits (elemT t) x"
proof (cases v)
  case (VSlice u ws)
  then have "u = t" using v t inhabits_concrete by auto
  with VSlice v vs x show ?thesis by (auto simp: elements_def)
qed (use vs x in \<open>auto simp: elements_def\<close>)

subsection \<open>Parameters of a type\<close>

fun param_for :: "gotype \<Rightarrow> param \<Rightarrow> bool" where
  "param_for t (paramSingle name optional u) = (u = t)"
| "param_for t (paramGroupedSlice g u soft oid) = (u = t \<and> Kind t = KSlice)"
| "param_for t (paramObject u fs) = (u = t \<and> (\<forall>f \<in> set fs. pofIndex f < length (structFields t) \<and>
     param_for (fieldType (structFields t ! pofIndex f)) (pofParam f)))"

fun is_group :: "param \<Rightarrow> bool" where
  "is_group (paramGroupedSlice g u soft oid) = True"
| "is_group _ = False"

definition argTypes :: "gotype \<Rightarrow> gotype list" where
  "argTypes ctype = take (if IsVariadic ctype then length (ins ctype) - 1 else length (ins ctype)) (ins ctype)"

definition params_for :: "gotype \<Rightarrow> paramList \<Rightarrow> bool" where
  "params_for ctype pl \<longleftrightarrow> list_all2 (\<lambda>t p. param_for t p \<and> \<not> is_group p) (argTypes ctype) (Params pl)"

lemma newParamGroupedSlice_for: "newParamGroupedSlice f c \<sigma> = (Ret p, \<sigma>') \<Longrightarrow> param_for (fieldType f) p"
  by (auto simp: newParamGroupedSlice_def bindS_eq_Ret Let_def split: if_splits prod.splits)

lemma tagParam_for: "tagParam f p = Ret q \<Longrightarrow> param_for t p \<Longrightarrow> param_for t q"
  by (cases p) (auto simp: tagParam_def split: prod.splits option.splits)

lemma newParam_for:
  "newParam t c \<sigma> = (Ret p, \<sigma>') \<Longrightarrow> param_for t p \<and> \<not> is_group p"
  "newParamObjectFields t b i fs c \<sigma> = (Ret pofs, \<sigma>') \<Longrightarrow> pf \<in> set pofs \<Longrightarrow>
     \<exists>j < length fs. pofIndex pf = i + j \<and> param_for (fieldType (fs ! j)) (pofParam pf)"
  "newParamObjectField i f c \<sigma> = (Ret pf, \<sigma>') \<Longrightarrow> pofIndex pf = i \<and> param_for (fieldType f) (pofParam pf)"
proof (induction t c and t b i fs c and i f c arbitrary: \<sigma> p \<sigma>' and \<sigma> pofs \<sigma>' pf and \<sigma> pf \<sigma>'
    rule: newParam_newParamObjectFields_newParamObjectField.induct)
  case (1 t c)
  have obj: "param_for t (paramObject t fs)" if "\<And>pf. pf \<in> set fs \<Longrightarrow>
      \<exists>j < length (structFields t). pofIndex pf = 0 + j \<and> param_for (fieldType (structFields t ! j)) (pofParam pf)"
    for fs using that by fastforce
  show ?case
  proof (cases "IsIn t \<and> \<not> (IsOut t \<or> (Kind t = KPtr \<and> IsOut (elemT t)) \<or> embedsType t outPtrType)")
    case False
    with 1(3) show ?thesis by (auto simp: newParam.simps [of t c] split: if_splits)
  next
    case True
    show ?thesis
    proof (cases "findIn (structFields t)")
      case None
      with 1(3) True obtain fs where "newParamObjectFields t False 0 (structFields t) c \<sigma> = (Ret fs, \<sigma>')" and p: "p = paramObject t fs"
        by (auto simp: newParam.simps [of t c] bindS_eq_Ret)
      from 1(1) [OF _ _ None this(1)] True obj p show ?thesis by simp
    next
      case (Some f)
      obtain b err where ig: "isIgnoreUnexportedSet f = (b, err)" by fastforce
      with 1(3) True Some obtain fs where fs: "err = None" "newParamObjectFields t b 0 (structFields t) c \<sigma> = (Ret fs, \<sigma>')" and p: "p = paramObject t fs"
        by (auto simp: newParam.simps [of t c] bindS_eq_Ret split: option.splits)
      from 1(2) [OF _ _ Some ig [symmetric] fs] True obj p show ?thesis by simp
    qed
  qed
next
  case (2 t b i c)
  then show ?case by (simp add: newParamObjectFields.simps)
next
  case (3 t b i f fs c)
  show ?case
  proof (cases "fieldType f = inType \<or> (pkgPath f \<noteq> [] \<and> b)")
    case True
    with 3(5) have "newParamObjectFields t b (Suc i) fs c \<sigma> = (Ret pofs, \<sigma>')"
      by (auto simp: newParamObjectFields.simps split: if_splits)
    with 3(1,2,6) True have "\<exists>j < length fs. pofIndex pf = Suc i + j \<and> param_for (fieldType (fs ! j)) (pofParam pf)" by blast
    then show ?thesis by (metis Suc_less_eq add_Suc_shift length_Cons nth_Cons_Suc)
  next
    case False
    with 3(5) obtain pof \<sigma>2 rest where pof: "newParamObjectField i f c \<sigma> = (Ret pof, \<sigma>2)"
      and rest: "newParamObjectFields t b (Suc i) fs c \<sigma>2 = (Ret rest, \<sigma>')" and pofs: "pofs = pof # rest"
      by (auto simp: newParamObjectFields.simps(2) bindS_eq_Ret wrapS_eq_Ret split: if_splits)
    have for_f: "pofIndex pof = i \<and> param_for (fieldType f) (pofParam pof)" using 3(3) [OF _ _ pof] False by blast
    show ?thesis
    proof (cases "pf \<in> set rest")
      case True
      with 3(4) [OF _ _ rest True] False have "\<exists>j < length fs. pofIndex pf = Suc i + j \<and> param_for (fieldType (fs ! j)) (pofParam pf)" by blast
      then show ?thesis by (metis Suc_less_eq add_Suc_shift length_Cons nth_Cons_Suc)
    next
      case False
      with 3(6) pofs for_f show ?thesis by (auto intro!: exI [of _ 0])
    qed
  qed
next
  case (4 i f c)
  from 4(2) obtain q p \<sigma>1 where
      q: "(if TagGet f ''group'' \<noteq> [] then newParamGroupedSlice f c else newParam (fieldType f) c) \<sigma> = (Ret q, \<sigma>1)"
    and p: "tagParam f q = Ret p" and pf: "pf = paramObjectField (fieldName f) i p" and pkg: "pkgPath f = []"
    by (auto simp: newParamObjectField.simps bindS_eq_Ret split: if_splits)
  have "param_for (fieldType f) q"
    using q newParamGroupedSlice_for 4(1) pkg by (auto split: if_splits)
  with p have "param_for (fieldType f) p" by (rule tagParam_for)
  then show ?case by (simp add: pf)
qed

lemma list_all2_mapS:
  assumes "mapS f xs \<sigma> = (Ret ys, \<sigma>')" and "\<And>x y \<sigma> \<sigma>'. x \<in> set xs \<Longrightarrow> f x \<sigma> = (Ret y, \<sigma>') \<Longrightarrow> P x y"
  shows "list_all2 P xs ys"
  using assms
proof (induction xs arbitrary: \<sigma> ys)
  case (Cons x xs)
  from Cons.prems(1) obtain z zs \<sigma>1 where z: "f x \<sigma> = (Ret z, \<sigma>1)" and zs: "mapS f xs \<sigma>1 = (Ret zs, \<sigma>')" and "ys = z # zs"
    by (auto simp: bindS_eq_Ret)
  moreover have "P x z" using Cons.prems(2) z by auto
  moreover have "list_all2 P xs zs" by (rule Cons.IH [OF zs Cons.prems(2)]) auto
  ultimately show ?case by simp
qed simp

lemma newParamList_for:
  assumes "newParamList ctype c \<sigma> = (Ret pl, \<sigma>')"
  shows "params_for ctype pl"
proof -
  from assms obtain ps \<sigma>1 where ps: "mapS (\<lambda>(i, t). wrapS (\<lambda>e. newErrInvalidInput (MsgBadArgument (Suc i)) (Some e)) (newParam t c))
      (enumerate 0 (argTypes ctype)) \<sigma> = (Ret ps, \<sigma>1)" and pl: "Params pl = ps"
    by (auto simp: newParamList_def argTypes_def Let_def bindS_eq_Ret)
  have "list_all2 (\<lambda>(i, t) p. param_for t p \<and> \<not> is_group p) (enumerate 0 (argTypes ctype)) ps"
    by (rule list_all2_mapS [OF ps]) (auto simp: wrapS_eq_Ret dest: newParam_for(1))
  then show ?thesis
    by (simp add: params_for_def pl list_all2_conv_all_nth nth_enumerate_eq)
qed

subsection \<open>Results of a type\<close>

fun result_for :: "gotype \<Rightarrow> result \<Rightarrow> bool" where
  "result_for t (resultSingle name u as) = (inhabits t u \<and> (\<forall>a \<in> set as. inhabits t a))"
| "result_for t (resultGrouped g u flatten as) =
     (if flatten then Kind t = KSlice \<and> u = elemT t else inhabits t u \<and> (\<forall>a \<in> set as. inhabits t a))"
| "result_for t (resultObject u fs) = (Kind t = KStruct \<and> (\<forall>f \<in> set fs. rofIndex f < length (structFields t) \<and>
     result_for (fieldType (structFields t ! rofIndex f)) (rofResult f)))"

definition results_for :: "gotype \<Rightarrow> resultList \<Rightarrow> bool" where
  "results_for ctype rl \<longleftrightarrow> length (resultIndexes rl) = length (outs ctype) \<and>
     filter (\<lambda>i. 0 \<le> i) (resultIndexes rl) = map int [0..<length (Results rl)] \<and>
     (\<forall>j < length (outs ctype). 0 \<le> resultIndexes rl ! j \<longrightarrow>
        result_for (outs ctype ! j) (Results rl ! nat (resultIndexes rl ! j)))"

lemma asTypes_inhabits: "asTypes t as = Ret ts \<Longrightarrow> u \<in> set ts \<Longrightarrow> inhabits t u"
  by (induction as arbitrary: ts) (auto simp: bindR_eq_Ret inhabits_def split: option.splits if_splits)

lemma elemT_Some: "Elem t = Some e \<Longrightarrow> elemT t = e"
  by (simp add: elemT_def)

lemma newResultSingle_for: "newResultSingle t opts = Ret r \<Longrightarrow> result_for t r"
  unfolding newResultSingle_def bindR_eq_Ret
proof (elim exE conjE)
  fix ts assume ts: "asTypes t (roAs opts) = Ret ts"
    and r: "(case ts of [] \<Rightarrow> Ret (resultSingle (roName opts) t []) | u # us \<Rightarrow> Ret (resultSingle (roName opts) u us)) = Ret r"
  from r asTypes_inhabits [OF ts] show "result_for t r" by (cases ts) auto
qed

lemma Kind_Elem_interface: "Kind t = KInterface \<Longrightarrow> Elem t = None"
  by (auto simp: Kind_def Elem_def split: shape.splits)

lemma newResultWithGroup_for:
  assumes "newResultWithGroup t opts = Ret r"
  shows "result_for t r"
proof -
  from assms obtain g :: group and ts where ts: "asTypes t (roAs opts) = Ret ts"
    and r: "(let (rgType, rgAs) = (case ts of [] \<Rightarrow> (t, []) | u # us \<Rightarrow> (u, us))
       in if gSoft g then Throw (newErrInvalidInput (MsgSoftResult (gName g)) None)
          else if gFlatten g then
            if Kind t \<noteq> KSlice then Throw (newErrInvalidInput (MsgFlattenNotSlice t) None)
            else (case Elem rgType of
                None \<Rightarrow> Panicked (VRuntime ''reflect: Elem of invalid type'')
              | Some e \<Rightarrow> Ret (resultGrouped (gName g) e True rgAs))
          else Ret (resultGrouped (gName g) rgType False rgAs)) = Ret r"
    unfolding newResultWithGroup_def bindR_eq_Ret by blast
  show ?thesis
  proof (cases ts)
    case Nil
    with r show ?thesis by (auto dest: elemT_Some split: if_splits option.splits)
  next
    case (Cons u us)
    have u: "inhabits t a" if "a \<in> set (u # us)" for a using asTypes_inhabits [OF ts] Cons that by simp
    have "Elem u = None" if "Kind t = KSlice" "u \<noteq> t"
      using u [of u] that Kind_Elem_interface Implements_interface by (auto simp: inhabits_def)
    with r Cons u show ?thesis by (cases "u = t") (auto dest: elemT_Some split: if_splits option.splits)
  qed
qed

lemma newResultGrouped_for: "newResultGrouped f = Ret r \<Longrightarrow> result_for (fieldType f) r"
  by (auto simp: newResultGrouped_def bindR_eq_Ret Let_def dest: elemT_Some split: if_splits option.splits)

lemma IsOut_struct: "IsOut t \<Longrightarrow> Kind t = KStruct"
proof -
  assume "IsOut t"
  then have "embeds t outType" by (simp add: IsOut_def embedsType_def embedsLoop_correct)
  then show ?thesis
  proof cases
    case self
    then show ?thesis by (auto simp: outType_def Kind_def)
  next
    case (field f)
    then show ?thesis by (auto simp: structFields_def Kind_def split: shape.splits)
  qed
qed

lemma newResult_for:
  "newResult t opts = Ret r \<Longrightarrow> result_for t r"
  "newResultObjectFields t opts i fs = Ret rofs \<Longrightarrow> rf \<in> set rofs \<Longrightarrow>
     \<exists>j < length fs. rofIndex rf = i + j \<and> result_for (fieldType (fs ! j)) (rofResult rf)"
  "newResultObjectField i f opts = Ret rf \<Longrightarrow> rofIndex rf = i \<and> result_for (fieldType f) (rofResult rf)"
proof (induction t opts and t opts i fs and i f opts arbitrary: r and rofs rf and rf
    rule: newResult_newResultObjectFields_newResultObjectField.induct)
  case (1 t opts)
  show ?case
  proof (cases "IsOut t \<and> \<not> (IsIn t \<or> elemIs IsIn t \<or> embedsType t inPtrType) \<and> \<not> isError t \<and> roName opts = [] \<and> roGroup opts = []")
    case True
    with 1(2) obtain fs where "newResultObjectFields t opts 0 (structFields t) = Ret fs" and r: "r = resultObject t fs"
      by (auto simp: newResult.simps [of t] bindR_eq_Ret)
    with 1(1) [OF _ _ _ _ _ this(1)] True IsOut_struct show ?thesis by fastforce
  next
    case False
    with 1(2) show ?thesis
      by (auto simp: newResult.simps [of t] dest: newResultSingle_for newResultWithGroup_for split: if_splits)
  qed
next
  case (2 t opts i)
  then show ?case by (simp add: newResultObjectFields.simps)
next
  case (3 t opts i f fs)
  show ?case
  proof (cases "fieldType f = outType")
    case True
    with 3(4) have "newResultObjectFields t opts (Suc i) fs = Ret rofs" by (simp add: newResultObjectFields.simps)
    with 3(1,5) True have "\<exists>j < length fs. rofIndex rf = Suc i + j \<and> result_for (fieldType (fs ! j)) (rofResult rf)" by blast
    then show ?thesis by (metis Suc_less_eq add_Suc_shift length_Cons nth_Cons_Suc)
  next
    case False
    with 3(4) obtain rof rest where rof: "newResultObjectField i f opts = Ret rof"
      and rest: "newResultObjectFields t opts (Suc i) fs = Ret rest" and rofs: "rofs = rof # rest"
      by (auto simp: newResultObjectFields.simps(2) bindR_eq_Ret)
    note for_f = 3(2) [OF False rof]
    show ?thesis
    proof (cases "rf \<in> set rest")
      case True
      from 3(3) [OF False rest True] have "\<exists>j < length fs. rofIndex rf = Suc i + j \<and> result_for (fieldType (fs ! j)) (rofResult rf)" .
      then show ?thesis by (metis Suc_less_eq add_Suc_shift length_Cons nth_Cons_Suc)
    next
      case False
      with 3(5) rofs for_f show ?thesis by (auto intro!: exI [of _ 0])
    qed
  qed
next
  case (4 i f opts)
  from 4(2) obtain r where r: "(if TagGet f ''group'' \<noteq> [] then newResultGrouped f
        else newResult (fieldType f) (if TagGet f ''name'' \<noteq> [] then opts\<lparr>roName := TagGet f ''name''\<rparr> else opts)) = Ret r"
    and rf: "rf = resultObjectField (fieldName f) i r" and pkg: "pkgPath f = []"
    by (auto simp: newResultObjectField.simps bindR_eq_Ret split: if_splits)
  have "result_for (fieldType f) r"
  proof (cases "TagGet f ''group'' \<noteq> []")
    case True
    with r newResultGrouped_for show ?thesis by simp
  next
    case False
    with r 4(1) pkg show ?thesis by simp
  qed
  then show ?case by (simp add: rf)
qed

lemma newResultListFrom_for:
  "newResultListFrom opts i idx ts = Ret (rs, is) \<Longrightarrow> length is = length ts \<and>
     (\<forall>j < length ts. 0 \<le> is ! j \<longrightarrow> int idx \<le> is ! j \<and> result_for (ts ! j) (rs ! (nat (is ! j) - idx)))"
proof (induction opts i idx ts arbitrary: rs "is" rule: newResultListFrom.induct)
  case (2 opts i idx t ts)
  show ?case
  proof (cases "isError t")
    case True
    with 2(3) obtain is' where "newResultListFrom opts (Suc i) idx ts = Ret (rs, is')" and "is = - 1 # is'"
      by (auto simp: bindR_eq_Ret)
    with 2(1) [OF True this(1)] show ?thesis by (auto simp: nth_Cons split: nat.splits)
  next
    case False
    with 2(3) obtain r rs' is' where r: "newResult t opts = Ret r"
      and rest: "newResultListFrom opts (Suc i) (Suc idx) ts = Ret (rs', is')" and eq: "is = int idx # is'" "rs = r # rs'"
      by (auto simp: bindR_eq_Ret)
    have IH: "length is' = length ts" "j < length ts \<Longrightarrow> 0 \<le> is' ! j \<Longrightarrow>
        int (Suc idx) \<le> is' ! j \<and> result_for (ts ! j) (rs' ! (nat (is' ! j) - Suc idx))" for j
      using 2(2) [OF False rest] by auto
    have "int idx \<le> is ! j \<and> result_for ((t # ts) ! j) (rs ! (nat (is ! j) - idx))"
      if "j < length (t # ts)" "0 \<le> is ! j" for j
    proof (cases j)
      case 0
      then show ?thesis using newResult_for(1) [OF r] by (simp add: eq)
    next
      case (Suc j')
      with IH(2) [of j'] that have 1: "int (Suc idx) \<le> is' ! j'" "result_for (ts ! j') (rs' ! (nat (is' ! j') - Suc idx))"
        by (simp_all add: eq)
      then have "nat (is' ! j') - idx = Suc (nat (is' ! j') - Suc idx)" by linarith
      with 1 Suc show ?thesis by (simp add: eq)
    qed
    with IH(1) eq show ?thesis by simp
  qed
qed simp

lemma newResultListFrom_indexes:
  "newResultListFrom opts i idx ts = Ret (rs, is) \<Longrightarrow> filter (\<lambda>i. 0 \<le> i) is = map int [idx..<idx + length rs]"
  by (induction opts i idx ts arbitrary: rs "is" rule: newResultListFrom.induct)
    (auto simp: bindR_eq_Ret upt_conv_Cons simp del: upt_Suc split: if_splits)

lemma newResultList_for:
  assumes "newResultList ctype opts = Ret rl"
  shows "results_for ctype rl"
proof -
  from assms obtain rs "is" where "newResultListFrom opts 0 0 (outs ctype) = Ret (rs, is)" "rl = \<lparr>rlCtype = ctype, Results = rs, resultIndexes = is\<rparr>"
    by (auto simp: newResultList_def bindR_eq_Ret)
  with newResultListFrom_for [OF this(1)] newResultListFrom_indexes [OF this(1)] show ?thesis by (simp add: results_for_def)
qed

subsection \<open>Nodes\<close>

text \<open>The parameters and results of a node are those of its function.\<close>

definition typed_ctor :: "constructorNode \<Rightarrow> bool" where
  "typed_ctor c \<longleftrightarrow> params_for (fn_type (cn_ctor c)) (cn_paramList c) \<and> results_for (fn_type (cn_ctor c)) (cn_resultList c)"

definition fresh_ctor :: "constructorNode \<Rightarrow> bool" where
  "fresh_ctor c \<longleftrightarrow> typed_ctor c \<and> \<not> cn_called c"

definition typed_dcor :: "decoratorNode \<Rightarrow> bool" where
  "typed_dcor d \<longleftrightarrow> params_for (fn_type (dn_dcor d)) (dn_params d) \<and> results_for (fn_type (dn_dcor d)) (dn_results d)"

end
