(* ===== verification/Indices.thy ===== *)
theory Indices
  imports Registering Decorate Invoke Typing
begin

text \<open>
  The references of a store are valid: providers and decorators are nodes of the store, nodes belong
  to scopes of the store, and the scopes form a tree. Every operation of the container keeps this.
\<close>

subsection \<open>What calls leave as it is\<close>

lemma static_lengths:
  assumes "static \<sigma> = static \<sigma>0"
  shows "length (scopes \<sigma>) = length (scopes \<sigma>0)" and "length (ctors \<sigma>) = length (ctors \<sigma>0)"
    and "length (dcors \<sigma>) = length (dcors \<sigma>0)"
  using arg_cong [OF assms, of "\<lambda>x. length (scopes x)"] arg_cong [OF assms, of "\<lambda>x. length (ctors x)"]
    arg_cong [OF assms, of "\<lambda>x. length (dcors x)"] by (simp_all add: static_def)

lemma static_nth:
  assumes "static \<sigma> = static \<sigma>0"
  shows "s < length (scopes \<sigma>0) \<Longrightarrow> static_scope (scope_of \<sigma> s) = static_scope (scope_of \<sigma>0 s)"
    and "n < length (ctors \<sigma>0) \<Longrightarrow> static_ctor (ctor_of \<sigma> n) = static_ctor (ctor_of \<sigma>0 n)"
    and "d < length (dcors \<sigma>0) \<Longrightarrow> static_dcor (dcor_of \<sigma> d) = static_dcor (dcor_of \<sigma>0 d)"
  using arg_cong [OF assms, of "\<lambda>x. scopes x ! s"] arg_cong [OF assms, of "\<lambda>x. ctors x ! n"]
    arg_cong [OF assms, of "\<lambda>x. dcors x ! d"] static_lengths [OF assms] by (simp_all add: static_def)

lemma static_scope_eq:
  assumes "static_scope sc = static_scope sc'"
  shows "providers sc = providers sc'" and "decorators sc = decorators sc'"
    and "parentScope sc = parentScope sc'" and "childScopes sc = childScopes sc'"
    and "invokerFn sc = invokerFn sc'" and "recoverFromPanics sc = recoverFromPanics sc'" and "gh sc = gh sc'"
  using arg_cong [OF assms, of providers] arg_cong [OF assms, of decorators] arg_cong [OF assms, of parentScope]
    arg_cong [OF assms, of childScopes] arg_cong [OF assms, of invokerFn]
    arg_cong [OF assms, of recoverFromPanics] arg_cong [OF assms, of gh]
  by (simp_all add: static_scope_def)

lemma static_ctor_eq:
  assumes "static_ctor c = static_ctor c'"
  shows "cn_origS c = cn_origS c'" and "cn_s c = cn_s c'" and "cn_paramList c = cn_paramList c'"
    and "cn_resultList c = cn_resultList c'"
  using arg_cong [OF assms, of cn_origS] arg_cong [OF assms, of cn_s] arg_cong [OF assms, of cn_paramList]
    arg_cong [OF assms, of cn_resultList]
  by (simp_all add: static_ctor_def)

lemma static_dcor_eq:
  assumes "static_dcor d = static_dcor d'"
  shows "dn_s d = dn_s d'" and "dn_params d = dn_params d'"
  using arg_cong [OF assms, of dn_s] arg_cong [OF assms, of dn_params] by (simp_all add: static_dcor_def)

lemma skel_static: "skel (static \<sigma>) = skel \<sigma>"
  by (simp add: skel_def static_def static_scope_def)

lemma static_skel: "static \<sigma> = static \<sigma>0 \<Longrightarrow> skel \<sigma> = skel \<sigma>0"
  using skel_static [of \<sigma>] skel_static [of \<sigma>0] by simp

lemma static_reads:
  assumes "static \<sigma> = static \<sigma>0" and "s < length (scopes \<sigma>0)"
  shows "getProviders \<sigma> s k = getProviders \<sigma>0 s k" and "getDecorators \<sigma> s k = getDecorators \<sigma>0 s k"
  using static_scope_eq [OF static_nth(1) [OF assms]] by (simp_all add: getProviders_def getDecorators_def)

lemma static_storesToRoot:
  "static \<sigma> = static \<sigma>0 \<Longrightarrow> wf_tree \<sigma>0 \<Longrightarrow> c < length (scopes \<sigma>0) \<Longrightarrow> storesToRoot \<sigma> c = storesToRoot \<sigma>0 c"
  unfolding storesToRoot_def by (intro ancestors_skel static_skel [symmetric]) simp_all

lemma storesToRoot_less:
  "wf_tree \<sigma> \<Longrightarrow> c < length (scopes \<sigma>) \<Longrightarrow> s \<in> set (storesToRoot \<sigma> c) \<Longrightarrow> s < length (scopes \<sigma>)"
  unfolding storesToRoot_def using ancestors_less_length by blast

lemma static_providers_to_root:
  assumes "static \<sigma> = static \<sigma>0" and "wf_tree \<sigma>0" and "c < length (scopes \<sigma>0)"
  shows "(\<Union>s \<in> set (storesToRoot \<sigma> c). set (getProviders \<sigma> s k)) =
    (\<Union>s \<in> set (storesToRoot \<sigma>0 c). set (getProviders \<sigma>0 s k))"
  using static_storesToRoot [OF assms] static_reads(1) [OF assms(1) storesToRoot_less [OF assms(2,3)]] by simp

subsection \<open>Valid references\<close>

definition valid_scope :: "nat \<Rightarrow> nat \<Rightarrow> scope \<Rightarrow> bool" where
  "valid_scope nc nd sc \<longleftrightarrow>
     (\<forall>(k, ns) \<in> set (providers sc). \<forall>n \<in> set ns. n < nc) \<and>
     (\<forall>(k, d) \<in> set (decorators sc). d < nd) \<and> (\<forall>n \<in> set (nodes sc). n < nc)"

definition well_indexed :: "store \<Rightarrow> bool" where
  "well_indexed \<sigma> \<longleftrightarrow> wf_tree \<sigma> \<and>
     (\<forall>sc \<in> set (scopes \<sigma>). valid_scope (length (ctors \<sigma>)) (length (dcors \<sigma>)) sc) \<and>
     (\<forall>c \<in> set (ctors \<sigma>). cn_s c < length (scopes \<sigma>) \<and> cn_origS c < length (scopes \<sigma>)) \<and>
     (\<forall>d \<in> set (dcors \<sigma>). dn_s d < length (scopes \<sigma>))"

lemma well_indexed_tree: "well_indexed \<sigma> \<Longrightarrow> wf_tree \<sigma>"
  by (simp add: well_indexed_def)

lemma well_indexed_scope:
  "well_indexed \<sigma> \<Longrightarrow> s < length (scopes \<sigma>) \<Longrightarrow> valid_scope (length (ctors \<sigma>)) (length (dcors \<sigma>)) (scope_of \<sigma> s)"
  by (simp add: well_indexed_def)

lemma well_indexed_ctor:
  assumes "well_indexed \<sigma>" and "n < length (ctors \<sigma>)"
  shows "cn_s (ctor_of \<sigma> n) < length (scopes \<sigma>)" and "cn_origS (ctor_of \<sigma> n) < length (scopes \<sigma>)"
  using assms by (simp_all add: well_indexed_def)

lemma well_indexed_dcor:
  "well_indexed \<sigma> \<Longrightarrow> d < length (dcors \<sigma>) \<Longrightarrow> dn_s (dcor_of \<sigma> d) < length (scopes \<sigma>)"
  by (simp add: well_indexed_def)

lemma getProviders_less:
  assumes "well_indexed \<sigma>" and "s < length (scopes \<sigma>)" and "n \<in> set (getProviders \<sigma> s k)"
  shows "n < length (ctors \<sigma>)"
  using well_indexed_scope [OF assms(1,2)] assms(3)
  by (cases "map_of (providers (scope_of \<sigma> s)) k")
    (auto simp: valid_scope_def getProviders_def al_get_def dest!: map_of_SomeD)

lemma getDecorators_less:
  assumes "well_indexed \<sigma>" and "s < length (scopes \<sigma>)" and "getDecorators \<sigma> s k = Some d"
  shows "d < length (dcors \<sigma>)"
  using well_indexed_scope [OF assms(1,2)] assms(3)
  by (auto simp: valid_scope_def getDecorators_def dest!: map_of_SomeD)

subsection \<open>Registering keeps the references valid\<close>

text \<open>
  The stores that \<open>Provide\<close>, \<open>Decorate\<close> and the start of \<open>Invoke\<close> pass through from \<open>\<sigma>0\<close>: valid,
  with the same tree, invokers, values and log, and with new nodes, whose parameters and results are those
  of their functions, after the old ones.
\<close>

definition contents :: "scope \<Rightarrow> (key \<times> gval) list \<times> (key \<times> gval) list \<times> (key \<times> gval list) list \<times> (key \<times> gval) list" where
  [simp]: "contents sc = (sc_values sc, decoratedValues sc, groups sc, decoratedGroups sc)"

definition registering :: "store \<Rightarrow> store \<Rightarrow> bool" where
  "registering \<sigma>0 \<sigma> \<longleftrightarrow> well_indexed \<sigma> \<and> skel \<sigma> = skel \<sigma>0 \<and> log \<sigma> = log \<sigma>0 \<and>
     map invokerFn (scopes \<sigma>) = map invokerFn (scopes \<sigma>0) \<and> map contents (scopes \<sigma>) = map contents (scopes \<sigma>0) \<and>
     (\<exists>cs. ctors \<sigma> = ctors \<sigma>0 @ cs \<and> (\<forall>c \<in> set cs. fresh_ctor c)) \<and>
     (\<exists>ds. dcors \<sigma> = dcors \<sigma>0 @ ds \<and> (\<forall>d \<in> set ds. typed_dcor d))"

lemma registering_refl: "well_indexed \<sigma> \<Longrightarrow> registering \<sigma> \<sigma>"
  by (simp add: registering_def)

lemma registering_length: "registering \<sigma>0 \<sigma> \<Longrightarrow> length (scopes \<sigma>) = length (scopes \<sigma>0)"
  by (auto simp: registering_def intro: skel_length)

lemma registering_wf: "registering \<sigma>0 \<sigma> \<Longrightarrow> well_indexed \<sigma>"
  by (simp add: registering_def)

lemma registering_scope: "registering \<sigma>0 \<sigma> \<Longrightarrow> s < length (scopes \<sigma>0) \<Longrightarrow> s < length (scopes \<sigma>)"
  by (simp add: registering_length)

lemma valid_scope_mono: "valid_scope nc nd sc \<Longrightarrow> nc \<le> nc' \<Longrightarrow> nd \<le> nd' \<Longrightarrow> valid_scope nc' nd' sc"
  by (fastforce simp: valid_scope_def)

lemma well_indexed_cong:
  assumes "well_indexed \<sigma>" and "skel \<sigma>' = skel \<sigma>" and "ctors \<sigma>' = ctors \<sigma>" and "dcors \<sigma>' = dcors \<sigma>"
    and valid: "\<And>s. s < length (scopes \<sigma>) \<Longrightarrow> valid_scope (length (ctors \<sigma>)) (length (dcors \<sigma>)) (scope_of \<sigma>' s)"
  shows "well_indexed \<sigma>'"
proof -
  note skel = assms(2) [symmetric]
  have len: "length (scopes \<sigma>') = length (scopes \<sigma>)" by (rule skel_length [OF assms(2)])
  have "\<forall>sc \<in> set (scopes \<sigma>'). valid_scope (length (ctors \<sigma>)) (length (dcors \<sigma>)) sc"
    using valid by (auto simp: in_set_conv_nth len)
  with assms(1) wf_tree_skel [OF skel] show ?thesis
    by (simp add: well_indexed_def assms(3,4) len)
qed

lemma registering_registers:
  assumes reg: "registering \<sigma>0 \<sigma>" and "registers c \<sigma> \<sigma>'" and "c < length (scopes \<sigma>0)"
  shows "registering \<sigma>0 \<sigma>'"
proof -
  from reg have wf: "well_indexed \<sigma>" by (simp add: registering_def)
  have same: "sans_graph \<sigma>' = sans_graph \<sigma>"
    using assms registering_length [OF reg] well_indexed_tree [OF wf] by (simp add: registers_def)
  have "well_indexed \<sigma>'"
    using well_indexed_scope [OF wf] no_gh_eq [OF sans_graph_scopes(2) [OF same]]
    by (intro well_indexed_cong [OF wf skel_cong_sans_graph [OF same] sans_graph_scopes(3,4) [OF same]])
      (simp add: valid_scope_def)
  moreover have "map invokerFn (scopes \<sigma>') = map invokerFn (scopes \<sigma>)"
    using no_gh_eq(5) [OF sans_graph_scopes(2) [OF same]] by (simp add: list_eq_iff_nth_eq sans_graph_scopes(1) [OF same])
  moreover have "map contents (scopes \<sigma>') = map contents (scopes \<sigma>)"
    using no_gh_eq(3,8-10) [OF sans_graph_scopes(2) [OF same]] by (simp add: list_eq_iff_nth_eq sans_graph_scopes(1) [OF same])
  ultimately show ?thesis
    using reg skel_cong_sans_graph [OF same] sans_graph_scopes(3-5) [OF same] by (simp add: registering_def)
qed

lemma well_indexed_upd_scope:
  assumes wf: "well_indexed \<sigma>"
    and f: "\<And>sc. parentScope (f sc) = parentScope sc" "\<And>sc. childScopes (f sc) = childScopes sc"
    and valid: "\<And>sc. valid_scope (length (ctors \<sigma>)) (length (dcors \<sigma>)) sc \<Longrightarrow>
      valid_scope (length (ctors \<sigma>)) (length (dcors \<sigma>)) (f sc)"
  shows "well_indexed (upd_scope s f \<sigma>)"
  using valid well_indexed_scope [OF wf]
  by (intro well_indexed_cong [OF wf skel_upd_scope [OF f]]) (simp_all add: scope_of_upd_scope)

lemma registering_upd_scope:
  assumes reg: "registering \<sigma>0 \<sigma>"
    and f: "\<And>sc. parentScope (f sc) = parentScope sc" "\<And>sc. childScopes (f sc) = childScopes sc"
    and inv: "\<And>sc. invokerFn (f sc) = invokerFn sc" and cont: "\<And>sc. contents (f sc) = contents sc"
    and valid: "\<And>sc. valid_scope (length (ctors \<sigma>)) (length (dcors \<sigma>)) sc \<Longrightarrow>
      valid_scope (length (ctors \<sigma>)) (length (dcors \<sigma>)) (f sc)"
  shows "registering \<sigma>0 (upd_scope s f \<sigma>)"
proof -
  have "map invokerFn (scopes (upd_scope s f \<sigma>)) = map invokerFn (scopes \<sigma>)"
    using inv by (simp add: upd_scope_def map_list_update_same)
  moreover have "map contents (scopes (upd_scope s f \<sigma>)) = map contents (scopes \<sigma>)"
    using cont by (simp add: upd_scope_def map_list_update_same del: contents_def)
  ultimately show ?thesis using reg well_indexed_upd_scope [OF registering_wf [OF reg] f valid] skel_upd_scope [of f s \<sigma>] f
    by (simp add: registering_def)
qed

lemma well_indexed_append:
  assumes wf: "well_indexed \<sigma>" and scopes: "scopes \<sigma>' = scopes \<sigma>"
    and nodes: "ctors \<sigma>' = ctors \<sigma> @ cs" "dcors \<sigma>' = dcors \<sigma> @ ds"
    and new: "\<forall>c \<in> set cs. cn_s c < length (scopes \<sigma>) \<and> cn_origS c < length (scopes \<sigma>)"
      "\<forall>d \<in> set ds. dn_s d < length (scopes \<sigma>)"
  shows "well_indexed \<sigma>'"
proof -
  have "wf_tree \<sigma>'"
    by (rule wf_tree_skel [OF _ well_indexed_tree [OF wf]]) (simp add: skel_def scopes)
  moreover have "valid_scope (length (ctors \<sigma>')) (length (dcors \<sigma>')) sc" if "sc \<in> set (scopes \<sigma>)" for sc
    using wf that by (auto simp: well_indexed_def nodes intro: valid_scope_mono)
  ultimately show ?thesis using wf new by (auto simp: well_indexed_def scopes nodes)
qed

lemma registering_append:
  assumes reg: "registering \<sigma>0 \<sigma>"
    and new: "\<forall>c \<in> set cs. cn_s c < length (scopes \<sigma>) \<and> cn_origS c < length (scopes \<sigma>) \<and> fresh_ctor c"
      "\<forall>d \<in> set ds. dn_s d < length (scopes \<sigma>) \<and> typed_dcor d"
  shows "registering \<sigma>0 (\<sigma>\<lparr>ctors := ctors \<sigma> @ cs, dcors := dcors \<sigma> @ ds\<rparr>)"
proof -
  let ?\<sigma>' = "\<sigma>\<lparr>ctors := ctors \<sigma> @ cs, dcors := dcors \<sigma> @ ds\<rparr>"
  have "well_indexed ?\<sigma>'"
    by (rule well_indexed_append [where \<sigma> = \<sigma> and cs = cs and ds = ds])
      (use reg new in \<open>simp_all add: registering_def\<close>)
  moreover have "skel ?\<sigma>' = skel \<sigma>" by (simp add: skel_def)
  moreover obtain cs' ds' where "ctors \<sigma> = ctors \<sigma>0 @ cs'" "dcors \<sigma> = dcors \<sigma>0 @ ds'"
    "\<forall>c \<in> set cs'. fresh_ctor c" "\<forall>d \<in> set ds'. typed_dcor d"
    using reg by (auto simp: registering_def)
  ultimately show ?thesis using reg new by (auto simp: registering_def)
qed

lemma registering_ctor:
  "registering \<sigma>0 \<sigma> \<Longrightarrow> cn_s node < length (scopes \<sigma>) \<Longrightarrow> cn_origS node < length (scopes \<sigma>) \<Longrightarrow> fresh_ctor node \<Longrightarrow>
   registering \<sigma>0 (\<sigma>\<lparr>ctors := ctors \<sigma> @ [node]\<rparr>)"
  using registering_append [of \<sigma>0 \<sigma> "[node]" "[]"] by simp

lemma registering_dcor:
  "registering \<sigma>0 \<sigma> \<Longrightarrow> dn_s node < length (scopes \<sigma>) \<Longrightarrow> typed_dcor node \<Longrightarrow>
   registering \<sigma>0 (\<sigma>\<lparr>dcors := dcors \<sigma> @ [node]\<rparr>)"
  using registering_append [of \<sigma>0 \<sigma> "[]" "[node]"] by simp

lemma triple_newParamList:
  assumes "c < length (scopes \<sigma>0)"
  shows "triple (registering \<sigma>0) (newParamList ctype c) (\<lambda>_. registering \<sigma>0) (registering \<sigma>0)"
  using assms by (intro triple_keeps [OF keeps_newParamList]) (rule registering_registers)

text \<open>The node constructors know the types of what they read.\<close>

lemma triple_newParamList_for:
  assumes "triple P (newParamList ctype c) Q F"
  shows "triple P (newParamList ctype c) (\<lambda>pl \<sigma>. Q pl \<sigma> \<and> params_for ctype pl) F"
proof (rule tripleI)
  fix \<sigma> assume "P \<sigma>"
  with assms show "post (\<lambda>pl \<sigma>. Q pl \<sigma> \<and> params_for ctype pl) F (newParamList ctype c \<sigma>)"
    using newParamList_for [of ctype c \<sigma>]
    by (cases "newParamList ctype c \<sigma>"; cases "fst (newParamList ctype c \<sigma>)") (auto simp: triple_def)
qed

lemma registering_newGraphNode:
  assumes reg: "registering \<sigma>0 \<sigma>" and s: "s < length (scopes \<sigma>0)" and new: "newGraphNode w s (\<sigma>, []) = (\<sigma>1, ords)"
  shows "registering \<sigma>0 \<sigma>1" and "ctors \<sigma>1 = ctors \<sigma>"
proof -
  have "registers s \<sigma> (\<sigma>1\<lparr>orderMaps := orderMaps \<sigma>1\<rparr>)" by (rule registers_newGraphNode [OF new])
  then have R: "registers s \<sigma> \<sigma>1" by simp
  then show "registering \<sigma>0 \<sigma>1" by (rule registering_registers [OF reg _ s])
  have "wf_tree \<sigma>" "s < length (scopes \<sigma>)"
    using reg s registering_length [OF reg] by (simp_all add: registering_def well_indexed_def)
  with R show "ctors \<sigma>1 = ctors \<sigma>" by (intro sans_graph_scopes(3)) (simp add: registers_def)
qed

lemma triple_newConstructorNode:
  assumes s: "s < length (scopes \<sigma>0)" and origS: "origS < length (scopes \<sigma>0)"
  shows "triple (registering \<sigma>0) (newConstructorNode ctor s origS opts)
    (\<lambda>n \<sigma>. registering \<sigma>0 \<sigma> \<and> n < length (ctors \<sigma>)) (registering \<sigma>0)"
  unfolding newConstructorNode_def
proof (rule triple_bindS [OF triple_newParamList_for [OF triple_newParamList [OF s]]], goal_cases)
  case (1 params)
  show ?case
  proof (rule triple_bindS [OF triple_liftS [where Q = "\<lambda>rl \<sigma>. registering \<sigma>0 \<sigma> \<and> params_for (fn_type ctor) params \<and>
      results_for (fn_type ctor) rl"]], goal_cases)
    case (3 results)
    show ?case
    proof (rule tripleI, goal_cases)
      case (1 \<sigma>)
      then have reg: "registering \<sigma>0 \<sigma>" and typed: "params_for (fn_type ctor) params" "results_for (fn_type ctor) results"
        by simp_all
      obtain \<sigma>1 ords where new: "newGraphNode (NCtor (length (ctors \<sigma>))) s (\<sigma>, []) = (\<sigma>1, ords)" by fastforce
      note reg1 = registering_newGraphNode [OF reg s new]
      show ?case
        using reg1(2) s origS registering_length [OF reg1(1)] registering_ctor [OF reg1(1)] typed
        by (simp add: new Let_def fresh_ctor_def typed_ctor_def)
    qed
  qed (auto dest: newResultList_for)
qed

text \<open>What \<open>provide\<close> does to the scopes once the constructor node \<open>n\<close> is there.\<close>

lemma set_AList_update: "set (AList.update k v m) \<subseteq> insert (k, v) (set m)"
  by (induction m) auto

lemma valid_scope_set:
  "valid_scope nc nd sc \<Longrightarrow> (\<forall>n \<in> set ns. n < nc) \<Longrightarrow>
     valid_scope nc nd (sc\<lparr>providers := AList.update k ns (providers sc)\<rparr>)"
  "valid_scope nc nd sc \<Longrightarrow> d < nd \<Longrightarrow> valid_scope nc nd (sc\<lparr>decorators := AList.update k d (decorators sc)\<rparr>)"
  "valid_scope nc nd sc \<Longrightarrow> n < nc \<Longrightarrow> valid_scope nc nd (sc\<lparr>nodes := nodes sc @ [n]\<rparr>)"
  "valid_scope nc nd (sc\<lparr>gh := g\<rparr>) = valid_scope nc nd sc"
  "valid_scope nc nd (sc\<lparr>isVerifiedAcyclic := b\<rparr>) = valid_scope nc nd sc"
  using set_AList_update [of k ns "providers sc"] set_AList_update [of k d "decorators sc"]
  by (fastforce simp: valid_scope_def)+

lemma registering_setProviders:
  "registering \<sigma>0 \<sigma> \<Longrightarrow> \<forall>n \<in> set ns. n < length (ctors \<sigma>) \<Longrightarrow> registering \<sigma>0 (setProviders s k ns \<sigma>)"
  unfolding setProviders_def by (rule registering_upd_scope) (simp_all add: valid_scope_set)

lemma registering_gh: "registering \<sigma>0 \<sigma> \<Longrightarrow> registering \<sigma>0 (upd_scope s (\<lambda>x. x\<lparr>gh := f (gh x)\<rparr>) \<sigma>)"
  by (rule registering_upd_scope) (simp_all add: valid_scope_set)

lemma registering_setVerified: "registering \<sigma>0 \<sigma> \<Longrightarrow> registering \<sigma>0 (setVerified s b \<sigma>)"
  unfolding setVerified_def by (rule registering_upd_scope) (simp_all add: valid_scope_set)

lemma fold_invariant: "P \<sigma> \<Longrightarrow> (\<And>x \<sigma>. x \<in> set xs \<Longrightarrow> P \<sigma> \<Longrightarrow> P (f x \<sigma>)) \<Longrightarrow> P (fold f xs \<sigma>)"
  by (induction xs arbitrary: \<sigma>) simp_all

lemma getProviders_valid:
  "registering \<sigma>0 \<sigma> \<Longrightarrow> s < length (scopes \<sigma>0) \<Longrightarrow> n \<in> set (getProviders \<sigma> s k) \<Longrightarrow> n < length (ctors \<sigma>)"
  using getProviders_less registering_length by (metis registering_def)

definition with_ctors :: "nat \<Rightarrow> store \<Rightarrow> store \<Rightarrow> bool" where
  "with_ctors nc \<sigma>0 \<sigma> \<longleftrightarrow> registering \<sigma>0 \<sigma> \<and> length (ctors \<sigma>) = nc"

lemma triple_verifyScope:
  assumes "\<And>k ops n. (k, ops) \<in> set old \<Longrightarrow> n \<in> set ops \<Longrightarrow> n < nc"
  shows "triple (with_ctors nc \<sigma>0) (verifyScope old s) (\<lambda>_. with_ctors nc \<sigma>0) (registering \<sigma>0)"
proof (rule tripleI)
  fix \<sigma> assume "with_ctors nc \<sigma>0 \<sigma>"
  then have now: "with_ctors nc \<sigma>0 (setVerified s b \<sigma>)" for b
    by (simp add: with_ctors_def registering_setVerified)
  have "with_ctors nc \<sigma>0 (fold (\<lambda>(k, ops). setProviders s k ops) old (setVerified s False \<sigma>))"
    by (rule fold_invariant [where P = "with_ctors nc \<sigma>0", OF now])
      (use assms in \<open>auto simp: with_ctors_def setProviders_def registering_setProviders [unfolded setProviders_def]\<close>)
  with now [of True] now [of False]
  show "post (\<lambda>_. with_ctors nc \<sigma>0) (registering \<sigma>0) (verifyScope old s \<sigma>)"
    by (auto simp: verifyScope_def with_ctors_def Let_def setVerified_setVerified split: option.split prod.split bool.split)
qed

lemma triple_registerCtor:
  assumes s: "s < length (scopes \<sigma>0)"
  shows "triple (\<lambda>\<sigma>. registering \<sigma>0 \<sigma> \<and> n < length (ctors \<sigma>)) (registerCtor s ts info n keys)
    (\<lambda>_. registering \<sigma>0) (registering \<sigma>0)"
proof (rule tripleI, elim conjE)
  fix \<sigma> assume reg: "registering \<sigma>0 \<sigma>" and n: "n < length (ctors \<sigma>)"
  let ?old = "map (\<lambda>k. (k, getProviders \<sigma> s k)) keys"
  have "with_ctors (length (ctors \<sigma>)) \<sigma>0 (fold (addProvider s n) keys \<sigma>)"
  proof (rule fold_invariant)
    fix k \<sigma>1 assume 1: "with_ctors (length (ctors \<sigma>)) \<sigma>0 \<sigma>1"
    then have "\<forall>m \<in> set (getProviders \<sigma>1 s k @ [n]). m < length (ctors \<sigma>1)"
      using n getProviders_valid [OF _ s, of \<sigma>1] by (auto simp: with_ctors_def)
    with 1 show "with_ctors (length (ctors \<sigma>)) \<sigma>0 (addProvider s n k \<sigma>1)"
      unfolding with_ctors_def addProvider_def
      by (intro conjI registering_setProviders) (simp_all add: setProviders_def)
  qed (simp add: with_ctors_def reg)
  moreover have "triple (with_ctors (length (ctors \<sigma>)) \<sigma>0) (forS (verifyScope ?old) ts)
      (\<lambda>_. with_ctors (length (ctors \<sigma>)) \<sigma>0) (registering \<sigma>0)"
    by (intro triple_forS triple_verifyScope) (use getProviders_valid [OF reg s] in auto)
  ultimately have post: "post (\<lambda>_. with_ctors (length (ctors \<sigma>)) \<sigma>0) (registering \<sigma>0)
      (forS (verifyScope ?old) ts (fold (addProvider s n) keys \<sigma>))" by (rule tripleD [rotated])
  show "post (\<lambda>_. registering \<sigma>0) (registering \<sigma>0) (registerCtor s ts info n keys \<sigma>)"
    unfolding registerCtor_def Let_def
    by (rule post_bindS, rule post, rule tripleI)
      (auto simp: with_ctors_def n intro!: registering_upd_scope valid_scope_set)
qed

lemma triple_provide:
  assumes wf: "well_indexed \<sigma>0" and s: "s < length (scopes \<sigma>0)"
  shows "post (\<lambda>_. registering \<sigma>0) (registering \<sigma>0) (provide f opts s \<sigma>0)"
proof -
  let ?c = "if poExported opts then rootScope \<sigma>0 s else s"
  let ?ts = "appendSubscopes \<sigma>0 ?c []"
  have c: "?c < length (scopes \<sigma>0)"
    using provideScope_less [OF well_indexed_tree [OF wf] s, of opts] by (simp add: provideScope_def)
  have snap: "registering \<sigma>0 (snapshotAll ?ts \<sigma>0)" and roll: "registering \<sigma>0 \<sigma> \<Longrightarrow> registering \<sigma>0 (rollbackAll ?ts \<sigma>)" for \<sigma>
    unfolding snapshotAll_def rollbackAll_def
    by (rule fold_invariant; use registering_refl [OF wf] in \<open>simp add: registering_gh\<close>)+
  have "triple (registering \<sigma>0) (provideBody f opts ?c s ?ts) (\<lambda>_. registering \<sigma>0) (registering \<sigma>0)"
    unfolding provideBody_def
  proof (rule triple_bindS [OF triple_newConstructorNode [OF c s]], goal_cases)
    case (1 n)
    show ?case
      by (rule triple_bindS [OF triple_read [where Q = "\<lambda>_ \<sigma>. registering \<sigma>0 \<sigma> \<and> n < length (ctors \<sigma>)"]])
        (use triple_registerCtor [OF c] in \<open>auto simp: triple_def\<close>)
  qed
  from tripleD [OF this snap] roll show ?thesis
    by (cases "provideBody f opts ?c s ?ts (snapshotAll ?ts \<sigma>0)"; cases "fst (provideBody f opts ?c s ?ts (snapshotAll ?ts \<sigma>0))")
      (simp_all add: provide_def Let_def)
qed

subsection \<open>Decorate and Invoke\<close>

lemma triple_newDecoratorNode:
  assumes s: "s < length (scopes \<sigma>0)"
  shows "triple (registering \<sigma>0) (newDecoratorNode f s cb bcb)
    (\<lambda>d \<sigma>. registering \<sigma>0 \<sigma> \<and> d < length (dcors \<sigma>)) (registering \<sigma>0)"
  unfolding newDecoratorNode_def
proof (rule triple_bindS [OF triple_newParamList_for [OF triple_newParamList [OF s]]], goal_cases)
  case (1 params)
  show ?case
  proof (rule triple_bindS [OF triple_liftS [where Q = "\<lambda>rl \<sigma>. registering \<sigma>0 \<sigma> \<and> params_for (fn_type f) params \<and>
      results_for (fn_type f) rl"]], goal_cases)
    case (3 results)
    show ?case
      by (rule tripleI) (use s registering_length registering_dcor in \<open>auto simp: Let_def typed_dcor_def\<close>)
  qed (auto dest: newResultList_for)
qed

lemma triple_decorateKey:
  "triple (\<lambda>\<sigma>. registering \<sigma>0 \<sigma> \<and> d < length (dcors \<sigma>)) (decorateKey s d k)
    (\<lambda>_ \<sigma>. registering \<sigma>0 \<sigma> \<and> d < length (dcors \<sigma>)) (registering \<sigma>0)"
  by (rule tripleI)
    (auto simp: decorateKey_def setDecorator_def intro!: registering_upd_scope valid_scope_set)

lemma triple_Decorate:
  assumes s: "s < length (scopes \<sigma>0)"
  shows "triple (registering \<sigma>0) (Decorate s f opts) (\<lambda>_. registering \<sigma>0) (registering \<sigma>0)"
proof (cases f)
  case (IFunc fn)
  let ?P = "\<lambda>d \<sigma>. registering \<sigma>0 \<sigma> \<and> d < length (dcors \<sigma>)"
  have rest: "triple (?P d) (bindS (\<lambda>\<sigma>. (findResultKeys (dn_results (dcor_of \<sigma> d)), \<sigma>)) (\<lambda>keys.
      bindS (forS (decorateKey s d) keys) (\<lambda>_ \<sigma>. (Ret (h \<sigma> d), \<sigma>)))) (\<lambda>_. registering \<sigma>0) (registering \<sigma>0)"
    for d and h :: "store \<Rightarrow> nat \<Rightarrow> ProvideInfo option"
    by (rule triple_bindS [OF triple_read [where Q = "\<lambda>_. ?P d"]],
        simp_all, rule triple_bindS [OF triple_forS [OF triple_decorateKey]], simp add: triple_def)
  show ?thesis
    unfolding Decorate_def IFunc iface.case Let_def
    by (rule triple_bindS [OF triple_newDecoratorNode [OF s]], rule rest)
qed (simp_all add: Decorate_def triple_def)

lemma triple_Provide:
  assumes wf: "well_indexed \<sigma>" and s: "s < length (scopes \<sigma>)"
  shows "post (\<lambda>_. registering \<sigma>) (registering \<sigma>) (Provide s f opts \<sigma>)"
  using triple_provide [OF assms] registering_refl [OF wf]
  by (cases f) (simp_all add: Provide_def Let_def post_wrapS split: option.split)

lemma triple_verifyAcyclic:
  "triple (registering \<sigma>0) (verifyAcyclic s) (\<lambda>_. registering \<sigma>0) (registering \<sigma>0)"
  by (rule tripleI)
    (auto simp: verifyAcyclic_def intro!: registering_upd_scope simp: valid_scope_set
      split: option.split prod.split bool.split)

subsection \<open>New containers and scopes\<close>

lemma well_indexed_New: "well_indexed (New opts)"
proof -
  have "wf_tree empty_store" using wf_tree_New [of "[]"] by (simp add: New_def)
  then have "well_indexed empty_store"
    by (simp add: well_indexed_def valid_scope_def empty_store_def newScope_def)
  have "well_indexed (fold applyOption opts empty_store)"
  proof (rule fold_invariant [where P = well_indexed])
    fix opt \<sigma> assume "well_indexed \<sigma>"
    then show "well_indexed (applyOption opt \<sigma>)"
      by (cases opt; simp only: applyOption.simps; rule well_indexed_upd_scope; simp add: valid_scope_def)
  qed (rule \<open>well_indexed empty_store\<close>)
  then show ?thesis by (simp add: New_def)
qed

lemma copyNodeOrders_frame [frame]:
  "scopes (fold (copyNodeOrder s c) ws \<sigma>) = scopes \<sigma>" "dcors (fold (copyNodeOrder s c) ws \<sigma>) = dcors \<sigma>"
  "log (fold (copyNodeOrder s c) ws \<sigma>) = log \<sigma>"
  "length (ctors (fold (copyNodeOrder s c) ws \<sigma>)) = length (ctors \<sigma>)"
  by (rule fold_frame, simp add: copyNodeOrder_def CopyOrder_def split: gnode.split)+

lemma copyNodeOrders_ctor:
  "n < length (ctors \<sigma>) \<Longrightarrow>
   \<exists>ords. ctor_of (fold (copyNodeOrder s c) ws \<sigma>) n = (ctor_of \<sigma> n)\<lparr>cn_orders := ords\<rparr>"
proof (induction ws arbitrary: \<sigma>)
  case Nil
  show ?case by (rule exI [of _ "cn_orders (ctor_of \<sigma> n)"]) simp
next
  case (Cons w ws)
  have "\<exists>ords. ctor_of (copyNodeOrder s c w \<sigma>) n = (ctor_of \<sigma> n)\<lparr>cn_orders := ords\<rparr>"
  proof (cases w)
    case (NCtor m)
    with Cons.prems show ?thesis
      by (cases "m = n")
        (auto simp: copyNodeOrder_def CopyOrder_def upd_ctor_def intro: exI [of _ "cn_orders (ctor_of \<sigma> n)"])
  qed (auto simp: copyNodeOrder_def intro: exI [of _ "cn_orders (ctor_of \<sigma> n)"])
  moreover have "length (ctors (copyNodeOrder s c w \<sigma>)) = length (ctors \<sigma>)"
    by (simp add: copyNodeOrder_def CopyOrder_def split: gnode.split)
  ultimately show ?case using Cons.IH [of "copyNodeOrder s c w \<sigma>"] Cons.prems by auto
qed

lemma ScopeScope_scopes:
  "scopes (snd (ScopeScope s name \<sigma>)) =
     (scopes \<sigma>)[s := (scope_of \<sigma> s)\<lparr>childScopes := childScopes (scope_of \<sigma> s) @ [length (scopes \<sigma>)]\<rparr>] @
     [newScope\<lparr>sc_name := name, parentScope := Some s, invokerFn := invokerFn (scope_of \<sigma> s),
        deferAcyclicVerification := deferAcyclicVerification (scope_of \<sigma> s),
        recoverFromPanics := recoverFromPanics (scope_of \<sigma> s),
        gh := newGraphHolder\<lparr>gh_nodes := gh_nodes (gh (scope_of \<sigma> s))\<rparr>\<rparr>]"
  by (simp add: ScopeScope_def Let_def frame upd_scope_def)

lemma ScopeScope_ctors:
  "ctors (snd (ScopeScope s name \<sigma>)) =
     ctors (fold (copyNodeOrder s (length (scopes \<sigma>))) (gh_nodes (gh (scope_of \<sigma> s))) \<sigma>)"
  by (simp add: ScopeScope_def Let_def)

lemma ScopeScope_frame:
  fixes \<sigma> s name defines "\<sigma>' \<equiv> snd (ScopeScope s name \<sigma>)"
  shows "length (scopes \<sigma>') = Suc (length (scopes \<sigma>))"
    and "t < length (scopes \<sigma>) \<Longrightarrow> scope_of \<sigma>' t =
      (scope_of \<sigma> t)\<lparr>childScopes := childScopes (scope_of \<sigma> t) @ (if t = s then [length (scopes \<sigma>)] else [])\<rparr>"
    and "parentScope (scope_of \<sigma>' (length (scopes \<sigma>))) = Some s"
    and "childScopes (scope_of \<sigma>' (length (scopes \<sigma>))) = []"
    and "valid_scope nc nd (scope_of \<sigma>' (length (scopes \<sigma>)))"
    and "dcors \<sigma>' = dcors \<sigma>" and "log \<sigma>' = log \<sigma>" and "length (ctors \<sigma>') = length (ctors \<sigma>)"
    and "n < length (ctors \<sigma>) \<Longrightarrow> \<exists>ords. ctor_of \<sigma>' n = (ctor_of \<sigma> n)\<lparr>cn_orders := ords\<rparr>"
proof -
  show "dcors \<sigma>' = dcors \<sigma>" and "log \<sigma>' = log \<sigma>"
    by (simp_all add: \<sigma>'_def ScopeScope_def Let_def frame)
  show "n < length (ctors \<sigma>) \<Longrightarrow> \<exists>ords. ctor_of \<sigma>' n = (ctor_of \<sigma> n)\<lparr>cn_orders := ords\<rparr>"
    unfolding \<sigma>'_def ScopeScope_ctors by (rule copyNodeOrders_ctor)
qed (simp_all add: \<sigma>'_def ScopeScope_scopes ScopeScope_ctors frame nth_append nth_list_update
    valid_scope_def newScope_def)

lemma wf_tree_ScopeScope:
  assumes wf: "wf_tree \<sigma>" and s: "s < length (scopes \<sigma>)"
  shows "wf_tree (snd (ScopeScope s name \<sigma>))"
proof -
  let ?\<sigma>' = "snd (ScopeScope s name \<sigma>)" and ?L = "length (scopes \<sigma>)"
  note new = ScopeScope_frame(1,3,4) [of s name \<sigma>]
  have old: "parentScope (scope_of ?\<sigma>' t) = parentScope (scope_of \<sigma> t)"
    "childScopes (scope_of ?\<sigma>' t) = childScopes (scope_of \<sigma> t) @ (if t = s then [?L] else [])" if "t < ?L" for t
    using ScopeScope_frame(2) [OF that, where s = s and name = name] by simp_all
  show ?thesis
    unfolding wf_tree_def new(1)
  proof (intro conjI allI impI ballI)
    fix t assume t: "t < Suc ?L"
    show "(parentScope (scope_of ?\<sigma>' t) = None) = (t = 0)"
      using t old(1) [of t] new(2) wf_tree_root [OF wf, of t] s by (cases "t = ?L") auto
    show "distinct (childScopes (scope_of ?\<sigma>' t))"
      using t old(2) [of t] new(3) wf_tree_distinct [OF wf, of t] wf_tree_child(1) [OF wf, of t ?L]
      by (cases "t = ?L") auto
    fix p assume p: "parentScope (scope_of ?\<sigma>' t) = Some p"
    show "p < t" "t \<in> set (childScopes (scope_of ?\<sigma>' p))"
    proof -
      have "p < t \<and> t \<in> set (childScopes (scope_of ?\<sigma>' p))"
      proof (cases "t = ?L")
        case True
        then have "p = s" using p new(2) by simp
        with True s old(2) [OF s] show ?thesis by simp
      next
        case False
        then have t': "t < ?L" using t by simp
        with p old(1) have "parentScope (scope_of \<sigma> t) = Some p" by simp
        from wf_tree_parent [OF wf t' this] t' old(2) [of p] show ?thesis by simp
      qed
      then show "p < t" "t \<in> set (childScopes (scope_of ?\<sigma>' p))" by simp_all
    qed
  next
    fix t u assume t: "t < Suc ?L" and u: "u \<in> set (childScopes (scope_of ?\<sigma>' t))"
    then have t': "t < ?L" using new(3) by (cases "t = ?L") auto
    with u old(2) have "u \<in> set (childScopes (scope_of \<sigma> t)) \<or> u = ?L \<and> t = s" by (auto split: if_splits)
    then have "u < Suc ?L \<and> parentScope (scope_of ?\<sigma>' u) = Some t"
      using wf_tree_child [OF wf t', of u] old(1) [of u] new(2) by auto
    then show "u < Suc ?L" "parentScope (scope_of ?\<sigma>' u) = Some t" by simp_all
  qed simp
qed

lemma well_indexed_ScopeScope:
  assumes wf: "well_indexed \<sigma>" and s: "s < length (scopes \<sigma>)"
  shows "well_indexed (snd (ScopeScope s name \<sigma>))"
proof -
  let ?\<sigma>' = "snd (ScopeScope s name \<sigma>)"
  note new = ScopeScope_frame [where s = s and name = name and \<sigma> = \<sigma>]
  have "valid_scope (length (ctors \<sigma>)) (length (dcors \<sigma>)) sc" if "sc \<in> set (scopes ?\<sigma>')" for sc
  proof -
    from that obtain t where t: "t < Suc (length (scopes \<sigma>))" "sc = scope_of ?\<sigma>' t"
      by (auto simp: in_set_conv_nth new(1))
    show ?thesis
    proof (cases "t = length (scopes \<sigma>)")
      case False
      with t have "t < length (scopes \<sigma>)" by simp
      from ScopeScope_frame(2) [OF this, where s = s and name = name] well_indexed_scope [OF wf this]
      show ?thesis by (simp add: t valid_scope_def)
    qed (simp add: t new(5))
  qed
  moreover have "cn_s (ctor_of ?\<sigma>' n) < length (scopes \<sigma>) \<and> cn_origS (ctor_of ?\<sigma>' n) < length (scopes \<sigma>)"
    if "n < length (ctors \<sigma>)" for n
    using ScopeScope_frame(9) [OF that, where s = s and name = name] well_indexed_ctor [OF wf that] by auto
  then have "\<forall>c \<in> set (ctors ?\<sigma>'). cn_s c < Suc (length (scopes \<sigma>)) \<and> cn_origS c < Suc (length (scopes \<sigma>))"
    by (auto simp: in_set_conv_nth new(8) less_SucI)
  moreover have "\<forall>d \<in> set (dcors \<sigma>). dn_s d < Suc (length (scopes \<sigma>))"
    using wf by (simp add: well_indexed_def less_SucI)
  ultimately show ?thesis
    unfolding well_indexed_def new(1,6,8)
    using wf_tree_ScopeScope [OF well_indexed_tree [OF wf] s] by blast
qed

lemma well_indexed_static:
  assumes eq: "static \<sigma>' = static \<sigma>" and wf: "well_indexed \<sigma>"
  shows "well_indexed \<sigma>'"
proof -
  note len = static_lengths [OF eq]
  have "wf_tree \<sigma>'" by (rule wf_tree_skel [OF static_skel [OF eq [symmetric]] well_indexed_tree [OF wf]])
  moreover have "valid_scope (length (ctors \<sigma>)) (length (dcors \<sigma>)) sc" if "sc \<in> set (scopes \<sigma>')" for sc
  proof -
    from that obtain s where s: "s < length (scopes \<sigma>)" "sc = scope_of \<sigma>' s" by (auto simp: in_set_conv_nth len)
    have "nodes sc = nodes (scope_of \<sigma> s)"
      using arg_cong [OF static_nth(1) [OF eq s(1)], of nodes] by (simp add: static_scope_def s(2))
    with well_indexed_scope [OF wf s(1)] static_scope_eq(1,2) [OF static_nth(1) [OF eq s(1)]] show ?thesis
      by (simp add: valid_scope_def s(2))
  qed
  moreover have "cn_s c < length (scopes \<sigma>) \<and> cn_origS c < length (scopes \<sigma>)" if "c \<in> set (ctors \<sigma>')" for c
    using that well_indexed_ctor [OF wf] static_ctor_eq(1,2) [OF static_nth(2) [OF eq]]
    by (auto simp: in_set_conv_nth len)
  moreover have "dn_s d < length (scopes \<sigma>)" if "d \<in> set (dcors \<sigma>')" for d
    using that well_indexed_dcor [OF wf] static_dcor_eq(1) [OF static_nth(3) [OF eq]]
    by (auto simp: in_set_conv_nth len)
  ultimately show ?thesis by (simp add: well_indexed_def len)
qed

end
