(* ===== verification/Runs.thy ===== *)
theory Runs
  imports Indices
begin

text \<open>
  Invariants of a run (src/param.go): a predicate on stores that the calls of nodes keep is kept by
  building parameters. What is assumed of the calls is what the code can use: providers of the keys
  that the parameter reads, decorators that are not on the stack, scopes on the way to the root. The
  flag \<open>D\<close> says whether running out of fuel is allowed, so the same lemmas serve for
  termination and for safety.
\<close>

subsection \<open>Code that ends and keeps an invariant\<close>

definition fine_at :: "bool \<Rightarrow> ('s \<Rightarrow> bool) \<Rightarrow> 's \<Rightarrow> ('s, 'a) eff \<Rightarrow> bool" where
  "fine_at D I \<sigma> m \<longleftrightarrow> (fst (m \<sigma>) = Diverged \<longrightarrow> D) \<and> I (snd (m \<sigma>))"

definition fine :: "bool \<Rightarrow> ('s \<Rightarrow> bool) \<Rightarrow> ('s, 'a) eff \<Rightarrow> bool" where
  "fine D I m \<longleftrightarrow> (\<forall>\<sigma>. I \<sigma> \<longrightarrow> fine_at D I \<sigma> m)"

lemma fineI: "(\<And>\<sigma>. I \<sigma> \<Longrightarrow> fine_at D I \<sigma> m) \<Longrightarrow> fine D I m"
  by (simp add: fine_def)

lemma fineD: "fine D I m \<Longrightarrow> I \<sigma> \<Longrightarrow> fine_at D I \<sigma> m"
  by (simp add: fine_def)

lemma fine_at_bindS_weaken:
  "fine_at D I \<sigma> m \<Longrightarrow> (\<And>a \<sigma>. I \<sigma> \<Longrightarrow> fine_at D K \<sigma> (f a)) \<Longrightarrow> (\<And>\<sigma>. I \<sigma> \<Longrightarrow> K \<sigma>) \<Longrightarrow>
   fine_at D K \<sigma> (bindS m f)"
  by (cases "m \<sigma>"; cases "fst (m \<sigma>)") (auto simp: fine_at_def bindS_def)

lemma fine_at_bindS: "fine_at D I \<sigma> m \<Longrightarrow> (\<And>a. fine D I (f a)) \<Longrightarrow> fine_at D I \<sigma> (bindS m f)"
  by (cases "m \<sigma>"; cases "fst (m \<sigma>)") (auto simp: fine_at_def fine_def bindS_def)

lemma fine_bindS [fine_intros]: "fine D I m \<Longrightarrow> (\<And>a. fine D I (f a)) \<Longrightarrow> fine D I (bindS m f)"
  by (auto intro: fineI fine_at_bindS dest: fineD)

lemma fine_at_wrapS: "fine_at D I \<sigma> m \<Longrightarrow> fine_at D I \<sigma> (wrapS w m)"
  by (cases "m \<sigma>"; cases "fst (m \<sigma>)") (auto simp: fine_at_def wrapS_def)

lemma fine_wrapS [fine_intros]: "fine D I m \<Longrightarrow> fine D I (wrapS w m)"
  by (auto intro: fineI fine_at_wrapS dest: fineD)

lemma fine_at_pure: "I \<sigma> \<Longrightarrow> r \<sigma> \<noteq> Diverged \<Longrightarrow> fine_at D I \<sigma> (\<lambda>\<sigma>. (r \<sigma>, \<sigma>))"
  by (simp add: fine_at_def)

lemma fine_pure: "(\<And>\<sigma>. r \<sigma> \<noteq> Diverged) \<Longrightarrow> fine D I (\<lambda>\<sigma>. (r \<sigma>, \<sigma>))"
  by (simp add: fine_def fine_at_def)

lemma fine_retS [fine_intros]: "fine D I (retS a)" and fine_throwS [fine_intros]: "fine D I (throwS e)" and fine_panicS [fine_intros]: "fine D I (panicS p)"
  by (simp_all add: fine_def fine_at_def)

lemma fine_forS [fine_intros]: "(\<And>x. x \<in> set xs \<Longrightarrow> fine D I (f x)) \<Longrightarrow> fine D I (forS f xs)"
  by (induction xs) (auto simp del: retS_app intro!: fine_bindS fine_retS)

lemma fine_mapS [fine_intros]: "(\<And>x. x \<in> set xs \<Longrightarrow> fine D I (f x)) \<Longrightarrow> fine D I (mapS f xs)"
  by (induction xs) (auto simp del: retS_app intro!: fine_bindS fine_retS)

subsection \<open>Building ends when the calls it makes end\<close>

text \<open>The providers that building a parameter at a container may call.\<close>

fun callees :: "store \<Rightarrow> nat \<Rightarrow> param \<Rightarrow> nat set" where
  "callees \<sigma> c (paramSingle name optional t) = (\<Union>s \<in> set (storesToRoot \<sigma> c). set (getValueProviders \<sigma> s name t))"
| "callees \<sigma> c (paramGroupedSlice g t soft oid) =
     (if soft then {} else \<Union>s \<in> set (storesToRoot \<sigma> c). set (getGroupProviders \<sigma> s g (elemT t)))"
| "callees \<sigma> c (paramObject t fs) = (\<Union>f \<in> set fs. callees \<sigma> c (pofParam f))"

text \<open>
  What building at \<open>c\<close> needs: the invariant determines the stores up to the root, drawing a
  permutation keeps it, and the calls of the providers \<open>N\<close> and of decorators that are not on the stack
  end and keep it.
\<close>

definition calls_fine :: "bool \<Rightarrow> (store \<Rightarrow> bool) \<Rightarrow> call \<Rightarrow> call \<Rightarrow> nat \<Rightarrow> nat list \<Rightarrow> nat set \<Rightarrow> bool" where
  "calls_fine D I cC cD c S N \<longleftrightarrow>
     (\<forall>\<sigma>. I \<sigma> \<longrightarrow> storesToRoot \<sigma> c = S \<and>
        (\<forall>s. I (upd_scope s (\<lambda>sc. sc\<lparr>rand := Suc (rand sc)\<rparr>) \<sigma>)) \<and>
        (\<forall>n \<in> N. fine_at D I \<sigma> (cC n (cn_origS (ctor_of \<sigma> n)))) \<and>
        (\<forall>s \<in> set S. \<forall>k d. getDecorators \<sigma> s k = Some d \<longrightarrow> dn_state (dcor_of \<sigma> d) \<noteq> decoratorOnStack \<longrightarrow>
           fine_at D I \<sigma> (cD d s)))"

lemma calls_fineD:
  assumes "calls_fine D I cC cD c S N" and "I \<sigma>"
  shows "storesToRoot \<sigma> c = S" and "I (upd_scope s (\<lambda>sc. sc\<lparr>rand := Suc (rand sc)\<rparr>) \<sigma>)"
    and "n \<in> N \<Longrightarrow> fine_at D I \<sigma> (cC n (cn_origS (ctor_of \<sigma> n)))"
    and "s \<in> set S \<Longrightarrow> getDecorators \<sigma> s k = Some d \<Longrightarrow> dn_state (dcor_of \<sigma> d) \<noteq> decoratorOnStack \<Longrightarrow>
      fine_at D I \<sigma> (cD d s)"
  using assms unfolding calls_fine_def by blast+

lemma findDecorator_Some:
  "findDecorator \<sigma> name t ss = Some (d, s) \<Longrightarrow>
     s \<in> set ss \<and> getDecorators \<sigma> s (value_key name t) = Some d \<and> dn_state (dcor_of \<sigma> d) \<noteq> decoratorOnStack"
  by (induction ss) (auto simp: getValueDecorator_def split: option.splits if_splits)

lemma findProviding_Provided:
  "findProviding \<sigma> name t ss = Provided s ns \<Longrightarrow> s \<in> set ss \<and> ns = getValueProviders \<sigma> s name t"
  by (induction ss) (auto simp: Let_def split: option.splits if_splits)

lemma fine_callProviders:
  assumes "calls_fine D I cC cD c S N" and "set ns \<subseteq> N"
  shows "fine D I (callProviders cC name optional t ns)"
  using assms(2)
proof (induction ns)
  case (Cons n ns)
  show ?case
  proof (rule fineI)
    fix \<sigma> assume I: "I \<sigma>"
    obtain r \<sigma>' where call: "cC n (cn_origS (ctor_of \<sigma> n)) \<sigma> = (r, \<sigma>')" by fastforce
    with calls_fineD(3) [OF assms(1) I, of n] Cons.prems have "r = Diverged \<longrightarrow> D" and I': "I \<sigma>'"
      by (simp_all add: fine_at_def)
    with fineD [OF Cons.IH I'] Cons.prems show "fine_at D I \<sigma> (callProviders cC name optional t (n # ns))"
      by (cases r) (simp_all add: fine_at_def call)
  qed
qed (simp add: fine_def fine_at_def)

lemma fine_buildSingle:
  assumes ok: "calls_fine D I cC cD c S N" and N: "\<And>\<sigma>. I \<sigma> \<Longrightarrow> callees \<sigma> c (paramSingle name optional t) \<subseteq> N"
  shows "fine D I (buildSingle cC cD name optional t c)"
proof -
  have dec: "fine D I (buildWithDecorators cD name t c)"
  proof (rule fineI)
    fix \<sigma> assume I: "I \<sigma>"
    show "fine_at D I \<sigma> (buildWithDecorators cD name t c)"
    proof (cases "findDecorator \<sigma> name t (storesToRoot \<sigma> c)")
      case (Some ds)
      obtain d s where ds: "ds = (d, s)" by (cases ds)
      have "fine_at D I \<sigma> (cD d s)"
        using findDecorator_Some [OF Some [unfolded ds]] calls_fineD [OF ok I] by metis
      then have "fine_at D I \<sigma> (bindS (wrapS (\<lambda>e. EParamSingleFailed (value_key name t) e 1) (cD d s))
          (\<lambda>_ \<sigma>'. (Ret (Some (orNoValue (getDecoratedValue \<sigma>' s name t))), \<sigma>')))"
        by (intro fine_at_bindS fine_at_wrapS fine_pure) simp_all
      then show ?thesis by (simp add: fine_at_def buildWithDecorators_def Some ds)
    qed (simp add: fine_at_def buildWithDecorators_def I)
  qed
  have "fine D I (buildFromProviders cC name optional t c)"
  proof (rule fineI)
    fix \<sigma> assume I: "I \<sigma>"
    have "fine D I (\<lambda>\<sigma>'. if b then (Ret (orNoValue (getValue \<sigma>' s name t)), \<sigma>') else (Ret (VZero t), \<sigma>'))" for b s
      by (simp add: fine_def fine_at_def)
    moreover have "fine D I (callProviders cC name optional t ns)"
      if "findProviding \<sigma> name t (storesToRoot \<sigma> c) = Provided s ns" for s ns
      using findProviding_Provided [OF that] N [OF I] by (intro fine_callProviders [OF ok]) auto
    ultimately have "fine_at D I \<sigma> (bindS (callProviders cC name optional t ns) (\<lambda>b \<sigma>'.
        if b then (Ret (orNoValue (getValue \<sigma>' s name t)), \<sigma>') else (Ret (VZero t), \<sigma>')))"
      if "findProviding \<sigma> name t (storesToRoot \<sigma> c) = Provided s ns" for s ns
      using that I by (intro fineD [OF fine_bindS])
    with I show "fine_at D I \<sigma> (buildFromProviders cC name optional t c)"
      by (auto simp: fine_at_def buildFromProviders_def split: option.split search.split)
  qed
  with dec show ?thesis
    unfolding buildSingle_def by (intro fine_bindS) (auto simp del: retS_app split: option.split intro: fine_retS)
qed

lemma fine_here: "(\<And>\<sigma>. I \<sigma> \<Longrightarrow> fine D I (f \<sigma>)) \<Longrightarrow> fine D I (\<lambda>\<sigma>. f \<sigma> \<sigma>)"
  by (simp add: fine_def fine_at_def)

lemma fine_callGroupDecorators:
  assumes ok: "calls_fine D I cC cD c S N"
  shows "fine D I (callGroupDecorators cD g t c)"
proof -
  let ?step = "\<lambda>s \<sigma>'.
      case getGroupDecorator \<sigma>' s g (elemT t) of
        None \<Rightarrow> (Ret (), \<sigma>')
      | Some d \<Rightarrow>
          if dn_state (dcor_of \<sigma>' d) = decoratorOnStack then (Ret (), \<sigma>')
          else wrapS (\<lambda>e. EParamGroupFailed (group_key g (elemT t)) e (dn_id (dcor_of \<sigma>' d)))
                 (cD d s) \<sigma>'"
  have step: "fine D I (?step s)" if s: "s \<in> set S" for s
  proof (rule fineI)
    fix \<sigma> assume I: "I \<sigma>"
    show "fine_at D I \<sigma> (?step s)"
    proof (cases "getGroupDecorator \<sigma> s g (elemT t)")
      case (Some d)
      show ?thesis
      proof (cases "dn_state (dcor_of \<sigma> d) = decoratorOnStack")
        case False
        with calls_fineD(4) [OF ok I s _ False] Some have "fine_at D I \<sigma> (cD d s)"
          by (simp add: getGroupDecorator_def)
        from fine_at_wrapS [OF this] Some False show ?thesis by (simp add: fine_at_def)
      qed (simp add: fine_at_def Some I)
    qed (simp add: fine_at_def I)
  qed
  have "fine D I (forS ?step (rev (storesToRoot \<sigma> c)))" if "I \<sigma>" for \<sigma>
    using step by (intro fine_forS) (simp add: calls_fineD(1) [OF ok that])
  then show ?thesis unfolding callGroupDecorators_def by (rule fine_here)
qed

lemma fine_callGroupProviders:
  assumes ok: "calls_fine D I cC cD c S N"
    and N: "\<And>\<sigma> s. I \<sigma> \<Longrightarrow> s \<in> set S \<Longrightarrow> set (getGroupProviders \<sigma> s g (elemT t)) \<subseteq> N"
  shows "fine D I (callGroupProviders cC g t c)"
proof -
  let ?one = "\<lambda>n \<sigma>''. wrapS (\<lambda>e. EParamGroupFailed (group_key g (elemT t)) e (cn_id (ctor_of \<sigma>'' n)))
        (cC n (cn_origS (ctor_of \<sigma>'' n))) \<sigma>''"
  have one: "fine D I (?one n)" if "n \<in> N" for n
  proof (rule fineI)
    fix \<sigma> assume "I \<sigma>"
    from fine_at_wrapS [OF calls_fineD(3) [OF ok this that]]
    show "fine_at D I \<sigma> (?one n)" by (simp add: fine_at_def)
  qed
  have inner: "fine D I (\<lambda>\<sigma>'. forS ?one (getGroupProviders \<sigma>' s g (elemT t)) \<sigma>')" if "s \<in> set S" for s
    by (rule fine_here, rule fine_forS, rule one) (use N that in blast)
  have "fine D I (forS (\<lambda>s \<sigma>'. forS ?one (getGroupProviders \<sigma>' s g (elemT t)) \<sigma>') (storesToRoot \<sigma> c))"
    if "I \<sigma>" for \<sigma>
    by (intro fine_forS inner) (simp add: calls_fineD(1) [OF ok that])
  then show ?thesis unfolding callGroupProviders_def by (rule fine_here)
qed

lemma fine_buildGroup:
  assumes ok: "calls_fine D I cC cD c S N" and N: "\<And>\<sigma>. I \<sigma> \<Longrightarrow> callees \<sigma> c (paramGroupedSlice g t soft oid) \<subseteq> N"
  shows "fine D I (buildGroup E cC cD g t soft c)"
proof -
  have prov: "fine D I (callGroupProviders cC g t c)" if "\<not> soft"
    using N calls_fineD(1) [OF ok] that by (intro fine_callGroupProviders [OF ok]) fastforce
  let ?collect = "\<lambda>\<sigma>'. bindS (mapS (\<lambda>s. getValueGroup E s g (elemT t)) (storesToRoot \<sigma>' c))
      (\<lambda>vss. retS (VSlice t (concat vss))) \<sigma>'"
  have "fine D I (getValueGroup E s g (elemT t))" for s
    using calls_fineD(2) [OF ok] by (simp add: fine_def fine_at_def getValueGroup_def Let_def)
  then have "fine D I (bindS (mapS (\<lambda>s. getValueGroup E s g (elemT t)) ss) (\<lambda>vss. retS (VSlice t (concat vss))))"
    for ss by (intro fine_intros)
  then have "fine D I ?collect" by (rule fine_here)
  then have "fine D I (bindS (if soft then retS () else callGroupProviders cC g t c) (\<lambda>_. ?collect))"
    using prov by (intro fine_bindS) (auto simp del: retS_app intro: fine_retS)
  note fineD [OF this]
  then have "fine D I (\<lambda>\<sigma>. case firstSome (\<lambda>s. getDecoratedValueGroup \<sigma> s g t) (storesToRoot \<sigma> c) of
         Some v \<Rightarrow> (Ret v, \<sigma>)
       | None \<Rightarrow> bindS (if soft then retS () else callGroupProviders cC g t c) (\<lambda>_. ?collect) \<sigma>)"
    by (intro fineI) (simp only: fine_at_def fst_conv snd_conv res.distinct simp_thms split: option.split, blast)
  then show ?thesis unfolding buildGroup_def by (intro fine_bindS fine_callGroupDecorators [OF ok])
qed

lemma fine_build:
  assumes ok: "calls_fine D I cC cD c S N"
  shows "(\<And>\<sigma>. I \<sigma> \<Longrightarrow> callees \<sigma> c p \<subseteq> N) \<Longrightarrow> fine D I (build E cC cD p c)"
  using ok
proof (induction E cC cD p c rule: build.induct)
  case (3 E cC cD t fs c)
  have "fine D I (bindS (build E cC cD (pofParam f) c) (settable (fieldType (structFields t ! pofIndex f))))" if "f \<in> set (build_order fs)" for f
  proof (rule fine_bindS)
    have "callees \<sigma> c (pofParam f) \<subseteq> N" if "I \<sigma>" for \<sigma>
      using 3(2) [OF that] \<open>f \<in> set (build_order fs)\<close> by auto
    then show "fine D I (build E cC cD (pofParam f) c)" using 3 that by blast
    show "fine D I (settable u a)" for u a by (simp add: settable_def fine_retS fine_panicS)
  qed
  then show ?case unfolding build.simps by (intro fine_bindS [OF fine_mapS] fine_retS)
next
  case (1 E cC cD name optional t c)
  then show ?case unfolding build.simps by (intro fine_buildSingle) blast+
next
  case (2 E cC cD g t soft oid c)
  then show ?case unfolding build.simps by (intro fine_buildGroup [where oid = oid]) blast+
qed

lemma fine_BuildList:
  assumes "calls_fine D I cC cD c S N" and "\<And>\<sigma> p. I \<sigma> \<Longrightarrow> p \<in> set (Params pl) \<Longrightarrow> callees \<sigma> c p \<subseteq> N"
  shows "fine D I (BuildList E cC cD pl c)"
  unfolding BuildList_def using assms by (intro fine_mapS fine_build)

lemma static_callees:
  "static \<sigma> = static \<sigma>0 \<Longrightarrow> wf_tree \<sigma>0 \<Longrightarrow> c < length (scopes \<sigma>0) \<Longrightarrow> callees \<sigma> c p = callees \<sigma>0 c p"
proof (induction \<sigma> c p rule: callees.induct)
  case (1 \<sigma> c name optional t)
  from static_providers_to_root [OF this, of "value_key name t"] show ?case
    by (simp only: callees.simps getValueProviders_def)
next
  case (2 \<sigma> c g t soft oid)
  from static_providers_to_root [OF this, of "group_key g (elemT t)"] show ?case
    by (simp only: callees.simps getGroupProviders_def)
next
  case (3 \<sigma> c t fs)
  then show ?case by (simp only: callees.simps cong: SUP_cong)
qed

lemma callees_less:
  "well_indexed \<sigma> \<Longrightarrow> c < length (scopes \<sigma>) \<Longrightarrow> m \<in> callees \<sigma> c p \<Longrightarrow> m < length (ctors \<sigma>)"
proof (induction \<sigma> c p rule: callees.induct)
  case (1 \<sigma> c name optional t)
  then show ?case
    using storesToRoot_less [OF well_indexed_tree [OF 1(1)] 1(2)] getProviders_less [OF 1(1)]
    by (auto simp: getValueProviders_def)
next
  case (2 \<sigma> c g t soft oid)
  then show ?case
    using storesToRoot_less [OF well_indexed_tree [OF 2(1)] 2(2)] getProviders_less [OF 2(1)]
    by (auto simp: getGroupProviders_def split: if_splits)
qed auto

lemma static_ctorRun: "keeps same_static (ctorRun E n c args)"
  by (intro static_cb.keeps_ctorRun) (simp_all add: keeps_def same_static_def)

lemma advances_ctorRun: "keeps advances (ctorRun E n c args)"
  by (intro advances_cb.keeps_ctorRun) (auto simp: keeps_def advances_def ctorFinish_frame)

lemma static_dcorRun: "keeps same_static (dcorRun E d s args)"
  by (intro static_cb.keeps_dcorRun static_cb.keeps_dcorFinish) (simp_all add: keeps_def same_static_def)

lemma advances_dcorRun: "keeps advances (dcorRun E d s args)"
  by (intro advances_cb.keeps_dcorRun advances_cb.keeps_dcorFinish)
    (auto simp: keeps_def advances_def setState_dcors state_rank_le_2)

lemma state_rank_Ready: "state_rank st = 0 \<longleftrightarrow> st = decoratorReady"
  by (cases st) auto

subsection \<open>Invariants of a whole run\<close>

lemma fine_at_dcorCall_ready:
  assumes "dn_state (dcor_of \<sigma> d) = decoratorReady" and now: "I (setState d decoratorOnStack \<sigma>)"
    and args: "\<And>pl. fine D I (BuildList E cC cD pl (dn_s (dcor_of \<sigma> d)))"
    and run: "\<And>args \<sigma>. I \<sigma> \<Longrightarrow> fine_at D K \<sigma> (dcorRun E d s args)" and weaken: "\<And>\<sigma>. I \<sigma> \<Longrightarrow> K \<sigma>"
  shows "fine_at D K \<sigma> (dcorCall E cC cD d s)"
proof -
  have "fine_at D K (setState d decoratorOnStack \<sigma>)
      (bindS (wrapS w (BuildList E cC cD pl (dn_s (dcor_of \<sigma> d)))) (dcorRun E d s))" for w pl
    by (intro fine_at_bindS_weaken [where I = I] fine_at_wrapS fineD [OF args now] run weaken)
  then show ?thesis using assms(1) weaken [OF now]
    by (simp add: fine_at_def dcorCall_def Let_def split: option.split)
qed

text \<open>
  An invariant of the stores of a run from \<open>\<sigma>0\<close>. Only decorators that are ready are run, so the
  invariant may speak about decorators that are not.
\<close>

locale run_invariant =
  fixes I :: "store \<Rightarrow> bool" and \<sigma>0 :: store and E :: env
  assumes I_wf: "I \<sigma> \<Longrightarrow> well_indexed \<sigma>0"
    and I_static: "I \<sigma> \<Longrightarrow> static \<sigma> = static \<sigma>0"
    and I_rand: "I \<sigma> \<Longrightarrow> I (upd_scope s (\<lambda>sc. sc\<lparr>rand := Suc (rand sc)\<rparr>) \<sigma>)"
    and I_ctorRun: "n < length (ctors \<sigma>0) \<Longrightarrow> fine True I (ctorRun E n (cn_origS (ctor_of \<sigma>0 n)) args)"
    and I_dcor: "I \<sigma> \<Longrightarrow> d < length (dcors \<sigma>0) \<Longrightarrow> dn_state (dcor_of \<sigma> d) = decoratorReady \<Longrightarrow>
      s < length (scopes \<sigma>0) \<Longrightarrow>
      (\<And>pl c. c < length (scopes \<sigma>0) \<Longrightarrow> fine True I (BuildList E (callC E k) (callD E k) pl c)) \<Longrightarrow>
      fine_at True I \<sigma> (callD E (Suc k) d s)"
begin

lemma fine_args:
  assumes ok: "calls_fine True I cC cD c (storesToRoot \<sigma>0 c) {n. n < length (ctors \<sigma>0)}" and c: "c < length (scopes \<sigma>0)"
    and wf: "well_indexed \<sigma>0"
  shows "fine True I (BuildList E cC cD pl c)"
proof (rule fine_BuildList [OF ok])
  fix \<sigma> p assume "I \<sigma>"
  from static_callees [OF I_static [OF this] well_indexed_tree [OF wf] c]
  show "callees \<sigma> c p \<subseteq> {n. n < length (ctors \<sigma>0)}"
    using callees_less [OF wf c] by auto
qed

lemma fine_calls:
  assumes wf: "well_indexed \<sigma>0"
  shows "c < length (scopes \<sigma>0) \<Longrightarrow>
   calls_fine True I (callC E k) (callD E k) c (storesToRoot \<sigma>0 c) {n. n < length (ctors \<sigma>0)}"
proof (induction k arbitrary: c)
  case 0
  then show ?case
    using static_storesToRoot [OF I_static well_indexed_tree [OF wf]] I_rand by (simp add: calls_fine_def fine_at_def)
next
  case (Suc k)
  note tree = well_indexed_tree [OF wf] and args = fine_args [OF Suc.IH _ wf]
  show ?case unfolding calls_fine_def
  proof (intro allI impI ballI conjI)
    fix \<sigma> n assume I: "I \<sigma>" and "n \<in> {n. n < length (ctors \<sigma>0)}"
    then have n: "n < length (ctors \<sigma>0)" by simp
    note eq = static_ctor_eq(1) [OF static_nth(2) [OF I_static [OF I] n]]
    let ?c = "cn_origS (ctor_of \<sigma>0 n)"
    have "fine True I (bindS (wrapS w (BuildList E (callC E k) (callD E k) pl ?c)) (ctorRun E n ?c))" for w pl
      using well_indexed_ctor(2) [OF wf n] by (intro fine_bindS fine_wrapS args I_ctorRun n)
    from fineD [OF this I] show "fine_at True I \<sigma> (callC E (Suc k) n (cn_origS (ctor_of \<sigma> n)))"
      using I by (simp add: eq fine_at_def ctorCall_def Let_def split: option.split)
  next
    fix \<sigma> s key d assume I: "I \<sigma>" and s: "s \<in> set (storesToRoot \<sigma>0 c)" and key: "getDecorators \<sigma> s key = Some d"
      and state: "dn_state (dcor_of \<sigma> d) \<noteq> decoratorOnStack"
    note s' = storesToRoot_less [OF tree Suc.prems s]
    from key have d: "d < length (dcors \<sigma>0)"
      unfolding static_reads(2) [OF I_static [OF I] s'] by (rule getDecorators_less [OF wf s'])
    show "fine_at True I \<sigma> (callD E (Suc k) d s)"
    proof (cases "dn_state (dcor_of \<sigma> d)")
      case decoratorReady
      from I_dcor [OF I d this s' args] show ?thesis .
    qed (use state I in \<open>simp_all add: fine_at_def dcorCall_def\<close>)
  next
    fix \<sigma> assume "I \<sigma>"
    from static_storesToRoot [OF I_static [OF this] tree Suc.prems] show "storesToRoot \<sigma> c = storesToRoot \<sigma>0 c" .
  qed (rule I_rand)
qed

lemma fine_run: "c < length (scopes \<sigma>0) \<Longrightarrow> fine True I (BuildList E (callC E k) (callD E k) pl c)"
  using fineD [OF fine_args [OF fine_calls]] I_wf by (blast intro: fineI)

end

end
