(* ===== verification/Api.thy ===== *)
theory Api
  imports Indices
begin

text \<open>
  The container as a state machine: its states are stores, its steps the calls of \<open>Provide\<close>, \<open>Decorate\<close>,
  \<open>Invoke\<close> and \<open>Scope\<close> on any of its scopes (src/scope.go, src/container.go; the methods of
  \<open>Container\<close> forward to the root scope). A call may return, return an error or panic; a call that
  overflows the stack ends the program and is no step.

  The locale \<open>api_relation\<close> proves a relation for every step, and so for every run, from what the
  node calls keep and what registering does. Its interpretations are the invariants of the
  container.
\<close>

inductive api_step :: "env \<Rightarrow> store \<Rightarrow> store \<Rightarrow> bool" for E :: env where
  step_Provide:
    "s < length (scopes \<sigma>) \<Longrightarrow> Provide s f opts \<sigma> = (r, \<sigma>') \<Longrightarrow> r \<noteq> Diverged \<Longrightarrow> api_step E \<sigma> \<sigma>'"
| step_Decorate:
    "s < length (scopes \<sigma>) \<Longrightarrow> Decorate s f dopts \<sigma> = (r, \<sigma>') \<Longrightarrow> r \<noteq> Diverged \<Longrightarrow> api_step E \<sigma> \<sigma>'"
| step_Invoke:
    "s < length (scopes \<sigma>) \<Longrightarrow> Invoke E fuel s f \<sigma> = (ru, \<sigma>') \<Longrightarrow> ru \<noteq> Diverged \<Longrightarrow> api_step E \<sigma> \<sigma>'"
| step_Scope:
    "s < length (scopes \<sigma>) \<Longrightarrow> ScopeScope s name \<sigma> = (c, \<sigma>') \<Longrightarrow> api_step E \<sigma> \<sigma>'"

abbreviation api_run :: "env \<Rightarrow> store \<Rightarrow> store \<Rightarrow> bool" where
  "api_run E \<equiv> (api_step E)\<^sup>*\<^sup>*"

definition reachable :: "env \<Rightarrow> store \<Rightarrow> bool" where
  "reachable E \<sigma> \<longleftrightarrow> (\<exists>opts. api_run E (New opts) \<sigma>)"

subsection \<open>Relations between the states before and after a step\<close>

lemma well_indexed_BuildList:
  assumes "well_indexed \<sigma>"
  shows "well_indexed (snd (BuildList E (callC E k) (callD E k) pl c \<sigma>))"
  by (rule well_indexed_static [OF _ assms])
    (use static_calls.keeps_BuildList_calls in \<open>simp add: keeps_def same_static_def\<close>)

locale api_frame = state_relation R for R :: "store \<Rightarrow> store \<Rightarrow> bool" +
  fixes E :: env
  assumes R_registering: "well_indexed \<sigma> \<Longrightarrow> registering \<sigma> \<sigma>' \<Longrightarrow> R \<sigma> \<sigma>'"
    and R_build: "well_indexed \<sigma> \<Longrightarrow> c < length (scopes \<sigma>) \<Longrightarrow> R \<sigma> (snd (BuildList E (callC E k) (callD E k) pl c \<sigma>))"
    and R_invokeRun: "well_indexed \<sigma> \<Longrightarrow> s < length (scopes \<sigma>) \<Longrightarrow> R \<sigma> (snd (invokeRun E s f args \<sigma>))"
    and R_scope: "well_indexed \<sigma> \<Longrightarrow> s < length (scopes \<sigma>) \<Longrightarrow> R \<sigma> (snd (ScopeScope s name \<sigma>))"
begin

lemma R_post: "well_indexed \<sigma> \<Longrightarrow> post (\<lambda>_. registering \<sigma>) (registering \<sigma>) x \<Longrightarrow> R \<sigma> (snd x)"
  by (simp add: post_snd R_registering)

lemma R_bind:
  "R \<sigma> (snd (m \<sigma>)) \<Longrightarrow> (\<And>a \<sigma>'. m \<sigma> = (Ret a, \<sigma>') \<Longrightarrow> R \<sigma>' (snd (f a \<sigma>'))) \<Longrightarrow> R \<sigma> (snd (bindS m f \<sigma>))"
  by (cases "m \<sigma>"; cases "fst (m \<sigma>)") (auto simp: bindS_def intro: R_trans)

lemma R_bind_registering:
  assumes m: "triple (registering \<sigma>) m (\<lambda>_. registering \<sigma>) (registering \<sigma>)" and wf: "well_indexed \<sigma>"
    and f: "\<And>a \<sigma>'. registering \<sigma> \<sigma>' \<Longrightarrow> R \<sigma>' (snd (f a \<sigma>'))"
  shows "R \<sigma> (snd (bindS m f \<sigma>))"
  using R_post [OF wf tripleD [OF m registering_refl [OF wf]]] triple_Ret [OF m registering_refl [OF wf]] f
  by (intro R_bind) blast+

lemma R_arguments:
  assumes wf: "well_indexed \<sigma>" and s: "s < length (scopes \<sigma>)"
  shows "R \<sigma> (snd (bindS (wrapS w (BuildList E (callC E k) (callD E k) pl s)) (invokeRun E s f) \<sigma>))"
proof (rule R_bind)
  let ?\<sigma>' = "snd (BuildList E (callC E k) (callD E k) pl s \<sigma>)"
  show "R \<sigma> (snd (wrapS w (BuildList E (callC E k) (callD E k) pl s) \<sigma>))" using R_build [OF assms] by simp
  fix a \<sigma>' assume "wrapS w (BuildList E (callC E k) (callD E k) pl s) \<sigma> = (Ret a, \<sigma>')"
  then have \<sigma>': "\<sigma>' = ?\<sigma>'" by (metis snd_conv snd_wrapS)
  have "length (scopes ?\<sigma>') = length (scopes \<sigma>)"
    by (rule static_lengths(1)) (use static_calls.keeps_BuildList_calls in \<open>simp add: keeps_def same_static_def\<close>)
  then show "R \<sigma>' (snd (invokeRun E s f a \<sigma>'))"
    using s by (simp add: \<sigma>' R_invokeRun [OF well_indexed_BuildList [OF wf]])
qed

lemma R_invokeFn:
  assumes wf: "well_indexed \<sigma>" and s: "s < length (scopes \<sigma>)"
  shows "R \<sigma> (snd (invokeFn E fuel s f \<sigma>))"
  unfolding invokeFn_def
proof (rule R_bind_registering [OF triple_newParamList [OF s] wf])
  fix pl \<sigma>1 assume reg: "registering \<sigma> \<sigma>1"
  note wf1 = registering_wf [OF reg] and s1 = registering_scope [OF reg s]
  have "R \<sigma>1 (snd (bindS (verifyAcyclic s) (\<lambda>_. bindS (wrapS w (BuildList E (callC E fuel) (callD E fuel) pl s))
      (invokeRun E s f)) \<sigma>1))" for w
    by (rule R_bind_registering [OF triple_verifyAcyclic wf1], rule R_arguments)
      (rule registering_wf, assumption, rule registering_scope, assumption, rule s1)
  then show "R \<sigma>1 (snd (case shallowCheckDependencies \<sigma>1 s pl of
        Some err \<Rightarrow> (Throw (EMissingDependencies (InspectFunc f) err), \<sigma>1)
      | None \<Rightarrow> bindS (verifyAcyclic s) (\<lambda>_. bindS (wrapS (EArgumentsFailed (InspectFunc f))
          (BuildList E (callC E fuel) (callD E fuel) pl s)) (invokeRun E s f)) \<sigma>1))"
    by (simp add: R_refl split: option.split)
qed

lemma R_step:
  assumes "api_step E \<sigma> \<sigma>'" and wf: "well_indexed \<sigma>"
  shows "R \<sigma> \<sigma>'"
  using assms(1)
proof cases
  case (step_Provide s f opts r)
  then show ?thesis using R_post [OF wf triple_Provide [OF wf]] by (metis snd_conv)
next
  case (step_Decorate s f dopts r)
  then show ?thesis
    using R_post [OF wf tripleD [OF triple_Decorate registering_refl [OF wf]]] by (metis snd_conv)
next
  case (step_Invoke s fuel f r)
  have "R \<sigma> (snd (Invoke E fuel s f \<sigma>))"
    using R_invokeFn [OF wf step_Invoke(1)] by (cases f) (simp_all add: Invoke_def R_refl)
  with step_Invoke(2) show ?thesis by simp
next
  case (step_Scope s name c)
  then show ?thesis using R_scope [OF wf] by (metis snd_conv)
qed

end

text \<open>A relation that the calls of nodes keep, whatever the scope, gives such a relation.\<close>

locale api_relation = call_relation R for R :: "store \<Rightarrow> store \<Rightarrow> bool" +
  assumes R_new: "well_indexed \<sigma> \<Longrightarrow> registering \<sigma> \<sigma>' \<Longrightarrow> R \<sigma> \<sigma>'"
    and R_invoke: "keeps R (invoke_fn E ivk ByInvoke f args)"
    and R_child: "well_indexed \<sigma> \<Longrightarrow> s < length (scopes \<sigma>) \<Longrightarrow> R \<sigma> (snd (ScopeScope s name \<sigma>))"

sublocale api_relation \<subseteq> api_frame R E for E
proof
  fix \<sigma> E s f args
  have "keeps R (recoverS b fn (bindS (invoke_fn E ivk ByInvoke f args)
      (\<lambda>returned. case lastError ts returned of Some e \<Rightarrow> throwS e | None \<Rightarrow> retS ())))" for b fn ivk ts
    by (intro keeps_recoverS keeps_bindS R_invoke)
      (auto simp del: retS_app intro: keeps_throwS keeps_retS split: option.split)
  then show "R \<sigma> (snd (invokeRun E s f args \<sigma>))" unfolding keeps_def invokeRun_def by blast
next
  show "R \<sigma> (snd (BuildList E (callC E k) (callD E k) pl c \<sigma>))" for \<sigma> E k pl c
    by (rule keeps_app [OF keeps_BuildList_calls])
qed (rule R_new R_child; assumption)+

subsection \<open>Every reachable store has valid references\<close>

definition keeps_indexed :: "store \<Rightarrow> store \<Rightarrow> bool" where
  "keeps_indexed \<sigma> \<sigma>' \<longleftrightarrow> (well_indexed \<sigma> \<longrightarrow> well_indexed \<sigma>' \<and> length (scopes \<sigma>) \<le> length (scopes \<sigma>'))"

lemma static_keeps_indexed:
  assumes "static \<sigma>' = static \<sigma>"
  shows "keeps_indexed \<sigma> \<sigma>'"
  using well_indexed_static [OF assms] static_lengths(1) [OF assms] by (simp add: keeps_indexed_def)

interpretation indexed_cb: callback_relation keeps_indexed
proof
  show "keeps_indexed \<sigma>1 \<sigma>2 \<Longrightarrow> keeps_indexed \<sigma>2 \<sigma>3 \<Longrightarrow> keeps_indexed \<sigma>1 \<sigma>3" for \<sigma>1 \<sigma>2 \<sigma>3
    by (auto simp: keeps_indexed_def)
qed (auto intro!: static_keeps_indexed simp: static_upd_scope static_scope_def)

interpretation indexed: api_relation keeps_indexed
proof (standard, goal_cases)
  case (1 cC cD E n c)
  then show ?case
    by (intro indexed_cb.keeps_ctorCall) (auto simp: keeps_def intro: static_keeps_indexed)
next
  case (2 cC cD E d s)
  then show ?case
    by (intro indexed_cb.keeps_dcorCall indexed_cb.keeps_dcorFinish)
      (auto simp: keeps_def intro: static_keeps_indexed)
next
  case (3 \<sigma> \<sigma>')
  then show ?case by (simp add: keeps_indexed_def registering_length) (simp add: registering_def)
next
  case (4 E ivk f args)
  show ?case by (simp add: keeps_def static_keeps_indexed)
next
  case (5 \<sigma> s name)
  then show ?case by (simp add: keeps_indexed_def well_indexed_ScopeScope ScopeScope_frame(1))
qed

lemma well_indexed_run: "api_run E \<sigma> \<sigma>' \<Longrightarrow> well_indexed \<sigma> \<Longrightarrow> well_indexed \<sigma>'"
  by (induction rule: rtranclp_induct) (use indexed.R_step in \<open>auto simp: keeps_indexed_def\<close>)

lemma reachable_well_indexed: "reachable E \<sigma> \<Longrightarrow> well_indexed \<sigma>"
  unfolding reachable_def using well_indexed_run well_indexed_New by blast

context api_frame
begin

lemma R_run: "api_run E \<sigma> \<sigma>' \<Longrightarrow> well_indexed \<sigma> \<Longrightarrow> R \<sigma> \<sigma>'"
proof (induction rule: rtranclp_induct)
  case (step \<sigma>1 \<sigma>2)
  then show ?case using R_trans R_step well_indexed_run by blast
qed (rule R_refl)

end

end
