(* ===== verification/Demo.thy ===== *)
theory Demo
  imports Api Examples
begin

text \<open>
  A small container, for the instances of the properties about runs: a constructor of an int, a
  decorator of it and a function that takes it.
\<close>

definition demoE :: env where
  "demoE = \<lparr>env_call = (\<lambda>i log args. OReturn (if i = 3 then [] else [VData intT i])),
     env_perm = (\<lambda>s k n. [0..<n]), env_now = int\<rparr>"

definition demo1 :: store where
  "demo1 = snd (Provide 0 (IFunc (fnOf 1 [] [intT])) [] (New []))"

definition demo2 :: store where
  "demo2 = snd (Decorate 0 (IFunc (fnOf 2 [intT] [intT])) [] demo1)"

definition demo3 :: store where
  "demo3 = snd (Invoke demoE 4 0 (IFunc (fnOf 3 [intT] [])) demo2)"

definition demo4 :: store where
  "demo4 = snd (Invoke demoE 4 0 (IFunc (fnOf 3 [intT] [])) demo3)"

lemma demo_steps: "api_step demoE (New []) demo1" "api_step demoE demo1 demo2" "api_step demoE demo2 demo3"
  "api_step demoE demo3 demo4"
proof -
  have "fst (Provide 0 (IFunc (fnOf 1 [] [intT])) [] (New [])) \<noteq> Diverged" "0 < length (scopes (New []))" by code_simp+
  then show "api_step demoE (New []) demo1"
    unfolding demo1_def by (intro step_Provide [OF _ prod.collapse [symmetric]])
  have "fst (Decorate 0 (IFunc (fnOf 2 [intT] [intT])) [] demo1) \<noteq> Diverged" "0 < length (scopes demo1)" by code_simp+
  then show "api_step demoE demo1 demo2"
    unfolding demo2_def by (intro step_Decorate [OF _ prod.collapse [symmetric]])
  have "fst (Invoke demoE 4 0 (IFunc (fnOf 3 [intT] [])) demo2) \<noteq> Diverged" "0 < length (scopes demo2)" by code_simp+
  then show "api_step demoE demo2 demo3"
    unfolding demo3_def by (intro step_Invoke [OF _ prod.collapse [symmetric]])
  have "fst (Invoke demoE 4 0 (IFunc (fnOf 3 [intT] [])) demo3) \<noteq> Diverged" "0 < length (scopes demo3)" by code_simp+
  then show "api_step demoE demo3 demo4"
    unfolding demo4_def by (intro step_Invoke [OF _ prod.collapse [symmetric]])
qed

lemma demo_reachable: "reachable demoE demo3"
proof -
  have "api_run demoE (New []) demo3" using demo_steps by (meson converse_rtranclp_into_rtranclp rtranclp.rtrancl_refl)
  then show ?thesis unfolding reachable_def by blast
qed

lemma demo_run: "api_run demoE demo3 demo4"
  using demo_steps(4) by blast

lemma demo_called: "0 < length (ctors demo3) \<and> cn_called (ctor_of demo3 0) \<and> runs (ByCtor 0) demo3 = 1"
  by code_simp

lemma demo_decorated: "0 < length (dcors demo3) \<and> dn_state (dcor_of demo3 0) = decoratorCalled \<and> runs (ByDecorator 0) demo3 = 1"
  by code_simp

end
