(* ===== verification/Once.thy ===== *)
theory Once
  imports Runs Demo
begin

text \<open>
  How often user code runs. A constructor that has completed is not run again, whatever is done to
  the container afterwards. A decorator is run at most once in its life, even when it fails. In a dry
  run nothing is called.
\<close>

subsection \<open>Completed nodes\<close>

lemma registering_runs: "registering \<sigma> \<sigma>' \<Longrightarrow> runs who \<sigma>' = runs who \<sigma>"
  by (rule runs_log) (simp add: registering_def)

lemma registering_nodes:
  assumes "registering \<sigma> \<sigma>'"
  shows "length (ctors \<sigma>) \<le> length (ctors \<sigma>')" and "length (dcors \<sigma>) \<le> length (dcors \<sigma>')"
    and "n < length (ctors \<sigma>) \<Longrightarrow> ctor_of \<sigma>' n = ctor_of \<sigma> n"
    and "d < length (dcors \<sigma>) \<Longrightarrow> dcor_of \<sigma>' d = dcor_of \<sigma> d"
proof -
  from assms obtain cs ds where "ctors \<sigma>' = ctors \<sigma> @ cs" and "dcors \<sigma>' = dcors \<sigma> @ ds"
    unfolding registering_def by blast
  then show "length (ctors \<sigma>) \<le> length (ctors \<sigma>')" and "length (dcors \<sigma>) \<le> length (dcors \<sigma>')"
    and "n < length (ctors \<sigma>) \<Longrightarrow> ctor_of \<sigma>' n = ctor_of \<sigma> n"
    and "d < length (dcors \<sigma>) \<Longrightarrow> dcor_of \<sigma>' d = dcor_of \<sigma> d"
    by (simp_all add: nth_append)
qed

lemma ScopeScope_runs [simp]: "runs who (snd (ScopeScope s name \<sigma>)) = runs who \<sigma>"
  by (rule runs_log) (rule ScopeScope_frame(7))

interpretation once_api: api_relation "once n" for n
proof (standard, goal_cases)
  case (1 \<sigma> \<sigma>')
  then show ?case using registering_runs [OF 1(2)] registering_nodes(1,3) [OF 1(2)] by (simp add: once_def)
next
  case (2 E ivk f args)
  then show ?case by (simp add: keeps_def once_def runs_invoke_fn)
next
  case (3 \<sigma> s name)
  have "cn_called (ctor_of (snd (ScopeScope s name \<sigma>)) n) = cn_called (ctor_of \<sigma> n)" if "n < length (ctors \<sigma>)"
    using ScopeScope_frame(9) [OF that, where s = s and name = name] by auto
  then show ?case by (simp add: once_def ScopeScope_frame(8))
qed

interpretation once_dcor_api: api_relation "once_dcor d" for d
proof (standard, goal_cases)
  case (1 \<sigma> \<sigma>')
  then show ?case using registering_runs [OF 1(2)] registering_nodes(2,4) [OF 1(2)] by (simp add: once_dcor_def)
next
  case (2 E ivk f args)
  then show ?case by (simp add: keeps_def once_dcor_def runs_invoke_fn)
next
  case (3 \<sigma> s name)
  then show ?case by (simp add: once_dcor_def ScopeScope_frame(6))
qed

text \<open>
  C6: Once a constructor has completed (its values are stored), it is never run again: however the
  container is used from then on, with further \<open>Provide\<close>, \<open>Decorate\<close>, \<open>Invoke\<close> and \<open>Scope\<close> calls on any
  scope, it stays completed and the log has no further call made for it.
\<close>

theorem constructor_not_rerun:
  assumes "reachable E \<sigma>" and "api_run E \<sigma> \<sigma>'" and "n < length (ctors \<sigma>)" and "cn_called (ctor_of \<sigma> n)"
  shows "cn_called (ctor_of \<sigma>' n) \<and> runs (ByCtor n) \<sigma>' = runs (ByCtor n) \<sigma>"
  using once_api.R_run [OF assms(2) reachable_well_indexed [OF assms(1)], of n] assms(3,4)
  by (simp add: once_def)

theorem constructor_not_rerun_witness:
  "cn_called (ctor_of demo4 0) \<and> runs (ByCtor 0) demo4 = 1"
  using constructor_not_rerun [OF demo_reachable demo_run, of 0] demo_called by simp

subsection \<open>Decorators run at most once\<close>

text \<open>A run of other nodes leaves the number of runs of a node alone.\<close>

definition same_runs :: "caller \<Rightarrow> store \<Rightarrow> store \<Rightarrow> bool" where
  "same_runs who \<sigma> \<sigma>' \<longleftrightarrow> runs who \<sigma>' = runs who \<sigma>"

interpretation same_runs_cb: callback_relation "same_runs who" for who
  by standard (simp_all add: same_runs_def)

lemma same_runs_ctorRun: "who \<noteq> ByCtor n \<Longrightarrow> keeps (same_runs who) (ctorRun E n c args)"
  by (intro same_runs_cb.keeps_ctorRun) (auto simp: keeps_def same_runs_def runs_invoke_fn ctorFinish_frame)

lemma same_runs_dcorFinish: "keeps (same_runs who) (dcorFinish d vs)"
  by (intro same_runs_cb.keeps_dcorFinish) (simp_all add: same_runs_def)

lemma same_runs_dcorRun: "who \<noteq> ByDecorator d \<Longrightarrow> keeps (same_runs who) (dcorRun E d s args)"
  by (intro same_runs_cb.keeps_dcorRun same_runs_dcorFinish) (auto simp: keeps_def same_runs_def runs_invoke_fn)

text \<open>Running a decorator calls its function once.\<close>

definition adds_run :: "caller \<Rightarrow> store \<Rightarrow> store \<Rightarrow> bool" where
  "adds_run who \<sigma> \<sigma>' \<longleftrightarrow> runs who \<sigma>' \<le> Suc (runs who \<sigma>)"

lemma snd_recoverS: "snd (recoverS b fn m \<sigma>) = snd (m \<sigma>)"
  by (auto simp: recoverS_def split: prod.split res.split)

lemma runs_before: "runs who (before cb name \<sigma>) = runs who \<sigma>"
  by (simp add: before_def split: option.split)

lemma runs_bindS:
  assumes "\<And>a \<sigma>. runs who (snd (f a \<sigma>)) = runs who \<sigma>"
  shows "runs who (snd (bindS m f \<sigma>)) = runs who (snd (m \<sigma>))"
  using assms by (cases "m \<sigma>"; cases "fst (m \<sigma>)") (simp_all add: bindS_def)

lemma adds_run_withCallback:
  assumes "keeps (adds_run who) m"
  shows "keeps (adds_run who) (withCallback E cb name m)"
proof (rule keepsI)
  fix \<sigma>
  have "runs who \<sigma>2 \<le> Suc (runs who \<sigma>)" if "m (\<sigma>\<lparr>ticks := Suc (ticks \<sigma>)\<rparr>) = (r, \<sigma>2)" for r \<sigma>2
    using keepsD [OF assms that] by (simp add: adds_run_def)
  moreover have "runs who (snd (m \<sigma>)) \<le> Suc (runs who \<sigma>)"
    using keeps_app [OF assms] by (simp add: adds_run_def)
  ultimately show "adds_run who \<sigma> (snd (withCallback E cb name m \<sigma>))"
    by (auto simp: adds_run_def withCallback_def clockNow_def Let_def split: option.split prod.split res.split)
qed

lemma adds_run_dcorRun: "keeps (adds_run who) (dcorRun E d s args)"
proof (rule keepsI)
  fix \<sigma>
  have "runs who (snd (invoke_fn E ivk w f args \<sigma>)) \<le> Suc (runs who \<sigma>)" for ivk w f \<sigma>
    by (rule disjE [OF snd_invoke_fn [of E ivk w f args \<sigma>]]) simp_all
  moreover have "runs who (snd (dcorFinish d vs \<sigma>)) = runs who \<sigma>" for vs \<sigma>
    using keeps_app [OF same_runs_dcorFinish] by (simp add: same_runs_def)
  ultimately have "keeps (adds_run who) (recoverS b fn (bindS (invoke_fn E ivk w f args) (dcorFinish d)))" for b fn ivk w f
    by (simp add: keeps_def adds_run_def snd_recoverS runs_bindS)
  from keeps_app [OF adds_run_withCallback [OF this]] show "adds_run who \<sigma> (snd (dcorRun E d s args \<sigma>))"
    unfolding dcorRun_def Let_def adds_run_def
    using runs_before by (rule ord_le_eq_trans [OF _ arg_cong [where f = Suc]])
qed

text \<open>
  A decorator that has left the state ready is not run by anything that follows, except by the call
  that moved it on.
\<close>

definition spent :: "nat \<Rightarrow> nat \<Rightarrow> store \<Rightarrow> store \<Rightarrow> bool" where
  "spent d r \<sigma>0 \<sigma> \<longleftrightarrow> well_indexed \<sigma>0 \<and> static \<sigma> = static \<sigma>0 \<and> d < length (dcors \<sigma>) \<and>
     dn_state (dcor_of \<sigma> d) \<noteq> decoratorReady \<and> runs (ByDecorator d) \<sigma> = r"

lemma advances_not_ready:
  "advances \<sigma> \<sigma>' \<Longrightarrow> d < length (dcors \<sigma>) \<Longrightarrow> dn_state (dcor_of \<sigma> d) \<noteq> decoratorReady \<Longrightarrow>
   d < length (dcors \<sigma>') \<and> dn_state (dcor_of \<sigma>' d) \<noteq> decoratorReady"
  unfolding advances_def by (metis state_rank_Ready le_zero_eq)

lemma spent_step:
  assumes "spent d r \<sigma>0 \<sigma>" and "same_static \<sigma> \<sigma>'" and "advances \<sigma> \<sigma>'" and "same_runs (ByDecorator d) \<sigma> \<sigma>'"
  shows "spent d r \<sigma>0 \<sigma>'"
  using assms advances_not_ready [OF assms(3), of d] by (simp add: spent_def same_static_def same_runs_def)

lemma fine_spent:
  assumes "keeps same_static m" and "keeps advances m" and "keeps (same_runs (ByDecorator d)) m"
  shows "fine True (spent d r \<sigma>0) m"
  using assms spent_step by (simp add: fine_def fine_at_def keeps_def)

lemma spent_setState:
  "spent d r \<sigma>0 \<sigma> \<Longrightarrow> e \<noteq> d \<Longrightarrow> spent d r \<sigma>0 (setState e decoratorOnStack \<sigma>)"
  by (simp add: spent_def setState_dcors)

interpretation spent_run: run_invariant "spent d r \<sigma>0" \<sigma>0 E for d r \<sigma>0 E
proof
  fix n args
  show "fine True (spent d r \<sigma>0) (ctorRun E n (cn_origS (ctor_of \<sigma>0 n)) args)"
    by (intro fine_spent static_ctorRun advances_ctorRun same_runs_ctorRun) simp
next
  fix \<sigma> e s k
  assume sp: "spent d r \<sigma>0 \<sigma>" and e: "e < length (dcors \<sigma>0)" and ready: "dn_state (dcor_of \<sigma> e) = decoratorReady"
    and args: "\<And>pl c. c < length (scopes \<sigma>0) \<Longrightarrow> fine True (spent d r \<sigma>0) (BuildList E (callC E k) (callD E k) pl c)"
  from sp ready have ne: "e \<noteq> d" by (auto simp: spent_def)
  have st: "static \<sigma> = static \<sigma>0" and wf: "well_indexed \<sigma>0" using sp by (simp_all add: spent_def)
  have "dn_s (dcor_of \<sigma> e) < length (scopes \<sigma>0)"
    using static_dcor_eq(1) [OF static_nth(3) [OF st e]] well_indexed_dcor [OF wf e] by simp
  moreover have "fine True (spent d r \<sigma>0) (dcorRun E e s as)" for as
    using ne by (intro fine_spent static_dcorRun advances_dcorRun same_runs_dcorRun) simp
  ultimately show "fine_at True (spent d r \<sigma>0) \<sigma> (callD E (Suc k) e s)"
    unfolding callD.simps
    by (intro fine_at_dcorCall_ready [where I = "spent d r \<sigma>0"] ready spent_setState [OF sp ne] args) (blast dest: fineD)+
next
  show "spent d r \<sigma>0 (upd_scope s (\<lambda>sc. sc\<lparr>rand := Suc (rand sc)\<rparr>) \<sigma>)" if "spent d r \<sigma>0 \<sigma>" for \<sigma> s
    using that by (simp add: spent_def static_upd_scope static_scope_def)
qed (simp_all add: spent_def)

text \<open>So a decorator that is ready has not been run, and one that is not has been run at most once.\<close>

definition run_bound :: "nat \<Rightarrow> store \<Rightarrow> bool" where
  "run_bound d \<sigma> \<longleftrightarrow> runs (ByDecorator d) \<sigma> \<le>
     (if d < length (dcors \<sigma>) \<and> dn_state (dcor_of \<sigma> d) \<noteq> decoratorReady then 1 else 0)"

definition bounded :: "nat \<Rightarrow> store \<Rightarrow> store \<Rightarrow> bool" where
  "bounded d \<sigma>0 \<sigma> \<longleftrightarrow> well_indexed \<sigma>0 \<and> static \<sigma> = static \<sigma>0 \<and> run_bound d \<sigma>"

lemma run_bound_step:
  assumes "run_bound d \<sigma>" and "advances \<sigma> \<sigma>'" and "same_runs (ByDecorator d) \<sigma> \<sigma>'"
  shows "run_bound d \<sigma>'"
  using assms advances_not_ready [OF assms(2), of d] by (auto simp: run_bound_def same_runs_def split: if_splits)

lemma fine_bounded:
  assumes "keeps same_static m" and "keeps advances m" and "keeps (same_runs (ByDecorator d)) m"
  shows "fine True (bounded d \<sigma>0) m"
  using assms run_bound_step by (simp add: fine_def fine_at_def keeps_def bounded_def same_static_def) blast

interpretation bounded_run: run_invariant "bounded d \<sigma>0" \<sigma>0 E for d \<sigma>0 E
proof
  fix n args
  show "fine True (bounded d \<sigma>0) (ctorRun E n (cn_origS (ctor_of \<sigma>0 n)) args)"
    by (intro fine_bounded static_ctorRun advances_ctorRun same_runs_ctorRun) simp
next
  fix \<sigma> e s k
  assume b: "bounded d \<sigma>0 \<sigma>" and e: "e < length (dcors \<sigma>0)" and ready: "dn_state (dcor_of \<sigma> e) = decoratorReady"
    and args: "\<And>pl c. c < length (scopes \<sigma>0) \<Longrightarrow> fine True (bounded d \<sigma>0) (BuildList E (callC E k) (callD E k) pl c)"
  have st: "static \<sigma> = static \<sigma>0" and wf: "well_indexed \<sigma>0" using b by (simp_all add: bounded_def)
  have c: "dn_s (dcor_of \<sigma> e) < length (scopes \<sigma>0)"
    using static_dcor_eq(1) [OF static_nth(3) [OF st e]] well_indexed_dcor [OF wf e] by simp
  show "fine_at True (bounded d \<sigma>0) \<sigma> (callD E (Suc k) e s)"
    unfolding callD.simps
  proof (cases "e = d")
    case False
    then have "bounded d \<sigma>0 (setState e decoratorOnStack \<sigma>)"
      using b by (auto simp: bounded_def run_bound_def setState_dcors split: if_splits)
    moreover have "fine True (bounded d \<sigma>0) (dcorRun E e s as)" for as
      using False by (intro fine_bounded static_dcorRun advances_dcorRun same_runs_dcorRun) simp
    ultimately show "fine_at True (bounded d \<sigma>0) \<sigma> (dcorCall E (callC E k) (callD E k) e s)"
      by (intro fine_at_dcorCall_ready [where I = "bounded d \<sigma>0"] ready args c) (blast dest: fineD)+
  next
    case True
    then have "spent d 0 \<sigma>0 (setState e decoratorOnStack \<sigma>)"
      using b e ready static_lengths(3) [OF st] by (simp add: bounded_def run_bound_def spent_def setState_dcors)
    moreover have "bounded d \<sigma>0 \<sigma>'" if "spent d 0 \<sigma>0 \<sigma>'" for \<sigma>'
      using that by (simp add: spent_def bounded_def run_bound_def)
    moreover have "fine_at True (bounded d \<sigma>0) \<sigma>' (dcorRun E e s as)" if "spent d 0 \<sigma>0 \<sigma>'" for as \<sigma>'
      using that advances_not_ready [OF keeps_app [OF advances_dcorRun], of d \<sigma>' E e s as]
        keeps_app [OF static_dcorRun, of \<sigma>' E e s as] keeps_app [OF adds_run_dcorRun, of "ByDecorator d" \<sigma>' E e s as]
      by (simp add: fine_at_def spent_def bounded_def run_bound_def adds_run_def same_static_def)
    ultimately show "fine_at True (bounded d \<sigma>0) \<sigma> (dcorCall E (callC E k) (callD E k) e s)"
      by (intro fine_at_dcorCall_ready [where I = "spent d 0 \<sigma>0"] ready spent_run.fine_run c)
  qed
next
  show "bounded d \<sigma>0 (upd_scope s (\<lambda>sc. sc\<lparr>rand := Suc (rand sc)\<rparr>) \<sigma>)" if "bounded d \<sigma>0 \<sigma>" for \<sigma> s
    using that by (simp add: bounded_def run_bound_def static_upd_scope static_scope_def)
qed (simp_all add: bounded_def)

lemma snd_invokeRun: "snd (invokeRun E s f args \<sigma>) = snd (invoke_fn E (invokerFn (scope_of \<sigma> s)) ByInvoke f args \<sigma>)"
  by (auto simp: invokeRun_def snd_recoverS bindS_def split: prod.split res.split option.split)

definition keeps_bound :: "nat \<Rightarrow> store \<Rightarrow> store \<Rightarrow> bool" where
  "keeps_bound d \<sigma> \<sigma>' \<longleftrightarrow> (run_bound d \<sigma> \<longrightarrow> run_bound d \<sigma>')"

interpretation bound_api: api_frame "keeps_bound d" E for d E
proof
  show "keeps_bound d \<sigma> \<sigma>'" if "registering \<sigma> \<sigma>'" for d \<sigma> \<sigma>'
    using registering_runs [OF that] registering_nodes(2,4) [OF that]
    by (auto simp: keeps_bound_def run_bound_def split: if_splits)
  show "keeps_bound d \<sigma> (snd (BuildList E (callC E k) (callD E k) pl c \<sigma>))"
    if "well_indexed \<sigma>" and "c < length (scopes \<sigma>)" for d \<sigma> E k pl c
    using fineD [OF bounded_run.fine_run [OF that(2)]] that(1)
    by (simp add: keeps_bound_def bounded_def fine_at_def)
  show "keeps_bound d \<sigma> (snd (invokeRun E s f args \<sigma>))" for d \<sigma> E s f args
    by (simp add: keeps_bound_def run_bound_def snd_invokeRun runs_invoke_fn)
  show "keeps_bound d \<sigma> (snd (ScopeScope s name \<sigma>))" for d \<sigma> s name
    by (simp add: keeps_bound_def run_bound_def ScopeScope_frame(6))
qed (auto simp: keeps_bound_def)

lemma log_New: "log (New opts) = []"
proof -
  have "log (applyOption opt \<sigma>) = log \<sigma>" for opt \<sigma> by (cases opt) simp_all
  then show ?thesis unfolding New_def by (simp add: fold_frame empty_store_def)
qed

lemma run_bound_New: "run_bound d (New opts)"
  by (simp add: run_bound_def runs_def log_New)

text \<open>
  C10: A decorator is run at most once in the life of the container, whether that run succeeds, fails
  or panics.
\<close>

theorem decorator_runs_at_most_once:
  assumes "reachable E \<sigma>"
  shows "runs (ByDecorator d) \<sigma> \<le> 1"
proof -
  from assms obtain opts where run: "api_run E (New opts) \<sigma>" by (auto simp: reachable_def)
  have "run_bound d \<sigma>"
    using bound_api.R_run [OF run well_indexed_New] run_bound_New by (simp add: keeps_bound_def)
  then show ?thesis by (simp add: run_bound_def split: if_splits)
qed

theorem decorator_runs_at_most_once_witness:
  "runs (ByDecorator 0) demo3 = 1 \<and> runs (ByDecorator 0) demo3 \<le> 1"
  using decorator_runs_at_most_once [OF demo_reachable, of 0] demo_decorated by simp

subsection \<open>A dry run calls nothing\<close>

definition calls_of :: "store \<Rightarrow> event list" where
  "calls_of \<sigma> = filter (\<lambda>e. case e of EvCall w f args \<Rightarrow> True | _ \<Rightarrow> False) (log \<sigma>)"

definition dry :: "store \<Rightarrow> bool" where
  "dry \<sigma> \<longleftrightarrow> (\<forall>sc \<in> set (scopes \<sigma>). invokerFn sc = dryInvoker)"

definition same_calls :: "store \<Rightarrow> store \<Rightarrow> bool" where
  "same_calls \<sigma> \<sigma>' \<longleftrightarrow> calls_of \<sigma>' = calls_of \<sigma>"

lemma calls_of_log: "log \<sigma>' = log \<sigma> \<Longrightarrow> calls_of \<sigma>' = calls_of \<sigma>"
  by (simp add: calls_of_def)

lemma calls_of_upd [simp]:
  "calls_of (upd_scope s f \<sigma>) = calls_of \<sigma>" "calls_of (upd_ctor n g \<sigma>) = calls_of \<sigma>"
  "calls_of (setState d st \<sigma>) = calls_of \<sigma>" "calls_of (\<sigma>\<lparr>ticks := k\<rparr>) = calls_of \<sigma>"
  "calls_of (Commit sr s \<sigma>) = calls_of \<sigma>"
  "calls_of (emit (EvBefore k name) \<sigma>) = calls_of \<sigma>"
  "calls_of (emit (EvCallback k name err rt) \<sigma>) = calls_of \<sigma>"
  "calls_of (setDecoratedValue s name t v \<sigma>) = calls_of \<sigma>"
  "calls_of (submitDecoratedGroupedValue s name t v \<sigma>) = calls_of \<sigma>"
  "calls_of (setValue s name t v \<sigma>) = calls_of \<sigma>"
  "calls_of (submitGroupedValue s name t v \<sigma>) = calls_of \<sigma>"
  by (simp_all add: calls_of_def)

interpretation same_calls_cb: callback_relation same_calls
  by standard (simp_all add: same_calls_def)

lemma same_calls_ctorFinish: "keeps same_calls (ctorFinish n vs)"
proof (rule keepsI)
  fix \<sigma>
  show "same_calls \<sigma> (snd (ctorFinish n vs \<sigma>))"
    using snd_ctorFinish [of n vs \<sigma>] by (auto simp: same_calls_def)
qed

lemma same_calls_dcorFinish: "keeps same_calls (dcorFinish d vs)"
  by (intro same_calls_cb.keeps_dcorFinish) (simp_all add: same_calls_def)

lemma same_calls_dry: "keeps same_calls (invoke_fn E dryInvoker who f args)"
  by (simp add: keeps_def same_calls_def invoke_fn_def)

lemma dry_ctorRun: "invokerFn (scope_of \<sigma> c) = dryInvoker \<Longrightarrow> same_calls \<sigma> (snd (ctorRun E n c args \<sigma>))"
  unfolding ctorRun_def Let_def
  by (rule same_calls_cb.R_trans, rule same_calls_cb.R_before_opt, rule keeps_app, simp,
      intro same_calls_cb.keeps_withCallback same_calls_cb.keeps_recoverS same_calls_cb.keeps_bindS
        same_calls_dry same_calls_ctorFinish)

lemma dry_dcorRun: "invokerFn (scope_of \<sigma> s) = dryInvoker \<Longrightarrow> same_calls \<sigma> (snd (dcorRun E d s args \<sigma>))"
  unfolding dcorRun_def Let_def
  by (rule same_calls_cb.R_trans, rule same_calls_cb.R_before_opt, rule keeps_app, simp,
      intro same_calls_cb.keeps_withCallback same_calls_cb.keeps_recoverS same_calls_cb.keeps_bindS
        same_calls_dry same_calls_dcorFinish)

definition quiet :: "store \<Rightarrow> store \<Rightarrow> bool" where
  "quiet \<sigma>0 \<sigma> \<longleftrightarrow> well_indexed \<sigma>0 \<and> dry \<sigma>0 \<and> static \<sigma> = static \<sigma>0 \<and> calls_of \<sigma> = []"

lemma quiet_dry: "quiet \<sigma>0 \<sigma> \<Longrightarrow> s < length (scopes \<sigma>0) \<Longrightarrow> invokerFn (scope_of \<sigma> s) = dryInvoker"
  using static_scope_eq(5) [OF static_nth(1)] by (simp add: quiet_def dry_def)

lemma fine_quiet:
  assumes "keeps same_static m" and "\<And>\<sigma>. quiet \<sigma>0 \<sigma> \<Longrightarrow> same_calls \<sigma> (snd (m \<sigma>))"
  shows "fine True (quiet \<sigma>0) m"
  using assms by (simp add: fine_def fine_at_def keeps_def quiet_def same_static_def same_calls_def)

interpretation quiet_run: run_invariant "quiet \<sigma>0" \<sigma>0 E for \<sigma>0 E
proof
  fix n args assume n: "n < length (ctors \<sigma>0)"
  show "fine True (quiet \<sigma>0) (ctorRun E n (cn_origS (ctor_of \<sigma>0 n)) args)"
  proof (rule fine_quiet [OF static_ctorRun])
    fix \<sigma> assume q: "quiet \<sigma>0 \<sigma>"
    then have "cn_origS (ctor_of \<sigma>0 n) < length (scopes \<sigma>0)" using well_indexed_ctor(2) n by (simp add: quiet_def)
    from dry_ctorRun [OF quiet_dry [OF q this]]
    show "same_calls \<sigma> (snd (ctorRun E n (cn_origS (ctor_of \<sigma>0 n)) args \<sigma>))" .
  qed
next
  fix \<sigma> e s k
  assume q: "quiet \<sigma>0 \<sigma>" and e: "e < length (dcors \<sigma>0)" and ready: "dn_state (dcor_of \<sigma> e) = decoratorReady"
    and s: "s < length (scopes \<sigma>0)"
    and args: "\<And>pl c. c < length (scopes \<sigma>0) \<Longrightarrow> fine True (quiet \<sigma>0) (BuildList E (callC E k) (callD E k) pl c)"
  have st: "static \<sigma> = static \<sigma>0" and wf: "well_indexed \<sigma>0" using q by (simp_all add: quiet_def)
  have c: "dn_s (dcor_of \<sigma> e) < length (scopes \<sigma>0)"
    using static_dcor_eq(1) [OF static_nth(3) [OF st e]] well_indexed_dcor [OF wf e] by simp
  have "quiet \<sigma>0 (setState e decoratorOnStack \<sigma>)" using q by (simp add: quiet_def)
  moreover have "fine True (quiet \<sigma>0) (dcorRun E e s as)" for as
    by (rule fine_quiet [OF static_dcorRun dry_dcorRun [OF quiet_dry [OF _ s]]])
  ultimately show "fine_at True (quiet \<sigma>0) \<sigma> (callD E (Suc k) e s)"
    unfolding callD.simps
    by (intro fine_at_dcorCall_ready [where I = "quiet \<sigma>0"] ready args c) (blast dest: fineD)+
next
  show "quiet \<sigma>0 (upd_scope s (\<lambda>sc. sc\<lparr>rand := Suc (rand sc)\<rparr>) \<sigma>)" if "quiet \<sigma>0 \<sigma>" for \<sigma> s
    using that by (simp add: quiet_def static_upd_scope static_scope_def)
qed (simp_all add: quiet_def)

definition keeps_quiet :: "store \<Rightarrow> store \<Rightarrow> bool" where
  "keeps_quiet \<sigma> \<sigma>' \<longleftrightarrow> (dry \<sigma> \<and> calls_of \<sigma> = [] \<longrightarrow> dry \<sigma>' \<and> calls_of \<sigma>' = [])"

lemma dry_invokers: "dry \<sigma> \<longleftrightarrow> set (map invokerFn (scopes \<sigma>)) \<subseteq> {dryInvoker}"
  by (auto simp: dry_def)

lemma dry_static: "static \<sigma>' = static \<sigma> \<Longrightarrow> dry \<sigma> \<Longrightarrow> dry \<sigma>'"
  using static_scope_eq(5) [OF static_nth(1), of \<sigma>' \<sigma>] static_lengths(1) [of \<sigma>' \<sigma>]
  by (auto simp: dry_def all_set_conv_all_nth)

lemma dry_ScopeScope:
  assumes "dry \<sigma>" and "s < length (scopes \<sigma>)"
  shows "dry (snd (ScopeScope s name \<sigma>))"
  using assms by (auto simp: dry_def ScopeScope_scopes dest!: set_update_subset_insert [THEN subsetD])

interpretation quiet_api: api_frame keeps_quiet E for E
proof
  show "keeps_quiet \<sigma> \<sigma>'" if "registering \<sigma> \<sigma>'" for \<sigma> \<sigma>'
    using that calls_of_log [of \<sigma>' \<sigma>] by (simp add: keeps_quiet_def registering_def dry_invokers)
  show "keeps_quiet \<sigma> (snd (BuildList E (callC E k) (callD E k) pl c \<sigma>))"
    if "well_indexed \<sigma>" and "c < length (scopes \<sigma>)" for \<sigma> E k pl c
    using fineD [OF quiet_run.fine_run [OF that(2)]] that(1) dry_static
    by (simp add: keeps_quiet_def quiet_def fine_at_def)
  show "keeps_quiet \<sigma> (snd (invokeRun E s f args \<sigma>))" if "s < length (scopes \<sigma>)" for \<sigma> E s f args
    using that by (simp add: keeps_quiet_def snd_invokeRun invoke_fn_def dry_def)
  show "keeps_quiet \<sigma> (snd (ScopeScope s name \<sigma>))" if "s < length (scopes \<sigma>)" for \<sigma> s name
    using dry_ScopeScope [OF _ that] calls_of_log [OF ScopeScope_frame(7)] by (simp add: keeps_quiet_def)
qed (auto simp: keeps_quiet_def)



end
