(* ===== verification/Staging.thy ===== *)
theory Staging
  imports Once
begin

text \<open>
  How the results of a constructor reach its scope (src/result.go, src/constructor.go). \<open>Extract\<close> writes to
  a \<open>containerWriter\<close>: the scope itself, or the staging writer of a constructor, whose \<open>Commit\<close> writes
  to the scope once no result is an error. The locale \<open>lawful_writer\<close> is the contract of that
  interface; what \<open>Extract\<close> does to any lawful writer is the list of writes it makes to a
  writer that only records them.
\<close>

subsection \<open>Code that runs in step on two states\<close>

definition simulates :: "('a \<Rightarrow> 'b \<Rightarrow> bool) \<Rightarrow> ('a, 'x) eff \<Rightarrow> ('b, 'x) eff \<Rightarrow> bool" where
  "simulates S m m' \<longleftrightarrow> (\<forall>a b. S a b \<longrightarrow> fst (m' b) = fst (m a) \<and> S (snd (m a)) (snd (m' b)))"

lemma simulatesD: "simulates S m m' \<Longrightarrow> S a b \<Longrightarrow> fst (m' b) = fst (m a) \<and> S (snd (m a)) (snd (m' b))"
  by (simp add: simulates_def)

lemma simulates_bindS:
  assumes m: "simulates S m m'" and f: "\<And>x. simulates S (f x) (f' x)"
  shows "simulates S (bindS m f) (bindS m' f')"
  unfolding simulates_def
proof (intro allI impI)
  fix a b assume "S a b"
  from simulatesD [OF m this] obtain r a' b' where r: "m a = (r, a')" "m' b = (r, b')" "S a' b'"
    by (cases "m a"; cases "m' b") auto
  with simulatesD [OF f] show "fst (bindS m' f' b) = fst (bindS m f a) \<and> S (snd (bindS m f a)) (snd (bindS m' f' b))"
    by (cases r) (simp_all add: bindS_def)
qed

lemma simulates_const: "simulates S (retS x) (retS x)" "simulates S (throwS e) (throwS e)" "simulates S (panicS p) (panicS p)"
  by (simp_all add: simulates_def)

lemma simulates_forS: "(\<And>x. x \<in> set xs \<Longrightarrow> simulates S (f x) (f' x)) \<Longrightarrow> simulates S (forS f xs) (forS f' xs)"
  by (induction xs) (auto simp del: retS_app intro!: simulates_bindS simulates_const)

subsection \<open>The contract of a container writer\<close>

datatype "write" = WValue key gval | WGroup key gval

type_synonym contents = "(key \<Rightarrow> gval option) \<times> (key \<Rightarrow> gval list)"

fun put :: "write \<Rightarrow> contents \<Rightarrow> contents" where
  "put (WValue k v) (V, G) = (V(k \<mapsto> v), G)"
| "put (WGroup k v) (V, G) = (V, G(k := G k @ [v]))"

definition tracer :: "write list containerWriter" where
  "tracer =
     \<lparr>cwSetValue = (\<lambda>name t v. doS (\<lambda>ws. ws @ [WValue (value_key name t) v])),
      cwSetDecoratedValue = (\<lambda>name t v. panicS bugPanic),
      cwSubmitGroupedValue = (\<lambda>name t v. doS (\<lambda>ws. ws @ [WGroup (group_key name t) v])),
      cwSubmitDecoratedGroupedValue = (\<lambda>name t v. panicS bugPanic)\<rparr>"

locale lawful_writer =
  fixes cw :: "'w containerWriter" and valid :: "'w \<Rightarrow> bool" and contents :: "'w \<Rightarrow> contents"
  assumes set_value: "valid w \<Longrightarrow> \<exists>w'. cwSetValue cw name t v w = (Ret (), w') \<and> valid w' \<and>
      contents w' = put (WValue (value_key name t) v) (contents w)"
    and submit: "valid w \<Longrightarrow> \<exists>w'. cwSubmitGroupedValue cw name t v w = (Ret (), w') \<and> valid w' \<and>
      contents w' = put (WGroup (group_key name t) v) (contents w)"
begin

text \<open>Having made the writes \<open>ws\<close> from the contents \<open>C\<close>.\<close>

definition traced :: "contents \<Rightarrow> write list \<Rightarrow> 'w \<Rightarrow> bool" where
  "traced C ws w \<longleftrightarrow> valid w \<and> contents w = fold put ws C"

lemma simulates_writes:
  "simulates (traced C) (cwSetValue tracer name t v) (cwSetValue cw name t v)"
  "simulates (traced C) (cwSubmitGroupedValue tracer name t v) (cwSubmitGroupedValue cw name t v)"
  using set_value [of _ name t v] submit [of _ name t v]
  by (fastforce simp: simulates_def traced_def tracer_def)+

lemma simulates_Extract: "simulates (traced C) (Extract tracer r False v) (Extract cw r False v)"
proof (induction tracer r False v rule: Extract.induct)
  case (1 name t as v)
  show ?case by (simp, intro simulates_bindS simulates_forS simulates_writes)
next
  case (2 t fs v)
  have "simulates (traced C)
      (case valueField v (rofIndex f) of Some x \<Rightarrow> Extract tracer (rofResult f) False x
        | None \<Rightarrow> panicS (VRuntime ''reflect: Field of non-struct type''))
      (case valueField v (rofIndex f) of Some x \<Rightarrow> Extract cw (rofResult f) False x
        | None \<Rightarrow> panicS (VRuntime ''reflect: Field of non-struct type''))" if "f \<in> set fs" for f
    using 2 that by (simp add: simulates_const split: option.split)
  then show ?case unfolding Extract.simps by (rule simulates_forS)
next
  case (3 g t flatten as v)
  show ?case
    by (cases "elements v") (simp_all, (intro conjI impI simulates_bindS simulates_forS simulates_writes simulates_const)+)
qed

lemma simulates_ExtractList: "simulates (traced C) (ExtractList tracer rl False vs) (ExtractList cw rl False vs)"
  unfolding ExtractList_def
  by (rule simulates_forS)
    (auto simp: Let_def simulates_const simulates_Extract simp del: retS_app split: option.split)

text \<open>So extracting results makes the writes that the tracer records, with the same outcome.\<close>

lemma ExtractList_contents:
  assumes "valid w" and "ExtractList tracer rl False vs [] = (r, ws)"
  shows "\<exists>w'. ExtractList cw rl False vs w = (r, w') \<and> valid w' \<and> contents w' = fold put ws (contents w)"
proof -
  have "traced (contents w) [] w" using assms(1) by (simp add: traced_def)
  from simulatesD [OF simulates_ExtractList this, of rl vs] assms(2) show ?thesis
    by (cases "ExtractList cw rl False vs w") (auto simp: traced_def)
qed

end

subsection \<open>The two writers\<close>

definition scope_contents :: "nat \<Rightarrow> store \<Rightarrow> contents" where
  "scope_contents s \<sigma> = (map_of (sc_values (scope_of \<sigma> s)), al_get [] (groups (scope_of \<sigma> s)))"

interpretation scope_writer: lawful_writer "scopeWriter s" "\<lambda>\<sigma>. s < length (scopes \<sigma>)" "scope_contents s" for s
  by standard
    (auto simp: scopeWriter_def setValue_def submitGroupedValue_def upd_scope_def scope_contents_def Let_def fun_eq_iff)

text \<open>A staging writer holds maps: distinct keys, of values in one and of groups in the other.\<close>

definition staging_ok :: "staging \<Rightarrow> bool" where
  "staging_ok sr \<longleftrightarrow> distinct (map fst (st_values sr)) \<and> distinct (map fst (st_groups sr)) \<and>
     (\<forall>k \<in> fst ` set (st_values sr). key_group k = []) \<and> (\<forall>k \<in> fst ` set (st_groups sr). key_name k = [])"

definition staging_contents :: "staging \<Rightarrow> contents" where
  "staging_contents sr = (map_of (st_values sr), al_get [] (st_groups sr))"

interpretation staging_writer: lawful_writer stagingWriter staging_ok staging_contents
  by standard
    (auto simp: stagingWriter_def stSetValue_def stSubmitGroupedValue_def staging_ok_def staging_contents_def Let_def
      fun_eq_iff distinct_update dest!: set_AList_update [THEN subsetD])

subsection \<open>Commit\<close>

lemma put_fold:
  "fold put ws (V, G) =
     (V ++ fst (fold put ws (Map.empty, \<lambda>_. [])), \<lambda>k. G k @ snd (fold put ws (Map.empty, \<lambda>_. [])) k)"
proof (induction ws rule: rev_induct)
  case (snoc w ws)
  obtain V' G' where "fold put ws (Map.empty, \<lambda>_. []) = (V', G')" by fastforce
  with snoc show ?case by (cases w) (auto simp: fun_eq_iff map_add_def split: option.split)
qed simp

lemma scope_contents_upd:
  "s < length (scopes \<sigma>) \<Longrightarrow> scope_contents s (setValue s name t v \<sigma>) =
     put (WValue (value_key name t) v) (scope_contents s \<sigma>)"
  "s < length (scopes \<sigma>) \<Longrightarrow> scope_contents s (submitGroupedValue s g t v \<sigma>) =
     put (WGroup (group_key g t) v) (scope_contents s \<sigma>)"
  by (simp_all add: setValue_def submitGroupedValue_def upd_scope_def scope_contents_def Let_def fun_eq_iff)

lemma length_writes [simp]:
  "length (scopes (setValue s name t v \<sigma>)) = length (scopes \<sigma>)"
  "length (scopes (submitGroupedValue s g t v \<sigma>)) = length (scopes \<sigma>)"
  by (simp_all add: setValue_def submitGroupedValue_def)

text \<open>Whatever the order in which the two maps are gone through.\<close>

lemma commitValues_contents:
  assumes "s < length (scopes \<sigma>)" and "distinct (map fst vs)" and "\<forall>k \<in> fst ` set vs. key_group k = []"
  shows "scope_contents s (commitValues s vs \<sigma>) = (fst (scope_contents s \<sigma>) ++ map_of vs, snd (scope_contents s \<sigma>))"
    and "length (scopes (commitValues s vs \<sigma>)) = length (scopes \<sigma>)"
proof -
  have "scope_contents s (commitValues s vs \<sigma>) = (fst (scope_contents s \<sigma>) ++ map_of vs, snd (scope_contents s \<sigma>)) \<and>
      length (scopes (commitValues s vs \<sigma>)) = length (scopes \<sigma>)"
    using assms
  proof (induction vs arbitrary: \<sigma>)
    case (Cons kv vs)
    obtain name t v where kv: "kv = (value_key name t, v)" using Cons.prems(3) by (cases kv; cases "fst kv") auto
    then have "map_of vs (value_key name t) = None" using Cons.prems(2) by (simp add: map_of_eq_None_iff)
    moreover obtain V G where "scope_contents s \<sigma> = (V, G)" by fastforce
    ultimately show ?case
      using Cons.IH [of "setValue s name t v \<sigma>"] Cons.prems
      by (auto simp: commitValues_def kv scope_contents_upd map_add_def fun_eq_iff split: option.split)
  qed (simp add: commitValues_def)
  then show "scope_contents s (commitValues s vs \<sigma>) = (fst (scope_contents s \<sigma>) ++ map_of vs, snd (scope_contents s \<sigma>))"
    and "length (scopes (commitValues s vs \<sigma>)) = length (scopes \<sigma>)" by simp_all
qed

lemma submit_all_contents:
  assumes "s < length (scopes \<sigma>)"
  shows "scope_contents s (fold (\<lambda>v. submitGroupedValue s g t v) vs \<sigma>) =
      (fst (scope_contents s \<sigma>), (snd (scope_contents s \<sigma>))(group_key g t := snd (scope_contents s \<sigma>) (group_key g t) @ vs))"
    and "length (scopes (fold (\<lambda>v. submitGroupedValue s g t v) vs \<sigma>)) = length (scopes \<sigma>)"
proof -
  have "scope_contents s (fold (\<lambda>v. submitGroupedValue s g t v) vs \<sigma>) =
      (fst (scope_contents s \<sigma>), (snd (scope_contents s \<sigma>))(group_key g t := snd (scope_contents s \<sigma>) (group_key g t) @ vs)) \<and>
      length (scopes (fold (\<lambda>v. submitGroupedValue s g t v) vs \<sigma>)) = length (scopes \<sigma>)"
    using assms
  proof (induction vs arbitrary: \<sigma>)
    case (Cons v vs)
    obtain V G where "scope_contents s \<sigma> = (V, G)" by fastforce
    then show ?case
      using Cons.IH [of "submitGroupedValue s g t v \<sigma>"] Cons.prems by (simp add: scope_contents_upd fun_eq_iff)
  qed simp
  then show "scope_contents s (fold (\<lambda>v. submitGroupedValue s g t v) vs \<sigma>) =
      (fst (scope_contents s \<sigma>), (snd (scope_contents s \<sigma>))(group_key g t := snd (scope_contents s \<sigma>) (group_key g t) @ vs))"
    and "length (scopes (fold (\<lambda>v. submitGroupedValue s g t v) vs \<sigma>)) = length (scopes \<sigma>)" by simp_all
qed

lemma commitGroups_contents:
  assumes "s < length (scopes \<sigma>)" and "distinct (map fst gs)" and "\<forall>k \<in> fst ` set gs. key_name k = []"
  shows "scope_contents s (commitGroups s gs \<sigma>) =
    (fst (scope_contents s \<sigma>), \<lambda>k. snd (scope_contents s \<sigma>) k @ al_get [] gs k)"
  using assms
proof (induction gs arbitrary: \<sigma>)
  case (Cons kv gs)
  obtain g t vs where kv: "kv = (group_key g t, vs)" using Cons.prems(3) by (cases kv; cases "fst kv") auto
  then have "map_of gs (group_key g t) = None" using Cons.prems(2) by (simp add: map_of_eq_None_iff)
  then show ?case
    using Cons.IH [of "fold (\<lambda>v. submitGroupedValue s g t v) vs \<sigma>"] Cons.prems
    by (simp add: commitGroups_def kv submit_all_contents al_get_def fun_eq_iff)
qed (simp add: commitGroups_def)

lemma commit_contents:
  assumes "s < length (scopes \<sigma>)" and ok: "staging_ok sr"
    and "mset vs = mset (st_values sr)" and "mset gs = mset (st_groups sr)"
  shows "scope_contents s (commitGroups s gs (commitValues s vs \<sigma>)) =
    (fst (scope_contents s \<sigma>) ++ fst (staging_contents sr),
     \<lambda>k. snd (scope_contents s \<sigma>) k @ snd (staging_contents sr) k)"
proof -
  have distinct: "distinct (map fst vs)" "distinct (map fst gs)"
    using ok assms(3,4) by (metis staging_ok_def mset_map mset_eq_imp_distinct_iff)+
  have sets: "set vs = set (st_values sr)" "set gs = set (st_groups sr)"
    using assms(3,4) by (metis mset_eq_setD)+
  have "map_of vs = map_of (st_values sr)" and "map_of gs = map_of (st_groups sr)"
    using distinct sets ok by (simp_all add: staging_ok_def map_of_inject_set)
  then have "map_of vs = map_of (st_values sr)" and "al_get [] gs = al_get [] (st_groups sr)"
    by (simp_all add: al_get_def fun_eq_iff)
  with distinct sets ok assms(1) show ?thesis
    by (simp add: commitGroups_contents commitValues_contents staging_ok_def staging_contents_def)
qed

lemma staging_new: "staging_ok newStagingContainerWriter" "staging_contents newStagingContainerWriter = (Map.empty, \<lambda>_. [])"
  by (simp_all add: newStagingContainerWriter_def staging_ok_def staging_contents_def fun_eq_iff)

lemma staged:
  assumes "ExtractList stagingWriter rl False vs newStagingContainerWriter = (r, sr)"
  obtains ws where "ExtractList tracer rl False vs [] = (r, ws)" and "staging_ok sr"
    and "staging_contents sr = fold put ws (Map.empty, \<lambda>_. [])"
proof -
  obtain r' ws where ws: "ExtractList tracer rl False vs [] = (r', ws)" by fastforce
  from staging_writer.ExtractList_contents [OF staging_new(1) ws] assms that ws show ?thesis
    by (auto simp: staging_new(2))
qed

text \<open>
  C26: Staging refines writing directly: the results of a constructor that are staged and then
  committed, in whatever order Go goes through the staged maps, leave the scope with the values and
  groups that extracting them into the scope itself leaves; and both fail alike.
\<close>

theorem commit_refines_direct_write:
  assumes "ExtractList stagingWriter rl False vs newStagingContainerWriter = (r, sr)" and s: "s < length (scopes \<sigma>)"
    and perm: "mset vals = mset (st_values sr)" "mset gs = mset (st_groups sr)"
  shows "\<exists>\<sigma>'. ExtractList (scopeWriter s) rl False vs \<sigma> = (r, \<sigma>') \<and>
    scope_contents s \<sigma>' = scope_contents s (commitGroups s gs (commitValues s vals \<sigma>)) \<and>
    scope_contents s \<sigma>' = scope_contents s (Commit sr s \<sigma>)"
proof -
  obtain ws where ws: "ExtractList tracer rl False vs [] = (r, ws)" and ok: "staging_ok sr"
    and sr: "staging_contents sr = fold put ws (Map.empty, \<lambda>_. [])" using staged [OF assms(1)] .
  obtain \<sigma>' where "ExtractList (scopeWriter s) rl False vs \<sigma> = (r, \<sigma>')"
    and "scope_contents s \<sigma>' = fold put ws (scope_contents s \<sigma>)"
    using scope_writer.ExtractList_contents [OF s ws] by blast
  moreover have "fold put ws (scope_contents s \<sigma>) = (fst (scope_contents s \<sigma>) ++ fst (staging_contents sr),
     \<lambda>k. snd (scope_contents s \<sigma>) k @ snd (staging_contents sr) k)"
    using put_fold [of ws "fst (scope_contents s \<sigma>)" "snd (scope_contents s \<sigma>)"] by (simp add: sr)
  ultimately show ?thesis
    using commit_contents [OF s ok perm] commit_contents [OF s ok refl refl] by (simp add: Commit_def)
qed

text \<open>What a constructor of an int returns, and the list of its one result.\<close>

definition int_results :: resultList where
  "int_results = \<lparr>rlCtype = funcT [] [intT], Results = [resultSingle [] intT []], resultIndexes = [0]\<rparr>"

theorem commit_refines_direct_write_witness:
  "\<exists>\<sigma>'. ExtractList (scopeWriter 0) int_results False [VData intT 7] (New []) = (Ret (), \<sigma>') \<and>
     scope_contents 0 \<sigma>' = scope_contents 0 (commitGroups 0 [] (commitValues 0 [(value_key [] intT, VData intT 7)] (New []))) \<and>
     scope_contents 0 \<sigma>' = scope_contents 0 (Commit \<lparr>st_values = [(value_key [] intT, VData intT 7)], st_groups = []\<rparr> 0 (New []))"
  by (rule commit_refines_direct_write) code_simp+

subsection \<open>Running a constructor publishes all or nothing\<close>

text \<open>What the code around the call of user code adds: events and clock readings.\<close>

definition nodes_of :: "store \<Rightarrow> scope list \<times> constructorNode list \<times> decoratorNode list" where
  "nodes_of \<sigma> = (scopes \<sigma>, ctors \<sigma>, dcors \<sigma>)"

lemma withCallback_nodes:
  assumes "withCallback E cb name m \<sigma> = (r, \<sigma>')"
  obtains k \<sigma>2 where "m (\<sigma>\<lparr>ticks := k\<rparr>) = (r, \<sigma>2)" and "nodes_of \<sigma>' = nodes_of \<sigma>2"
proof (cases cb)
  case None
  with assms have "m (\<sigma>\<lparr>ticks := ticks \<sigma>\<rparr>) = (r, \<sigma>')" by (simp add: withCallback_def)
  then show ?thesis using that by blast
next
  case (Some k)
  obtain r2 \<sigma>2 where m: "m (\<sigma>\<lparr>ticks := Suc (ticks \<sigma>)\<rparr>) = (r2, \<sigma>2)" by fastforce
  with assms Some have "r2 = r" "nodes_of \<sigma>' = nodes_of \<sigma>2"
    by (cases r2; auto simp: withCallback_def clockNow_def Let_def nodes_of_def)+
  with m that show ?thesis by blast
qed

lemma recoverS_cases:
  assumes "recoverS b fn m \<sigma> = (r, \<sigma>')"
  obtains r' where "m \<sigma> = (r', \<sigma>')" and "\<forall>x. r = Ret x \<longleftrightarrow> r' = Ret x"
  using assms by (cases "m \<sigma>"; cases "fst (m \<sigma>)") (auto simp: recoverS_def split: if_splits)

lemma nodes_of_invoke_fn: "nodes_of (snd (invoke_fn E ivk who f args \<sigma>)) = nodes_of \<sigma>"
  using snd_invoke_fn [of E ivk who f args \<sigma>] by (auto simp: nodes_of_def)

lemma nodes_of_before: "nodes_of (before cb name \<sigma>) = nodes_of \<sigma>"
  by (simp add: before_def nodes_of_def split: option.split)

lemma fst_invoke_fn_log: "log \<sigma>' = log \<sigma> \<Longrightarrow> fst (invoke_fn E ivk who f args \<sigma>') = fst (invoke_fn E ivk who f args \<sigma>)"
  by (simp add: invoke_fn_def split: invoker.split outcome.split)

definition publishes :: "constructorNode \<Rightarrow> nat \<Rightarrow> gval list \<Rightarrow> store \<Rightarrow> store \<Rightarrow> bool" where
  "publishes N n vs \<sigma> \<sigma>' \<longleftrightarrow>
     (\<exists>ws. ExtractList tracer (cn_resultList N) False vs [] = (Ret (), ws) \<and>
        scope_contents (cn_s N) \<sigma>' = fold put ws (scope_contents (cn_s N) \<sigma>) \<and>
        (\<forall>t. t \<noteq> cn_s N \<longrightarrow> scope_of \<sigma>' t = scope_of \<sigma> t) \<and>
        ctors \<sigma>' = (ctors \<sigma>)[n := N\<lparr>cn_called := True\<rparr>] \<and> dcors \<sigma>' = dcors \<sigma>)"

lemma scope_of_Commit: "t \<noteq> s \<Longrightarrow> scope_of (Commit sr s \<sigma>) t = scope_of \<sigma> t"
  by (rule Commit_frame) (simp_all add: setValue_def submitGroupedValue_def upd_scope_def)

lemma ctorFinish_cases:
  assumes s: "cn_s (ctor_of \<sigma> n) < length (scopes \<sigma>)" and "ctorFinish n vs \<sigma> = (r, \<sigma>')"
  shows "if r = Ret () then publishes (ctor_of \<sigma> n) n vs \<sigma> \<sigma>' else \<sigma>' = \<sigma>"
proof -
  let ?N = "ctor_of \<sigma> n"
  obtain r' sr where sr: "ExtractList stagingWriter (cn_resultList ?N) False vs newStagingContainerWriter = (r', sr)" by fastforce
  show ?thesis
  proof (cases "r' = Ret ()")
    case True
    obtain ws where ws: "ExtractList tracer (cn_resultList ?N) False vs [] = (r', ws)" "staging_ok sr"
      "staging_contents sr = fold put ws (Map.empty, \<lambda>_. [])" using staged [OF sr] .
    have "scope_contents (cn_s ?N) (Commit sr (cn_s ?N) \<sigma>) = fold put ws (scope_contents (cn_s ?N) \<sigma>)"
      using commit_contents [OF s ws(2) refl refl] ws(3)
        put_fold [of ws "fst (scope_contents (cn_s ?N) \<sigma>)" "snd (scope_contents (cn_s ?N) \<sigma>)"]
      by (simp add: Commit_def)
    moreover have "r = Ret ()" "\<sigma>' = upd_ctor n (\<lambda>c. c\<lparr>cn_called := True\<rparr>) (Commit sr (cn_s ?N) \<sigma>)"
      using assms(2) sr True by (simp_all add: ctorFinish_def Let_def)
    ultimately show ?thesis
      using ws(1) True by (auto simp: publishes_def scope_of_Commit scope_contents_def upd_ctor_def)
  next
    case False
    with assms(2) sr show ?thesis by (cases r') (auto simp: ctorFinish_def Let_def)
  qed
qed

lemma ctorRun_outcome:
  fixes E n c \<sigma> defines "N \<equiv> ctor_of \<sigma> n"
  assumes s: "cn_s N < length (scopes \<sigma>)" and run: "ctorRun E n c args \<sigma> = (r, \<sigma>')"
  shows "if r = Ret () then
      \<exists>vs. fst (invoke_fn E (invokerFn (scope_of \<sigma> c)) (ByCtor n) (cn_ctor N) args
          (before (cn_beforeCallback N) (callbackName (cn_location N)) \<sigma>)) = Ret vs \<and> publishes N n vs \<sigma> \<sigma>'
    else nodes_of \<sigma>' = nodes_of \<sigma>"
proof -
  let ?\<sigma>1 = "before (cn_beforeCallback N) (callbackName (cn_location N)) \<sigma>"
  let ?call = "invoke_fn E (invokerFn (scope_of \<sigma> c)) (ByCtor n) (cn_ctor N) args"
  obtain k \<sigma>2 where 2: "recoverS (recoverFromPanics (scope_of \<sigma> (cn_s N))) (cn_location N)
      (bindS ?call (ctorFinish n)) (?\<sigma>1\<lparr>ticks := k\<rparr>) = (r, \<sigma>2)" and nodes: "nodes_of \<sigma>' = nodes_of \<sigma>2"
    using run unfolding ctorRun_def Let_def N_def by (rule withCallback_nodes)
  obtain r' where r': "bindS ?call (ctorFinish n) (?\<sigma>1\<lparr>ticks := k\<rparr>) = (r', \<sigma>2)" "\<forall>x. r = Ret x \<longleftrightarrow> r' = Ret x"
    by (rule recoverS_cases [OF 2])
  obtain r3 \<sigma>3 where call: "?call (?\<sigma>1\<lparr>ticks := k\<rparr>) = (r3, \<sigma>3)" by fastforce
  have nodes3: "nodes_of \<sigma>3 = nodes_of \<sigma>"
    using nodes_of_invoke_fn [of E "invokerFn (scope_of \<sigma> c)" "ByCtor n" "cn_ctor N" args "?\<sigma>1\<lparr>ticks := k\<rparr>"]
      nodes_of_before [of "cn_beforeCallback N" "callbackName (cn_location N)" \<sigma>]
    by (simp add: call nodes_of_def)
  show ?thesis
  proof (cases r3)
    case (Ret vs)
    have "fst (?call ?\<sigma>1) = Ret vs"
      using call Ret fst_invoke_fn_log [of ?\<sigma>1 "?\<sigma>1\<lparr>ticks := k\<rparr>"] by simp
    moreover have "if r' = Ret () then publishes N n vs \<sigma>3 \<sigma>2 else \<sigma>2 = \<sigma>3"
      using ctorFinish_cases [of \<sigma>3 n vs r' \<sigma>2] r'(1) call Ret nodes3 s
      by (simp add: bindS_def nodes_of_def N_def split: if_splits)
    ultimately show ?thesis
      using nodes nodes3 r'(2) by (auto simp: publishes_def nodes_of_def scope_contents_def)
  qed (use r' call nodes nodes3 in \<open>auto simp: bindS_def\<close>)
qed

text \<open>
  C27: A run of a constructor that does not return normally (it returned an error, panicked, or its results
  could not be extracted) publishes nothing: every scope and every node is as before, so the constructor
  is not marked as called and no partial result is visible. A run that returns normally marks it as
  called and adds to its scope, and to no other, exactly the writes that its result list describes for
  the values that the constructor returned.
\<close>

theorem ctorRun_all_or_nothing:
  fixes E n c \<sigma> defines "N \<equiv> ctor_of \<sigma> n"
  assumes s: "cn_s N < length (scopes \<sigma>)" and run: "ctorRun E n c args \<sigma> = (r, \<sigma>')"
  shows "if r = Ret () then
      \<exists>vs. fst (invoke_fn E (invokerFn (scope_of \<sigma> c)) (ByCtor n) (cn_ctor N) args
          (before (cn_beforeCallback N) (callbackName (cn_location N)) \<sigma>)) = Ret vs \<and> publishes N n vs \<sigma> \<sigma>'
    else nodes_of \<sigma>' = nodes_of \<sigma>"
  using assms(2,3) ctorRun_outcome unfolding N_def by blast

theorem ctorRun_all_or_nothing_witness:
  "\<exists>vs. fst (invoke_fn demoE (invokerFn (scope_of demo1 0)) (ByCtor 0) (cn_ctor (ctor_of demo1 0)) []
      (before (cn_beforeCallback (ctor_of demo1 0)) (callbackName (cn_location (ctor_of demo1 0))) demo1)) = Ret vs \<and>
    publishes (ctor_of demo1 0) 0 vs demo1 (snd (ctorRun demoE 0 0 [] demo1))"
proof -
  have "cn_s (ctor_of demo1 0) < length (scopes demo1)" "fst (ctorRun demoE 0 0 [] demo1) = Ret ()" by code_simp+
  with ctorRun_all_or_nothing [of demo1 0 demoE 0 "[]"] show ?thesis by (metis prod.collapse)
qed

end
