(* ===== verification/Termination.thy ===== *)
theory Termination
  imports Runs Demo
begin

text \<open>
  The recursion of calls ends (src/param.go, src/constructor.go, src/decorate.go). A constructor calls
  the providers of its parameters and the decorators of their keys. When the providers that
  constructors call can be ranked, so that each calls only providers of lower rank, the depth of
  the recursion is bounded: decorators are not ranked, but a decorator that is called is taken off
  the decorators that are ready, and none becomes ready again. \<open>Invoke\<close> then returns or panics with
  the fuel \<open>(ready + 1) * (ctors + 1)\<close>.
\<close>

subsection \<open>Running a node ends\<close>

abbreviation ends :: "('s, 'a) eff \<Rightarrow> bool" where
  "ends m \<equiv> fine False (\<lambda>_. True) m"

lemma ends_iff: "ends m \<longleftrightarrow> (\<forall>\<sigma>. fst (m \<sigma>) \<noteq> Diverged)"
  by (simp add: fine_def fine_at_def)

lemma ends_Extract:
  assumes "\<And>name t v. ends (cwSetValue cw name t v)" and "\<And>name t v. ends (cwSetDecoratedValue cw name t v)"
    and "\<And>name t v. ends (cwSubmitGroupedValue cw name t v)"
    and "\<And>name t v. ends (cwSubmitDecoratedGroupedValue cw name t v)"
  shows "ends (Extract cw r decorated v)"
  using assms
proof (induction cw r decorated v rule: Extract.induct)
  case (2 cw t fs decorated v)
  have "ends (case valueField v (rofIndex f) of
      Some x \<Rightarrow> Extract cw (rofResult f) decorated x
    | None \<Rightarrow> panicS (VRuntime ''reflect: Field of non-struct type''))" if "f \<in> set fs" for f
    using 2 that by (cases "valueField v (rofIndex f)") (simp_all add: fine_panicS)
  then show ?case unfolding Extract.simps by (rule fine_forS)
qed (auto intro!: fine_intros split: option.split)

lemma ends_ExtractList:
  assumes "\<And>r v. ends (Extract cw r decorated v)"
  shows "ends (ExtractList cw rl decorated values)"
  unfolding ExtractList_def
  by (intro fine_forS)
    (auto simp: Let_def assms simp del: retS_app intro: fine_intros split: option.split)

lemma ends_writers:
  "ends (Extract stagingWriter r decorated v)" "ends (Extract (scopeWriter s) r decorated v)"
  by (rule ends_Extract; simp add: stagingWriter_def scopeWriter_def ends_iff)+

lemma ends_invoke_fn: "ends (invoke_fn E ivk who f args)"
  by (simp add: ends_iff invoke_fn_def split: invoker.split outcome.split)

lemma ends_ctorFinish: "ends (ctorFinish n vs)"
proof -
  have "fst (ExtractList stagingWriter rl False vs w) \<noteq> Diverged" for rl w
    using ends_ExtractList [OF ends_writers(1)] by (simp add: ends_iff)
  then show ?thesis
    by (auto simp: ends_iff ctorFinish_def Let_def split: prod.split res.split) (metis fst_conv)
qed

lemma ends_dcorFinish: "ends (dcorFinish d vs)"
proof -
  have "ends (bindS (ExtractList (scopeWriter s) rl True vs) (\<lambda>_. doS (setState d decoratorCalled)))" for s rl
    by (intro fine_bindS ends_ExtractList ends_writers) (simp add: ends_iff)
  then show ?thesis unfolding dcorFinish_def Let_def by (rule fine_here)
qed

lemma ends_recoverS: "ends m \<Longrightarrow> ends (recoverS b fn m)"
  by (auto simp: ends_iff recoverS_def split: prod.split res.split) (metis fst_conv)

lemma ends_withCallback: "ends m \<Longrightarrow> ends (withCallback E cb name m)"
  by (auto simp: ends_iff withCallback_def clockNow_def Let_def split: option.split prod.split res.split)
    (metis fst_conv)

lemma ends_ctorRun: "ends (ctorRun E n c args)"
proof -
  have "ends (withCallback E cb name (recoverS b fn (bindS (invoke_fn E ivk who f args) (ctorFinish n))))"
    for cb name b fn ivk who f
    by (intro ends_withCallback ends_recoverS fine_bindS ends_invoke_fn ends_ctorFinish)
  then show ?thesis by (simp add: ends_iff ctorRun_def Let_def)
qed

lemma ends_dcorRun: "ends (dcorRun E d s args)"
proof -
  have "ends (withCallback E cb name (recoverS b fn (bindS (invoke_fn E ivk who f args) (dcorFinish d))))"
    for cb name b fn ivk who f
    by (intro ends_withCallback ends_recoverS fine_bindS ends_invoke_fn ends_dcorFinish)
  then show ?thesis by (simp add: ends_iff dcorRun_def Let_def)
qed

subsection \<open>The measure: ready decorators, then the rank of the constructor\<close>

definition ready :: "store \<Rightarrow> nat" where
  "ready \<sigma> = length (filter (\<lambda>d. dn_state d = decoratorReady) (dcors \<sigma>))"

lemma ready_card: "ready \<sigma> = card {d. d < length (dcors \<sigma>) \<and> dn_state (dcor_of \<sigma> d) = decoratorReady}"
  by (simp add: ready_def length_filter_conv_card)

lemma advances_ready: "advances \<sigma> \<sigma>' \<Longrightarrow> ready \<sigma>' \<le> ready \<sigma>"
  unfolding ready_card
  by (rule card_mono) (auto simp: advances_def state_rank_Ready [symmetric])

lemma ready_setState:
  assumes d: "d < length (dcors \<sigma>)" and ready: "dn_state (dcor_of \<sigma> d) = decoratorReady"
  shows "ready (setState d decoratorOnStack \<sigma>) < ready \<sigma>"
proof -
  let ?D = "\<lambda>\<sigma>. {e. e < length (dcors \<sigma>) \<and> dn_state (dcor_of \<sigma> e) = decoratorReady}"
  have "e \<in> ?D (setState d decoratorOnStack \<sigma>) \<longleftrightarrow> e \<in> ?D \<sigma> \<and> e \<noteq> d" for e
    by (cases "e = d") (auto simp: setState_def upd_dcor_def nth_list_update)
  then have "?D (setState d decoratorOnStack \<sigma>) = ?D \<sigma> - {d}" by blast
  moreover have "card (?D \<sigma> - {d}) < card (?D \<sigma>)"
    using d ready by (intro card_Diff1_less) simp_all
  ultimately show ?thesis unfolding ready_card by (simp only:)
qed

text \<open>The states of a run from \<open>\<sigma>0\<close> in which at most \<open>r\<close> decorators are ready.\<close>

definition during :: "store \<Rightarrow> nat \<Rightarrow> store \<Rightarrow> bool" where
  "during \<sigma>0 r \<sigma> \<longleftrightarrow> static \<sigma> = static \<sigma>0 \<and> ready \<sigma> \<le> r"

lemma fine_during:
  assumes "ends m" and "keeps same_static m" and "keeps advances m"
  shows "fine False (during \<sigma>0 r) m"
proof (rule fineI)
  fix \<sigma> assume "during \<sigma>0 r \<sigma>"
  moreover have "static (snd (m \<sigma>)) = static \<sigma>" "ready (snd (m \<sigma>)) \<le> ready \<sigma>"
    using assms(2,3) advances_ready by (simp_all add: keeps_def same_static_def)
  ultimately show "fine_at False (during \<sigma>0 r) \<sigma> m"
    using assms(1) by (simp add: fine_at_def during_def ends_iff)
qed

lemma fine_during_ctorRun: "fine False (during \<sigma>0 r) (ctorRun E n c args)"
  by (intro fine_during ends_ctorRun static_ctorRun advances_ctorRun)

lemma fine_during_dcorRun: "fine False (during \<sigma>0 r) (dcorRun E d s args)"
  by (intro fine_during ends_dcorRun static_dcorRun advances_dcorRun)

subsection \<open>Enough fuel\<close>

text \<open>
  A ranking below \<open>B\<close> of the constructors: every provider that building the parameters of a
  constructor may call has a lower rank.
\<close>

definition ranked :: "store \<Rightarrow> (nat \<Rightarrow> nat) \<Rightarrow> nat \<Rightarrow> bool" where
  "ranked \<sigma> rank B \<longleftrightarrow> (\<forall>n < length (ctors \<sigma>). rank n < B \<and>
     (\<forall>p \<in> set (Params (cn_paramList (ctor_of \<sigma> n))). \<forall>m \<in> callees \<sigma> (cn_origS (ctor_of \<sigma> n)) p. rank m < rank n))"

lemma fine_at_mono: "fine_at D I \<sigma> m \<Longrightarrow> (\<And>\<sigma>. I \<sigma> \<Longrightarrow> J \<sigma>) \<Longrightarrow> fine_at D J \<sigma> m"
  by (simp add: fine_at_def)

lemma fine_at_ctorCall:
  assumes "during \<sigma>0 r \<sigma>" and ok: "calls_fine False (during \<sigma>0 r) cC cD c S M"
    and wf: "wf_tree \<sigma>0" "c < length (scopes \<sigma>0)"
    and M: "\<And>p. p \<in> set (Params (cn_paramList (ctor_of \<sigma> n))) \<Longrightarrow> callees \<sigma>0 c p \<subseteq> M"
  shows "fine_at False (during \<sigma>0 r) \<sigma> (ctorCall E cC cD n c)"
proof -
  have "callees \<sigma>' c p \<subseteq> M" if "during \<sigma>0 r \<sigma>'" "p \<in> set (Params (cn_paramList (ctor_of \<sigma> n)))" for \<sigma>' p
    using M [OF that(2)] that(1) static_callees [OF _ wf, of \<sigma>' p] by (simp add: during_def)
  then have "fine False (during \<sigma>0 r) (bindS (wrapS w (BuildList E cC cD (cn_paramList (ctor_of \<sigma> n)) c)) (ctorRun E n c))"
    for w by (intro fine_bindS fine_wrapS fine_BuildList [OF ok] fine_during_ctorRun)
  from fineD [OF this assms(1)] show ?thesis
    using assms(1) by (simp add: fine_at_def ctorCall_def Let_def split: option.split)
qed

lemma fine_at_dcorCall:
  assumes "during \<sigma>0 r (setState d decoratorOnStack \<sigma>)"
    and ok: "calls_fine False (during \<sigma>0 r) cC cD (dn_s (dcor_of \<sigma> d)) S M"
    and wf: "wf_tree \<sigma>0" "dn_s (dcor_of \<sigma> d) < length (scopes \<sigma>0)"
    and M: "\<And>p. p \<in> set (Params (dn_params (dcor_of \<sigma> d))) \<Longrightarrow> callees \<sigma>0 (dn_s (dcor_of \<sigma> d)) p \<subseteq> M"
    and "dn_state (dcor_of \<sigma> d) \<noteq> decoratorCalled"
  shows "fine_at False (during \<sigma>0 r) \<sigma> (dcorCall E cC cD d s)"
proof -
  have "callees \<sigma>' (dn_s (dcor_of \<sigma> d)) p \<subseteq> M"
    if "during \<sigma>0 r \<sigma>'" "p \<in> set (Params (dn_params (dcor_of \<sigma> d)))" for \<sigma>' p
    using M [OF that(2)] that(1) static_callees [OF _ wf, of \<sigma>' p] by (simp add: during_def)
  then have "fine False (during \<sigma>0 r)
      (bindS (wrapS w (BuildList E cC cD (dn_params (dcor_of \<sigma> d)) (dn_s (dcor_of \<sigma> d)))) (dcorRun E d s))"
    for w by (intro fine_bindS fine_wrapS fine_BuildList [OF ok] fine_during_dcorRun)
  from fineD [OF this assms(1)] show ?thesis
    using assms(1,6) by (simp add: fine_at_def dcorCall_def Let_def split: option.split)
qed

lemma during_rand: "during \<sigma>0 r \<sigma> \<Longrightarrow> during \<sigma>0 r (upd_scope s (\<lambda>sc. sc\<lparr>rand := Suc (rand sc)\<rparr>) \<sigma>)"
  by (simp add: during_def static_upd_scope static_scope_def ready_def)

text \<open>
  A call of the constructor \<open>n\<close> with at most \<open>r\<close> ready decorators needs the fuel
  \<open>r * (B + 1) + rank n + 2\<close>, a call of a decorator \<open>r * (B + 1) + 1\<close>.
\<close>

definition fuel_ok :: "env \<Rightarrow> store \<Rightarrow> (nat \<Rightarrow> nat) \<Rightarrow> nat \<Rightarrow> nat \<Rightarrow> bool" where
  "fuel_ok E \<sigma>0 rank B k \<longleftrightarrow>
     (\<forall>c r N. c < length (scopes \<sigma>0) \<longrightarrow> r * (B + 1) < k \<longrightarrow>
        (\<forall>n \<in> N. n < length (ctors \<sigma>0) \<and> r * (B + 1) + rank n + 2 \<le> k) \<longrightarrow>
        calls_fine False (during \<sigma>0 r) (callC E k) (callD E k) c (storesToRoot \<sigma>0 c) N)"

lemma fuel_okD:
  assumes "fuel_ok E \<sigma>0 rank B k" and "c < length (scopes \<sigma>0)" and "r * (B + 1) < k"
    and "\<And>n. n \<in> N \<Longrightarrow> n < length (ctors \<sigma>0) \<and> r * (B + 1) + rank n + 2 \<le> k"
  shows "calls_fine False (during \<sigma>0 r) (callC E k) (callD E k) c (storesToRoot \<sigma>0 c) N"
  using assms unfolding fuel_ok_def by blast

lemma fuel_ctor:
  assumes wf: "well_indexed \<sigma>0" and rk: "ranked \<sigma>0 rank B" and IH: "fuel_ok E \<sigma>0 rank B k"
    and now: "during \<sigma>0 r \<sigma>" and n: "n < length (ctors \<sigma>0)" and fuel: "r * (B + 1) + rank n + 2 \<le> Suc k"
  shows "fine_at False (during \<sigma>0 r) \<sigma> (callC E (Suc k) n (cn_origS (ctor_of \<sigma> n)))"
proof -
  from now have "static \<sigma> = static \<sigma>0" by (simp add: during_def)
  note eq = static_ctor_eq [OF static_nth(2) [OF this n]]
  let ?c = "cn_origS (ctor_of \<sigma>0 n)"
  let ?M = "\<Union>p \<in> set (Params (cn_paramList (ctor_of \<sigma>0 n))). callees \<sigma>0 ?c p"
  note c = well_indexed_ctor(2) [OF wf n]
  have "calls_fine False (during \<sigma>0 r) (callC E k) (callD E k) ?c (storesToRoot \<sigma>0 ?c) ?M"
  proof (rule fuel_okD [OF IH c])
    fix m assume "m \<in> ?M"
    then have "m < length (ctors \<sigma>0)" and "rank m < rank n"
      using callees_less [OF wf c] rk n by (auto simp: ranked_def)
    with fuel show "m < length (ctors \<sigma>0) \<and> r * (B + 1) + rank m + 2 \<le> k" by simp
  qed (use fuel in simp)
  from fine_at_ctorCall [OF now this well_indexed_tree [OF wf] c, of n] show ?thesis
    by (simp only: eq callC.simps) blast
qed

lemma fuel_dcor:
  assumes wf: "well_indexed \<sigma>0" and rk: "ranked \<sigma>0 rank B" and IH: "fuel_ok E \<sigma>0 rank B k"
    and now: "during \<sigma>0 r \<sigma>" and d: "d < length (dcors \<sigma>0)" and fuel: "r * (B + 1) < Suc k"
    and state: "dn_state (dcor_of \<sigma> d) \<noteq> decoratorOnStack"
  shows "fine_at False (during \<sigma>0 r) \<sigma> (callD E (Suc k) d s)"
proof (cases "dn_state (dcor_of \<sigma> d) = decoratorCalled")
  case True
  then show ?thesis using now by (simp add: fine_at_def dcorCall_def)
next
  case False
  with state have ready: "dn_state (dcor_of \<sigma> d) = decoratorReady" by (cases "dn_state (dcor_of \<sigma> d)") auto
  from now have st: "static \<sigma> = static \<sigma>0" and r: "ready \<sigma> \<le> r" by (simp_all add: during_def)
  note eq = static_dcor_eq [OF static_nth(3) [OF st d]]
  have "ready (setState d decoratorOnStack \<sigma>) < ready \<sigma>"
    by (rule ready_setState) (simp_all add: ready d static_lengths(3) [OF st])
  with r obtain r' where r': "r = Suc r'" and less: "ready (setState d decoratorOnStack \<sigma>) \<le> r'"
    by (cases r) auto
  let ?c = "dn_s (dcor_of \<sigma>0 d)"
  let ?M = "\<Union>p \<in> set (Params (dn_params (dcor_of \<sigma>0 d))). callees \<sigma>0 ?c p"
  note c = well_indexed_dcor [OF wf d]
  have "calls_fine False (during \<sigma>0 r') (callC E k) (callD E k) ?c (storesToRoot \<sigma>0 ?c) ?M"
  proof (rule fuel_okD [OF IH c])
    fix m assume "m \<in> ?M"
    then have m: "m < length (ctors \<sigma>0)" using callees_less [OF wf c] by auto
    with rk have "rank m < B" by (simp add: ranked_def)
    with fuel m show "m < length (ctors \<sigma>0) \<and> r' * (B + 1) + rank m + 2 \<le> k" by (simp add: r')
  qed (use fuel in \<open>simp add: r'\<close>)
  moreover have "during \<sigma>0 r' (setState d decoratorOnStack \<sigma>)"
    using st less by (simp add: during_def)
  ultimately have "fine_at False (during \<sigma>0 r') \<sigma> (dcorCall E (callC E k) (callD E k) d s)"
    using well_indexed_tree [OF wf] c False eq
    by (intro fine_at_dcorCall [where S = "storesToRoot \<sigma>0 ?c" and M = ?M]) (simp_all add: UN_upper)
  then show ?thesis unfolding callD.simps by (rule fine_at_mono) (simp add: during_def r')
qed

lemma fuel_ok:
  assumes wf: "well_indexed \<sigma>0" and rk: "ranked \<sigma>0 rank B"
  shows "fuel_ok E \<sigma>0 rank B k"
proof (induction k)
  case (Suc k)
  note tree = well_indexed_tree [OF wf]
  show ?case unfolding fuel_ok_def calls_fine_def
  proof (intro allI impI ballI conjI)
    fix c r \<sigma> s key d
    assume c: "c < length (scopes \<sigma>0)" and fuel: "r * (B + 1) < Suc k" and now: "during \<sigma>0 r \<sigma>"
      and s: "s \<in> set (storesToRoot \<sigma>0 c)" and key: "getDecorators \<sigma> s key = Some d"
      and state: "dn_state (dcor_of \<sigma> d) \<noteq> decoratorOnStack"
    from now have st: "static \<sigma> = static \<sigma>0" by (simp add: during_def)
    note s' = storesToRoot_less [OF tree c s]
    from key have "d < length (dcors \<sigma>0)"
      unfolding static_reads(2) [OF st s'] by (rule getDecorators_less [OF wf s'])
    then show "fine_at False (during \<sigma>0 r) \<sigma> (callD E (Suc k) d s)"
      by (rule fuel_dcor [OF wf rk Suc now _ fuel state])
  next
    fix c r \<sigma> assume "c < length (scopes \<sigma>0)" and "during \<sigma>0 r \<sigma>"
    then show "storesToRoot \<sigma> c = storesToRoot \<sigma>0 c"
      using static_storesToRoot [OF _ tree, of \<sigma> c] by (simp add: during_def)
  qed (simp_all only: during_rand fuel_ctor [OF wf rk Suc])
qed (simp add: fuel_ok_def)

subsection \<open>Invoke ends\<close>

text \<open>Which constructors may call which, when their parameters are built.\<close>

definition call_graph :: "store \<Rightarrow> (nat \<times> nat) set" where
  "call_graph \<sigma> = {(n, m). n < length (ctors \<sigma>) \<and>
     (\<exists>p \<in> set (Params (cn_paramList (ctor_of \<sigma> n))). m \<in> callees \<sigma> (cn_origS (ctor_of \<sigma> n)) p)}"

lemma acyclic_ranked:
  assumes wf: "well_indexed \<sigma>" and acyclic: "acyclic (call_graph \<sigma>)"
  shows "ranked \<sigma> (\<lambda>n. card {m. (n, m) \<in> (call_graph \<sigma>)\<^sup>+}) (length (ctors \<sigma>))"
proof -
  let ?R = "call_graph \<sigma>"
  have "m < length (ctors \<sigma>)" if "(n, m) \<in> ?R" for n m
    using that callees_less [OF wf well_indexed_ctor(2) [OF wf]] by (auto simp: call_graph_def)
  then have sub: "{m. (n, m) \<in> ?R\<^sup>+} \<subseteq> {..<length (ctors \<sigma>)}" for n
    by (auto elim: tranclE)
  have fin: "finite {m. (n, m) \<in> ?R\<^sup>+}" for n
    by (rule finite_subset [OF sub]) simp
  have "card {m. (n, m) \<in> ?R\<^sup>+} < length (ctors \<sigma>)" if "n < length (ctors \<sigma>)" for n
  proof -
    have "{m. (n, m) \<in> ?R\<^sup>+} \<subset> {..<length (ctors \<sigma>)}"
      using sub [of n] that acyclic by (auto simp: acyclic_def)
    from psubset_card_mono [OF _ this] show ?thesis by simp
  qed
  moreover have "card {k. (m, k) \<in> ?R\<^sup>+} < card {k. (n, k) \<in> ?R\<^sup>+}" if "(n, m) \<in> ?R" for n m
  proof (rule psubset_card_mono [OF fin])
    show "{k. (m, k) \<in> ?R\<^sup>+} \<subset> {k. (n, k) \<in> ?R\<^sup>+}"
      using that acyclic by (auto simp: acyclic_def intro: trancl_into_trancl2)
  qed
  ultimately show ?thesis by (auto simp: ranked_def call_graph_def)
qed

lemma callees_cong:
  assumes "storesToRoot \<sigma>' c = storesToRoot \<sigma> c"
    and "\<And>s k. s \<in> set (storesToRoot \<sigma> c) \<Longrightarrow> getProviders \<sigma>' s k = getProviders \<sigma> s k"
  shows "callees \<sigma>' c p = callees \<sigma> c p"
  using assms
  by (induction \<sigma> c p rule: callees.induct) (auto simp: getValueProviders_def getGroupProviders_def)

definition same_links :: "store \<Rightarrow> store \<Rightarrow> bool" where
  "same_links \<sigma> \<sigma>' \<longleftrightarrow> skel \<sigma>' = skel \<sigma> \<and> ctors \<sigma>' = ctors \<sigma> \<and> dcors \<sigma>' = dcors \<sigma> \<and>
     (\<forall>s < length (scopes \<sigma>). providers (scope_of \<sigma>' s) = providers (scope_of \<sigma> s))"

lemma same_links_graph:
  assumes "same_links \<sigma> \<sigma>'" and wf: "well_indexed \<sigma>"
  shows "call_graph \<sigma>' = call_graph \<sigma>"
proof -
  have "callees \<sigma>' c p = callees \<sigma> c p" if "c < length (scopes \<sigma>)" for c p
  proof (rule callees_cong)
    show "storesToRoot \<sigma>' c = storesToRoot \<sigma> c"
      unfolding storesToRoot_def using assms(1) that
      by (intro ancestors_skel well_indexed_tree [OF wf]) (simp_all add: same_links_def)
    fix s k assume "s \<in> set (storesToRoot \<sigma> c)"
    from storesToRoot_less [OF well_indexed_tree [OF wf] that this] assms(1)
    show "getProviders \<sigma>' s k = getProviders \<sigma> s k" by (simp add: same_links_def getProviders_def)
  qed
  with well_indexed_ctor(2) [OF wf] assms(1) show ?thesis
    by (auto simp: call_graph_def same_links_def)
qed

lemma parseOptions_ends: "parseOptions g cs \<noteq> Diverged"
  by (induction g cs rule: parseOptions.induct) auto

lemma parseGroupString_ends: "parseGroupString g \<noteq> Diverged"
  by (simp add: parseGroupString_def Let_def parseOptions_ends)

lemma tagParam_ends: "tagParam f p \<noteq> Diverged"
  by (auto simp: tagParam_def split: param.split prod.split option.split)

lemma ends_liftS: "r \<noteq> Diverged \<Longrightarrow> ends (liftS r)"
  by (simp add: ends_iff)

lemma ends_newParamGroupedSlice: "ends (newParamGroupedSlice f c)"
proof -
  have "ends (\<lambda>\<sigma>.
            let oid = length (orderMaps \<sigma>);
                (\<sigma>1, ords) = newGraphNode w c (\<sigma>, [])
            in (Ret (paramGroupedSlice a b d oid), \<sigma>1\<lparr>orderMaps := orderMaps \<sigma>1 @ [ords]\<rparr>))" for w a b d
    by (simp add: ends_iff Let_def split: prod.split)
  then show ?thesis
    unfolding newParamGroupedSlice_def Let_def
    by (intro fine_bindS ends_liftS parseGroupString_ends) (simp add: fine_throwS)
qed

lemma ends_newParam:
  "ends (newParam t c)"
  "ends (newParamObjectFields t ign i fs c)"
  "ends (newParamObjectField i f c)"
proof (induction t c and t ign i fs c and i f c rule: newParam_newParamObjectFields_newParamObjectField.induct)
  case (1 t c)
  then show ?case
    by (subst newParam.simps)
      (auto simp del: retS_app split: option.split prod.split intro!: fine_intros)
next
  case (2 t ign i c)
  then show ?case unfolding newParamObjectFields.simps by (rule fine_retS)
next
  case (3 t ign i f fs c)
  then show ?case
    by (subst newParamObjectFields.simps) (auto simp del: retS_app intro!: fine_intros)
next
  case (4 i f c)
  then show ?case
    by (subst newParamObjectField.simps)
      (auto simp del: retS_app intro!: fine_intros ends_newParamGroupedSlice ends_liftS tagParam_ends)
qed

lemma ends_newParamList: "ends (newParamList ctype c)"
  unfolding newParamList_def Let_def
  by (intro fine_intros) (auto intro: fine_wrapS ends_newParam)

lemma ends_invokeRun: "ends (invokeRun E s f args)"
proof -
  have "ends (recoverS b fn (bindS (invoke_fn E ivk ByInvoke f args)
      (\<lambda>returned. case lastError ts returned of Some e \<Rightarrow> throwS e | None \<Rightarrow> retS ())))" for b fn ivk ts
    by (intro ends_recoverS fine_bindS ends_invoke_fn)
      (auto simp del: retS_app intro: fine_intros split: option.split)
  then show ?thesis by (simp add: ends_iff invokeRun_def)
qed

lemma same_links_newParamList:
  assumes wf: "well_indexed \<sigma>" and s: "s < length (scopes \<sigma>)"
  shows "same_links \<sigma> (snd (newParamList ctype s \<sigma>))"
proof -
  have same: "sans_graph (snd (newParamList ctype s \<sigma>)) = sans_graph \<sigma>"
    using keeps_app [OF keeps_newParamList [of s ctype], of \<sigma>] well_indexed_tree [OF wf] s by (simp add: registers_def)
  show ?thesis
    using skel_cong_sans_graph [OF same] sans_graph_scopes(3,4) [OF same] no_gh_eq(1) [OF sans_graph_scopes(2) [OF same]]
    by (simp add: same_links_def)
qed

lemma same_links_verifyAcyclic: "same_links \<sigma> (snd (verifyAcyclic s \<sigma>))"
  by (auto simp: verifyAcyclic_def same_links_def skel_upd_scope scope_of_upd_scope split: option.split prod.split bool.split)

lemma BuildList_ends:
  assumes wf: "well_indexed \<sigma>" and "acyclic (call_graph \<sigma>)" and s: "s < length (scopes \<sigma>)"
    and fuel: "(ready \<sigma> + 1) * (length (ctors \<sigma>) + 1) \<le> fuel"
  shows "fst (BuildList E (callC E fuel) (callD E fuel) pl s \<sigma>) \<noteq> Diverged"
proof -
  let ?rank = "\<lambda>n. card {m. (n, m) \<in> (call_graph \<sigma>)\<^sup>+}" and ?N = "{n. n < length (ctors \<sigma>)}"
  have rk: "ranked \<sigma> ?rank (length (ctors \<sigma>))" by (rule acyclic_ranked [OF assms(1,2)])
  have "calls_fine False (during \<sigma> (ready \<sigma>)) (callC E fuel) (callD E fuel) s (storesToRoot \<sigma> s) ?N"
  proof (rule fuel_okD [OF fuel_ok [OF wf rk] s])
    fix n assume "n \<in> ?N"
    then have "n < length (ctors \<sigma>)" and "?rank n < length (ctors \<sigma>)" using rk by (simp_all add: ranked_def)
    then show "n < length (ctors \<sigma>) \<and> ready \<sigma> * (length (ctors \<sigma>) + 1) + ?rank n + 2 \<le> fuel" using fuel by simp
  qed (use fuel in simp)
  then have "fine False (during \<sigma> (ready \<sigma>)) (BuildList E (callC E fuel) (callD E fuel) pl s)"
  proof (rule fine_BuildList)
    fix \<sigma>' p assume "during \<sigma> (ready \<sigma>) \<sigma>'"
    then have "callees \<sigma>' s p = callees \<sigma> s p"
      using static_callees [OF _ well_indexed_tree [OF wf] s, of \<sigma>' p] by (simp add: during_def)
    then show "callees \<sigma>' s p \<subseteq> ?N" using callees_less [OF wf s] by auto
  qed
  from fineD [OF this, of \<sigma>] show ?thesis by (simp add: fine_at_def during_def)
qed

lemma bindS_ends:
  "fst (m \<sigma>) \<noteq> Diverged \<Longrightarrow> (\<And>a \<sigma>'. m \<sigma> = (Ret a, \<sigma>') \<Longrightarrow> fst (f a \<sigma>') \<noteq> Diverged) \<Longrightarrow>
   fst (bindS m f \<sigma>) \<noteq> Diverged"
  by (cases "m \<sigma>"; cases "fst (m \<sigma>)") (auto simp: bindS_def)

lemma wrapS_ends: "fst (wrapS w m \<sigma>) = Diverged \<longleftrightarrow> fst (m \<sigma>) = Diverged"
  by (cases "m \<sigma>"; cases "fst (m \<sigma>)") (auto simp: wrapS_def)

text \<open>What the fuel has to be at least, and that the steps before the calls do not change it.\<close>

definition enough_fuel :: "store \<Rightarrow> nat \<Rightarrow> nat \<Rightarrow> bool" where
  "enough_fuel \<sigma> s fuel \<longleftrightarrow> well_indexed \<sigma> \<and> acyclic (call_graph \<sigma>) \<and> s < length (scopes \<sigma>) \<and>
     (ready \<sigma> + 1) * (length (ctors \<sigma>) + 1) \<le> fuel"

lemma enough_fuel_links:
  assumes "enough_fuel \<sigma> s fuel" and "same_links \<sigma> \<sigma>'" and "registering \<sigma> \<sigma>'"
  shows "enough_fuel \<sigma>' s fuel"
  using assms same_links_graph [OF assms(2)] registering_wf [OF assms(3)] registering_scope [OF assms(3)]
  by (simp add: enough_fuel_def ready_def same_links_def)

lemma invokeFn_ends:
  assumes enough: "enough_fuel \<sigma> s fuel"
  shows "fst (invokeFn E fuel s f \<sigma>) \<noteq> Diverged"
  unfolding invokeFn_def
proof (rule bindS_ends)
  show "fst (newParamList (fn_type f) s \<sigma>) \<noteq> Diverged" using ends_newParamList by (simp add: ends_iff)
  fix pl \<sigma>1 assume pl: "newParamList (fn_type f) s \<sigma> = (Ret pl, \<sigma>1)"
  from enough have wf: "well_indexed \<sigma>" and s: "s < length (scopes \<sigma>)" by (simp_all add: enough_fuel_def)
  have enough1: "enough_fuel \<sigma>1 s fuel"
    using same_links_newParamList [OF wf s, of "fn_type f"] triple_snd [OF triple_newParamList [OF s] registering_refl [OF wf], of "fn_type f"] pl
    by (intro enough_fuel_links [OF enough]) simp_all
  have "fst (bindS (verifyAcyclic s) (\<lambda>_. bindS (wrapS w (BuildList E (callC E fuel) (callD E fuel) pl s))
      (invokeRun E s f)) \<sigma>1) \<noteq> Diverged" for w
  proof (rule bindS_ends)
    show "fst (verifyAcyclic s \<sigma>1) \<noteq> Diverged"
      by (auto simp: verifyAcyclic_def split: option.split prod.split bool.split)
    fix u \<sigma>2 assume "verifyAcyclic s \<sigma>1 = (Ret u, \<sigma>2)"
    then have "enough_fuel \<sigma>2 s fuel"
      using same_links_verifyAcyclic [of \<sigma>1 s] triple_snd [OF triple_verifyAcyclic registering_refl, of \<sigma>1 s] enough1
      by (intro enough_fuel_links [OF enough1]) (simp_all add: enough_fuel_def)
    then have "fst (BuildList E (callC E fuel) (callD E fuel) pl s \<sigma>2) \<noteq> Diverged"
      by (intro BuildList_ends) (simp_all only: enough_fuel_def)
    then show "fst (bindS (wrapS w (BuildList E (callC E fuel) (callD E fuel) pl s)) (invokeRun E s f) \<sigma>2) \<noteq> Diverged"
      using ends_invokeRun by (intro bindS_ends) (simp_all add: wrapS_ends ends_iff)
  qed
  then show "fst (case shallowCheckDependencies \<sigma>1 s pl of
        Some err \<Rightarrow> (Throw (EMissingDependencies (InspectFunc f) err), \<sigma>1)
      | None \<Rightarrow> bindS (verifyAcyclic s) (\<lambda>_. bindS (wrapS (EArgumentsFailed (InspectFunc f))
          (BuildList E (callC E fuel) (callD E fuel) pl s)) (invokeRun E s f)) \<sigma>1) \<noteq> Diverged"
    by (simp split: option.split)
qed

text \<open>
  C8: \<open>Invoke\<close> ends. When no constructor can reach itself through the providers of its parameters,
  \<open>Invoke\<close> returns, returns an error or panics, in every reachable container, on every scope and for
  every function: the recursion of calls is no deeper than
  (ready decorators + 1) * (constructors + 1).
\<close>

theorem Invoke_ends:
  assumes "reachable E \<sigma>" and "acyclic (call_graph \<sigma>)" and "s < length (scopes \<sigma>)"
    and "(ready \<sigma> + 1) * (length (ctors \<sigma>) + 1) \<le> fuel"
  shows "fst (Invoke E fuel s f \<sigma>) \<noteq> Diverged"
  using invokeFn_ends [of \<sigma> s fuel E] assms reachable_well_indexed [OF assms(1)]
  by (cases f) (simp_all add: Invoke_def enough_fuel_def)

theorem Invoke_ends_witness:
  "fst (Invoke demoE 4 0 (IFunc (fnOf 3 [intT] [])) demo2) \<noteq> Diverged"
proof (rule Invoke_ends)
  show "reachable demoE demo2"
    unfolding reachable_def using demo_steps(1,2) by (meson rtranclp.rtrancl_into_rtrancl rtranclp.rtrancl_refl)
  have "length (ctors demo2) = 1" "Params (cn_paramList (ctor_of demo2 0)) = []" by code_simp+
  then have "call_graph demo2 = {}" by (auto simp: call_graph_def)
  then show "acyclic (call_graph demo2)" by (simp add: acyclic_def)
  show "0 < length (scopes demo2)" "(ready demo2 + 1) * (length (ctors demo2) + 1) \<le> 4" by code_simp+
qed

end
