(* ===== verification/Outcome.thy ===== *)
theory Outcome
  imports Staging Termination
begin

text \<open>
  What running a node tells the world (src/constructor.go, src/callback.go, src/before_callback.go,
  src/container.go): the events of a run in their order, the outcome that the callback gets, and what
  becomes of a panic.
\<close>

subsection \<open>The events of a run\<close>

lemma log_ticks_ctorFinish:
  "log (snd (ctorFinish n vs \<sigma>)) = log \<sigma>" "ticks (snd (ctorFinish n vs \<sigma>)) = ticks \<sigma>"
proof -
  have "ticks (Commit sr s \<sigma>) = ticks \<sigma>" for sr s
    by (rule Commit_frame) (simp_all add: setValue_def submitGroupedValue_def)
  then show "log (snd (ctorFinish n vs \<sigma>)) = log \<sigma>" "ticks (snd (ctorFinish n vs \<sigma>)) = ticks \<sigma>"
    using snd_ctorFinish [of n vs \<sigma>] by (auto simp: upd_ctor_def)
qed

lemma log_withCallback:
  assumes m: "\<And>\<sigma>. log (snd (m \<sigma>)) = log \<sigma> @ es" "\<And>\<sigma>. ticks (snd (m \<sigma>)) = ticks \<sigma>"
    and run: "withCallback E cb name m \<sigma> = (r, \<sigma>')" and "r \<noteq> Diverged"
  shows "log \<sigma>' = log \<sigma> @ es @ (case cb of None \<Rightarrow> []
      | Some k \<Rightarrow> [EvCallback k name (errOf r) (env_now E (Suc (ticks \<sigma>)) - env_now E (ticks \<sigma>))])"
proof (cases cb)
  case None
  with run m(1) [of \<sigma>] show ?thesis by (simp add: withCallback_def)
next
  case (Some k)
  obtain r2 \<sigma>2 where "m (\<sigma>\<lparr>ticks := Suc (ticks \<sigma>)\<rparr>) = (r2, \<sigma>2)" by fastforce
  with run Some assms(4) m(1) [of "\<sigma>\<lparr>ticks := Suc (ticks \<sigma>)\<rparr>"] m(2) [of "\<sigma>\<lparr>ticks := Suc (ticks \<sigma>)\<rparr>"] show ?thesis
    by (cases r2) (auto simp: withCallback_def clockNow_def Let_def)
qed

lemma log_ticks_invoke_fn:
  "log (snd (invoke_fn E ivk who f args \<sigma>)) = log \<sigma> @
     (if ivk = defaultInvoker \<and> VNone \<notin> set args then [EvCall who (fn_id f) args] else [])"
  "ticks (snd (invoke_fn E ivk who f args \<sigma>)) = ticks \<sigma>"
  by (auto simp: invoke_fn_def emit_def split: invoker.split outcome.split)

lemma snd_bindS_frame:
  "(\<And>a \<sigma>. h (snd (f a \<sigma>)) = h \<sigma>) \<Longrightarrow> h (snd (bindS m f \<sigma>)) = h (snd (m \<sigma>))"
  by (cases "m \<sigma>"; cases "fst (m \<sigma>)") (simp_all add: bindS_def)

text \<open>
  C28: A run of a constructor adds to the log, in this order: the before-callback if there is one,
  one call of its function with the built arguments (none in a dry run), and its callback, which
  gets the error that the run returns (nil if it returned normally or a panic passes) and the time
  between the two readings of the clock.
\<close>

theorem ctorRun_events:
  fixes E n c \<sigma> defines "N \<equiv> ctor_of \<sigma> n" and "name \<equiv> callbackName (cn_location (ctor_of \<sigma> n))"
  assumes run: "ctorRun E n c args \<sigma> = (r, \<sigma>')"
  shows "log \<sigma>' = log \<sigma>
    @ (case cn_beforeCallback N of None \<Rightarrow> [] | Some b \<Rightarrow> [EvBefore b name])
    @ (if invokerFn (scope_of \<sigma> c) = defaultInvoker \<and> VNone \<notin> set args
       then [EvCall (ByCtor n) (fn_id (cn_ctor N)) args] else [])
    @ (case cn_callback N of None \<Rightarrow> []
       | Some k \<Rightarrow> [EvCallback k name (errOf r) (env_now E (Suc (ticks \<sigma>)) - env_now E (ticks \<sigma>))])"
proof -
  let ?call = "invoke_fn E (invokerFn (scope_of \<sigma> c)) (ByCtor n) (cn_ctor N) args"
  let ?m = "recoverS (recoverFromPanics (scope_of \<sigma> (cn_s N))) (cn_location N) (bindS ?call (ctorFinish n))"
  have m: "log (snd (?m \<tau>)) = log \<tau> @
      (if invokerFn (scope_of \<sigma> c) = defaultInvoker \<and> VNone \<notin> set args then [EvCall (ByCtor n) (fn_id (cn_ctor N)) args] else [])"
    "ticks (snd (?m \<tau>)) = ticks \<tau>" for \<tau>
    by (simp_all add: snd_recoverS snd_bindS_frame [where h = log] snd_bindS_frame [where h = ticks]
        log_ticks_ctorFinish log_ticks_invoke_fn)
  have "r \<noteq> Diverged" using ends_ctorRun run by (metis ends_iff fst_conv)
  with log_withCallback [OF m] run
  have "log \<sigma>' = log (before (cn_beforeCallback N) name \<sigma>) @
    (if invokerFn (scope_of \<sigma> c) = defaultInvoker \<and> VNone \<notin> set args then [EvCall (ByCtor n) (fn_id (cn_ctor N)) args] else []) @
    (case cn_callback N of None \<Rightarrow> []
       | Some k \<Rightarrow> [EvCallback k name (errOf r) (env_now E (Suc (ticks (before (cn_beforeCallback N) name \<sigma>)))
           - env_now E (ticks (before (cn_beforeCallback N) name \<sigma>)))])"
    unfolding ctorRun_def Let_def N_def name_def by blast
  then show ?thesis by (simp add: before_def emit_def split: option.split)
qed

text \<open>A container with a constructor that has both callbacks.\<close>

definition watched :: store where
  "watched = snd (Provide 0 (IFunc (fnOf 1 [] [intT]))
     [withProviderBeforeCallbackOption 5, withProviderCallbackOption 6] (New []))"

theorem ctorRun_events_witness:
  "log (snd (ctorRun demoE 0 0 [] watched)) =
     [EvBefore 5 ''main.f'', EvCall (ByCtor 0) 1 [], EvCallback 6 ''main.f'' None 1]"
proof -
  have "log watched = []" "cn_beforeCallback (ctor_of watched 0) = Some 5" "cn_callback (ctor_of watched 0) = Some 6"
    "callbackName (cn_location (ctor_of watched 0)) = ''main.f''" "invokerFn (scope_of watched 0) = defaultInvoker"
    "fn_id (cn_ctor (ctor_of watched 0)) = 1" "env_now demoE (Suc (ticks watched)) - env_now demoE (ticks watched) = 1"
    "errOf (fst (ctorRun demoE 0 0 [] watched)) = None" by code_simp+
  with ctorRun_events [OF prod.collapse [symmetric], of demoE 0 0 "[]" watched] show ?thesis by simp
qed

subsection \<open>Panics\<close>

text \<open>
  C29: When the function of a constructor panics, a container that recovers from panics turns the panic
  into the error \<open>PanicError\<close> with the panic value, returned from the run; a container that does not
  lets the panic pass. In both cases nothing is published.
\<close>

theorem ctorRun_panic:
  fixes E n c \<sigma> defines "N \<equiv> ctor_of \<sigma> n"
  assumes "invokerFn (scope_of \<sigma> c) = defaultInvoker" and "VNone \<notin> set args"
    and "env_call E (fn_id (cn_ctor N))
      (log (before (cn_beforeCallback N) (callbackName (cn_location N)) \<sigma>)) args = OPanic p"
    and run: "ctorRun E n c args \<sigma> = (r, \<sigma>')"
  shows "r = (if recoverFromPanics (scope_of \<sigma> (cn_s N)) then Throw (EPanic (cn_location N) p) else Panicked p) \<and>
    nodes_of \<sigma>' = nodes_of \<sigma>"
proof -
  let ?\<sigma>1 = "before (cn_beforeCallback N) (callbackName (cn_location N)) \<sigma>"
  obtain k \<sigma>2 where 2: "recoverS (recoverFromPanics (scope_of \<sigma> (cn_s N))) (cn_location N)
      (bindS (invoke_fn E (invokerFn (scope_of \<sigma> c)) (ByCtor n) (cn_ctor N) args) (ctorFinish n)) (?\<sigma>1\<lparr>ticks := k\<rparr>) = (r, \<sigma>2)"
    and nodes: "nodes_of \<sigma>' = nodes_of \<sigma>2"
    using run unfolding ctorRun_def Let_def N_def by (rule withCallback_nodes)
  have "nodes_of ?\<sigma>1 = nodes_of \<sigma>" by (rule nodes_of_before)
  with 2 assms(2-4) show ?thesis
    unfolding nodes by (auto simp: recoverS_def bindS_def invoke_fn_def nodes_of_def split: if_splits)
qed

definition panicE :: env where
  "panicE = demoE\<lparr>env_call := (\<lambda>i log args. OPanic (VData stringT 9))\<rparr>"

theorem ctorRun_panic_witness:
  "fst (ctorRun panicE 0 0 [] demo1) = Panicked (VData stringT 9) \<and> nodes_of (snd (ctorRun panicE 0 0 [] demo1)) = nodes_of demo1"
proof -
  have "invokerFn (scope_of demo1 0) = defaultInvoker" "\<not> recoverFromPanics (scope_of demo1 (cn_s (ctor_of demo1 0)))" by code_simp+
  with ctorRun_panic [of demo1 0 "[]" panicE 0 "VData stringT 9", OF _ _ _ prod.collapse [symmetric]] show ?thesis
    by (simp add: panicE_def)
qed

subsection \<open>Missing dependencies\<close>

text \<open>The values that a list of parameters cannot do without.\<close>

fun required :: "param \<Rightarrow> key list" where
  "required (paramSingle name optional t) = (if optional then [] else [value_key name t])"
| "required (paramObject t fs) = concat (map (\<lambda>f. required (pofParam f)) fs)"
| "required (paramGroupedSlice g t soft oid) = []"

definition missing :: "store \<Rightarrow> nat \<Rightarrow> key \<Rightarrow> bool" where
  "missing \<sigma> c k \<longleftrightarrow> (\<forall>s \<in> set (ancestors \<sigma> c). getProviders \<sigma> s k = []) \<and> map_of (decoratedValues (scope_of \<sigma> c)) k = None"

lemma findMissingDependencies_keys:
  "map (\<lambda>p. value_key (psName p) (psType p)) (findMissingDependencies \<sigma> c p) = filter (missing \<sigma> c) (required p)"
proof (induction \<sigma> c p rule: findMissingDependencies.induct)
  case (2 \<sigma> c t fs)
  then show ?case by (simp add: map_concat filter_concat comp_def cong: map_cong)
qed (auto simp: missing_def getAllValueProviders_def getAllProviders_def getDecoratedValue_def)

lemma newErrMissingTypes_not_Nil: "newErrMissingTypes \<sigma> c k \<noteq> []"
  by (simp add: newErrMissingTypes_def Let_def)

lemma shallowCheck_iff:
  "shallowCheckDependencies \<sigma> c pl = None \<longleftrightarrow> (\<forall>p \<in> set (Params pl). \<forall>k \<in> set (required p). \<not> missing \<sigma> c k)"
proof -
  have "shallowCheckDependencies \<sigma> c pl = None \<longleftrightarrow> (\<forall>p \<in> set (Params pl). findMissingDependencies \<sigma> c p = [])"
    using newErrMissingTypes_not_Nil by (auto simp: shallowCheckDependencies_def Let_def)
  also have "\<dots> \<longleftrightarrow> (\<forall>p \<in> set (Params pl). filter (missing \<sigma> c) (required p) = [])"
    by (simp flip: findMissingDependencies_keys)
  finally show ?thesis by (simp add: filter_empty_conv)
qed

lemma shallowCheck_Some:
  assumes "shallowCheckDependencies \<sigma> c pl = Some e"
  shows "\<exists>ms. e = EMissingTypes ms \<and> map mtKey ms = filter (missing \<sigma> c) (concat (map required (Params pl)))"
proof -
  have "mtKey ` set (newErrMissingTypes \<sigma> c k) = {k} \<and> map mtKey (newErrMissingTypes \<sigma> c k) = [k]" for k
    by (simp add: newErrMissingTypes_def Let_def)
  then have "map mtKey (concat (map (\<lambda>p. newErrMissingTypes \<sigma> c (value_key (psName p) (psType p))) ps)) =
      map (\<lambda>p. value_key (psName p) (psType p)) ps" for ps
    by (induction ps) simp_all
  moreover have "map (\<lambda>p. value_key (psName p) (psType p)) (concat (map (findMissingDependencies \<sigma> c) ps)) =
      filter (missing \<sigma> c) (concat (map required ps))" for ps
    by (induction ps) (simp_all add: findMissingDependencies_keys)
  ultimately show ?thesis using assms by (auto simp: shallowCheckDependencies_def Let_def split: if_splits)
qed

text \<open>
  C30: \<open>Invoke\<close> of a function with a required parameter that no scope up to the root provides (and that
  has no decorated value) returns an error that names exactly the missing values, and runs nothing: no
  call is logged, no node changes, and no scope changes but for the graph nodes of its
  parameters.
\<close>

theorem Invoke_missing:
  assumes "reachable E \<sigma>" and s: "s < length (scopes \<sigma>)" and f: "Kind (fn_type f) = KFunc"
    and pl: "newParamList (fn_type f) s \<sigma> = (Ret pl, \<sigma>1)"
    and miss: "p \<in> set (Params pl)" "k \<in> set (required p)" "missing \<sigma> s k"
  shows "\<exists>ms. Invoke E fuel s (IFunc f) \<sigma> = (Throw (EMissingDependencies (InspectFunc f) (EMissingTypes ms)), \<sigma>1) \<and>
    map mtKey ms = filter (missing \<sigma> s) (concat (map required (Params pl))) \<and> sans_graph \<sigma>1 = sans_graph \<sigma>"
proof -
  note wf = well_indexed_tree [OF reachable_well_indexed [OF assms(1)]]
  have same: "sans_graph \<sigma>1 = sans_graph \<sigma>"
    using keepsD [OF keeps_newParamList pl] wf s by (simp add: registers_def)
  have "missing \<sigma>1 s = missing \<sigma> s"
  proof
    fix k
    have "ancestors \<sigma>1 s = ancestors \<sigma> s" by (rule ancestors_skel [OF skel_cong_sans_graph [OF same, symmetric] wf s])
    moreover have "getProviders \<sigma>1 t k = getProviders \<sigma> t k" if "t \<in> set (ancestors \<sigma> s)" for t
      using no_gh_eq(1) [OF sans_graph_scopes(2) [OF same ancestors_less_length [OF wf s that]]] by (simp add: getProviders_def)
    moreover have "decoratedValues (scope_of \<sigma>1 s) = decoratedValues (scope_of \<sigma> s)"
      using arg_cong [OF sans_graph_scopes(2) [OF same s], of decoratedValues] by (simp add: no_gh_def)
    ultimately show "missing \<sigma>1 s k = missing \<sigma> s k" by (simp add: missing_def)
  qed
  moreover from this miss have "shallowCheckDependencies \<sigma>1 s pl \<noteq> None" unfolding shallowCheck_iff by auto
  ultimately obtain ms where "shallowCheckDependencies \<sigma>1 s pl = Some (EMissingTypes ms)"
    "map mtKey ms = filter (missing \<sigma> s) (concat (map required (Params pl)))"
    using shallowCheck_Some [of \<sigma>1 s pl] by fastforce
  with pl f same show ?thesis by (simp add: Invoke_def invokeFn_def)
qed

theorem Invoke_missing_witness:
  "\<exists>ms. Invoke demoE 4 0 (IFunc (fnOf 3 [stringT] [])) demo3 =
     (Throw (EMissingDependencies (InspectFunc (fnOf 3 [stringT] [])) (EMissingTypes ms)), demo3) \<and>
     map mtKey ms = filter (missing demo3 0) (concat (map required [paramSingle [] False stringT])) \<and>
     sans_graph demo3 = sans_graph demo3"
proof -
  have "newParamList (fn_type (fnOf 3 [stringT] [])) 0 demo3 =
      (Ret \<lparr>plCtype = funcT [stringT] [], Params = [paramSingle [] False stringT]\<rparr>, demo3)"
    by (simp add: newParamList_def newParam.simps fnOf_def funcT_def basicT_def Let_def; code_simp)
  moreover have "0 < length (scopes demo3)" "Kind (fn_type (fnOf 3 [stringT] [])) = KFunc" "missing demo3 0 (value_key [] stringT)"
    by code_simp+
  ultimately show ?thesis
    using Invoke_missing [OF demo_reachable, of 0 "fnOf 3 [stringT] []" _ demo3 "paramSingle [] False stringT"
        "value_key [] stringT" 4] by fastforce
qed

subsection \<open>Value groups\<close>

lemma shuffledCopy_mset: "mset perm = mset [0..<length items] \<Longrightarrow> mset (shuffledCopy perm items) = mset items"
  unfolding shuffledCopy_def by (metis map_nth mset_map)

lemma groups_rand: "groups (scope_of (upd_scope s (\<lambda>sc. sc\<lparr>rand := Suc (rand sc)\<rparr>) \<sigma>) t) = groups (scope_of \<sigma> t)"
  by (simp add: scope_of_upd_scope)

lemma mapS_getValueGroup:
  assumes perm: "\<And>s k n. mset (env_perm E s k n) = mset [0..<n]"
  shows "\<exists>vss \<sigma>'. mapS (\<lambda>s. getValueGroup E s g t) ss \<sigma> = (Ret vss, \<sigma>') \<and>
    mset (concat vss) = (\<Sum>s\<leftarrow>ss. mset (al_get [] (groups (scope_of \<sigma> s)) (group_key g t)))"
proof (induction ss arbitrary: \<sigma>)
  case (Cons s ss)
  let ?\<sigma>1 = "upd_scope s (\<lambda>sc. sc\<lparr>rand := Suc (rand sc)\<rparr>) \<sigma>"
  obtain vss \<sigma>' where IH: "mapS (\<lambda>s. getValueGroup E s g t) ss ?\<sigma>1 = (Ret vss, \<sigma>')"
    "mset (concat vss) = (\<Sum>s\<leftarrow>ss. mset (al_get [] (groups (scope_of \<sigma> s)) (group_key g t)))"
    using Cons.IH [of ?\<sigma>1] by (auto simp: groups_rand)
  moreover obtain vs where "getValueGroup E s g t \<sigma> = (Ret vs, ?\<sigma>1)" "mset vs = mset (al_get [] (groups (scope_of \<sigma> s)) (group_key g t))"
    using shuffledCopy_mset [OF perm] by (simp add: getValueGroup_def Let_def)
  ultimately show ?case by (simp add: bindS_def)
qed simp

text \<open>
  C31: A value group that no decorator touches is built from every value that was submitted to it: in the
  scope and its ancestors, after the providers have run (a soft group runs none), each value as
  often as it was submitted, in an order that only the random permutation decides.
\<close>

theorem buildGroup_collects:
  assumes perm: "\<And>s k n. mset (env_perm E s k n) = mset [0..<n]"
    and undecorated: "\<forall>s \<in> set (storesToRoot \<sigma> c). getGroupDecorator \<sigma> s g (elemT t) = None \<and> getDecoratedValueGroup \<sigma> s g t = None"
    and ran: "if soft then \<sigma>1 = \<sigma> else callGroupProviders cC g t c \<sigma> = (Ret (), \<sigma>1)"
  shows "\<exists>vs \<sigma>'. buildGroup E cC cD g t soft c \<sigma> = (Ret (VSlice t vs), \<sigma>') \<and>
    mset vs = (\<Sum>s\<leftarrow>storesToRoot \<sigma>1 c. mset (al_get [] (groups (scope_of \<sigma>1 s)) (group_key g (elemT t))))"
proof -
  have skip: "forS f ss \<sigma> = (Ret (), \<sigma>)" if "\<forall>s \<in> set ss. f s \<sigma> = (Ret (), \<sigma>)" for f ss
    using that by (induction ss) (simp_all add: bindS_def)
  have dec: "callGroupDecorators cD g t c \<sigma> = (Ret (), \<sigma>)"
    unfolding callGroupDecorators_def by (rule skip) (use undecorated in simp)
  have none: "firstSome h ss = None" if "\<forall>s \<in> set ss. h s = None" for h :: "nat \<Rightarrow> gval option" and ss
    using that by (induction ss) simp_all
  have first: "firstSome (\<lambda>s. getDecoratedValueGroup \<sigma> s g t) (storesToRoot \<sigma> c) = None"
    by (rule none) (use undecorated in simp)
  obtain vss \<sigma>' where "mapS (\<lambda>s. getValueGroup E s g (elemT t)) (storesToRoot \<sigma>1 c) \<sigma>1 = (Ret vss, \<sigma>')"
    "mset (concat vss) = (\<Sum>s\<leftarrow>storesToRoot \<sigma>1 c. mset (al_get [] (groups (scope_of \<sigma>1 s)) (group_key g (elemT t))))"
    using mapS_getValueGroup [OF perm] by blast
  with dec first show ?thesis using ran by (cases soft) (simp_all add: buildGroup_def bindS_def)
qed

definition grouped :: store where
  "grouped = submitGroupedValue 0 ''g'' intT (VData intT 2) (submitGroupedValue 0 ''g'' intT (VData intT 1) (New []))"

theorem buildGroup_collects_witness:
  "\<exists>vs \<sigma>'. buildGroup demoE (\<lambda>_ _. retS ()) (\<lambda>_ _. retS ()) ''g'' (SliceOf intT) True 0 grouped = (Ret (VSlice (SliceOf intT) vs), \<sigma>') \<and>
    mset vs = {#VData intT 1, VData intT 2#}"
proof -
  have "storesToRoot grouped 0 = [0]" "al_get [] (groups (scope_of grouped 0)) (group_key ''g'' (elemT (SliceOf intT))) = [VData intT 1, VData intT 2]"
    "getGroupDecorator grouped 0 ''g'' (elemT (SliceOf intT)) = None \<and> getDecoratedValueGroup grouped 0 ''g'' (SliceOf intT) = None"
    by code_simp+
  then show ?thesis
    using buildGroup_collects [of demoE grouped 0 "''g''" "SliceOf intT" True grouped "\<lambda>_ _. retS ()" "\<lambda>_ _. retS ()"]
    by (simp add: demoE_def del: retS_app)
qed

end
