(* ===== verification/Fuel.thy ===== *)
theory Fuel
  imports Demo
begin

text \<open>
  The fuel of the recursion of calls is only a bound: a result that some fuel gives is the result
  that every larger fuel gives. A property of what \<open>Invoke\<close> returns therefore does not depend on the
  fuel it is stated with.
\<close>

text \<open>\<open>m'\<close> gives what \<open>m\<close> gives, where \<open>m\<close> does not run out of fuel.\<close>

definition agrees :: "('s, 'a) eff \<Rightarrow> ('s, 'a) eff \<Rightarrow> bool" where
  "agrees m m' \<longleftrightarrow> (\<forall>\<sigma>. fst (m \<sigma>) \<noteq> Diverged \<longrightarrow> m' \<sigma> = m \<sigma>)"

lemma agreesI: "(\<And>\<sigma>. fst (m \<sigma>) \<noteq> Diverged \<Longrightarrow> m' \<sigma> = m \<sigma>) \<Longrightarrow> agrees m m'"
  by (simp add: agrees_def)

lemma agreesD: "agrees m m' \<Longrightarrow> fst (m \<sigma>) \<noteq> Diverged \<Longrightarrow> m' \<sigma> = m \<sigma>"
  by (simp add: agrees_def)

lemma agrees_refl: "agrees m m"
  by (simp add: agrees_def)

lemma agrees_trans: "agrees m1 m2 \<Longrightarrow> agrees m2 m3 \<Longrightarrow> agrees m1 m3"
  by (simp add: agrees_def)

lemma agrees_bindS:
  assumes m: "agrees m m'" and f: "\<And>a. agrees (f a) (f' a)"
  shows "agrees (bindS m f) (bindS m' f')"
proof (rule agreesI)
  fix \<sigma> assume ends: "fst (bindS m f \<sigma>) \<noteq> Diverged"
  obtain r \<sigma>' where r: "m \<sigma> = (r, \<sigma>')" by fastforce
  with ends have "r \<noteq> Diverged" by (auto simp: bindS_def)
  with agreesD [OF m, of \<sigma>] r have "m' \<sigma> = (r, \<sigma>')" by simp
  with r ends show "bindS m' f' \<sigma> = bindS m f \<sigma>"
    using agreesD [OF f] by (cases r) (simp_all add: bindS_def)
qed

lemma agrees_wrapS: "agrees m m' \<Longrightarrow> agrees (wrapS w m) (wrapS w m')"
  by (auto simp: agrees_def wrapS_def split: prod.splits res.splits)

lemma agrees_forS: "(\<And>x. x \<in> set xs \<Longrightarrow> agrees (f x) (f' x)) \<Longrightarrow> agrees (forS f xs) (forS f' xs)"
  by (induction xs) (auto simp del: retS_app intro!: agrees_bindS agrees_refl)

lemma agrees_mapS: "(\<And>x. x \<in> set xs \<Longrightarrow> agrees (f x) (f' x)) \<Longrightarrow> agrees (mapS f xs) (mapS f' xs)"
  by (induction xs) (auto simp del: retS_app intro!: agrees_bindS agrees_refl)

text \<open>Where the code reads the state before it goes on.\<close>

lemma agrees_here: "(\<And>\<sigma>. agrees (m \<sigma>) (m' \<sigma>)) \<Longrightarrow> agrees (\<lambda>\<sigma>. m \<sigma> \<sigma>) (\<lambda>\<sigma>. m' \<sigma> \<sigma>)"
  by (simp add: agrees_def)

subsection \<open>Building with calls that agree\<close>

lemma agrees_callProviders:
  assumes cC: "\<And>n c. agrees (cC n c) (cC' n c)"
  shows "agrees (callProviders cC name optional t ns) (callProviders cC' name optional t ns)"
proof (induction ns)
  case (Cons n ns)
  show ?case
  proof (rule agreesI)
    fix \<sigma> assume ends: "fst (callProviders cC name optional t (n # ns) \<sigma>) \<noteq> Diverged"
    obtain r \<sigma>' where r: "cC n (cn_origS (ctor_of \<sigma> n)) \<sigma> = (r, \<sigma>')" by fastforce
    with ends have "r \<noteq> Diverged" by auto
    with agreesD [OF cC, of n "cn_origS (ctor_of \<sigma> n)" \<sigma>] r
    have "cC' n (cn_origS (ctor_of \<sigma> n)) \<sigma> = (r, \<sigma>')" by simp
    with r ends show "callProviders cC' name optional t (n # ns) \<sigma> = callProviders cC name optional t (n # ns) \<sigma>"
      using agreesD [OF Cons.IH] by (cases r) simp_all
  qed
qed (simp add: agrees_refl)

lemma agrees_buildSingle:
  assumes cC: "\<And>n c. agrees (cC n c) (cC' n c)" and cD: "\<And>d s. agrees (cD d s) (cD' d s)"
  shows "agrees (buildSingle cC cD name optional t c) (buildSingle cC' cD' name optional t c)"
proof -
  have dec: "agrees (buildWithDecorators cD name t c) (buildWithDecorators cD' name t c)"
  proof (rule agreesI)
    fix \<sigma> assume "fst (buildWithDecorators cD name t c \<sigma>) \<noteq> Diverged"
    moreover have "agrees (bindS (wrapS w (cD d s)) k) (bindS (wrapS w (cD' d s)) k)" for w d s and k :: "unit \<Rightarrow> (store, gval option) eff"
      by (intro agrees_bindS agrees_wrapS agrees_refl cD)
    ultimately show "buildWithDecorators cD' name t c \<sigma> = buildWithDecorators cD name t c \<sigma>"
      using agreesD by (fastforce simp: buildWithDecorators_def split: option.splits)
  qed
  have "agrees (buildFromProviders cC name optional t c) (buildFromProviders cC' name optional t c)"
  proof (rule agreesI)
    fix \<sigma> assume "fst (buildFromProviders cC name optional t c \<sigma>) \<noteq> Diverged"
    moreover have "agrees (bindS (callProviders cC name optional t ns) k) (bindS (callProviders cC' name optional t ns) k)"
      for ns and k :: "bool \<Rightarrow> (store, gval) eff"
      by (intro agrees_bindS agrees_callProviders agrees_refl cC)
    ultimately show "buildFromProviders cC' name optional t c \<sigma> = buildFromProviders cC name optional t c \<sigma>"
      using agreesD by (fastforce simp: buildFromProviders_def split: option.splits search.splits)
  qed
  with dec show ?thesis
    unfolding buildSingle_def by (intro agrees_bindS) (auto simp del: retS_app intro: agrees_refl split: option.split)
qed

lemma agrees_buildGroup:
  assumes cC: "\<And>n c. agrees (cC n c) (cC' n c)" and cD: "\<And>d s. agrees (cD d s) (cD' d s)"
  shows "agrees (buildGroup E cC cD g t soft c) (buildGroup E cC' cD' g t soft c)"
proof -
  let ?dec = "\<lambda>cD s \<sigma>'. case getGroupDecorator \<sigma>' s g (elemT t) of
           None \<Rightarrow> (Ret (), \<sigma>')
         | Some d \<Rightarrow>
             if dn_state (dcor_of \<sigma>' d) = decoratorOnStack then (Ret (), \<sigma>')
             else wrapS (\<lambda>e. EParamGroupFailed (group_key g (elemT t)) e (dn_id (dcor_of \<sigma>' d))) (cD d s) \<sigma>'"
  have "agrees (?dec cD s) (?dec cD' s)" for s
    by (rule agreesI) (use agreesD [OF agrees_wrapS [OF cD]] in \<open>auto split: option.splits if_splits\<close>)
  then have dec: "agrees (callGroupDecorators cD g t c) (callGroupDecorators cD' g t c)"
    unfolding callGroupDecorators_def by (intro agreesI) (rule agreesD [OF agrees_forS])
  let ?one = "\<lambda>cC n \<sigma>''. wrapS (\<lambda>e. EParamGroupFailed (group_key g (elemT t)) e (cn_id (ctor_of \<sigma>'' n)))
               (cC n (cn_origS (ctor_of \<sigma>'' n))) \<sigma>''"
  have "agrees (?one cC n) (?one cC' n)" for n
    by (rule agreesI) (rule agreesD [OF agrees_wrapS [OF cC]])
  then have "agrees (\<lambda>\<sigma>'. forS (?one cC) (getGroupProviders \<sigma>' s g (elemT t)) \<sigma>')
      (\<lambda>\<sigma>'. forS (?one cC') (getGroupProviders \<sigma>' s g (elemT t)) \<sigma>')" for s
    by (intro agreesI) (rule agreesD [OF agrees_forS])
  then have prov: "agrees (callGroupProviders cC g t c) (callGroupProviders cC' g t c)"
    unfolding callGroupProviders_def by (intro agreesI) (rule agreesD [OF agrees_forS])
  have rest: "agrees (bindS (if soft then retS () else callGroupProviders cC g t c) k)
      (bindS (if soft then retS () else callGroupProviders cC' g t c) k)" for k :: "unit \<Rightarrow> (store, gval) eff"
    using prov by (intro agrees_bindS agrees_refl) (simp add: agrees_refl del: retS_app)
  show ?thesis
    unfolding buildGroup_def
  proof (rule agrees_bindS [OF dec], rule agreesI, goal_cases)
    case (1 a \<sigma>)
    then show ?case
      by (cases "firstSome (\<lambda>s. getDecoratedValueGroup \<sigma> s g t) (storesToRoot \<sigma> c)")
        (simp_all only: option.case, rule agreesD [OF rest])
  qed
qed

lemma agrees_build:
  assumes "\<And>n c. agrees (cC n c) (cC' n c)" and "\<And>d s. agrees (cD d s) (cD' d s)"
  shows "agrees (build E cC cD p c) (build E cC' cD' p c)"
  using assms
proof (induction E cC cD p c rule: build.induct)
  case (3 E cC cD t fs c)
  then show ?case
    unfolding build.simps by (intro agrees_bindS [OF agrees_mapS] agrees_bindS agrees_refl) blast+
qed (simp_all add: agrees_buildSingle agrees_buildGroup)

lemma agrees_BuildList:
  assumes "\<And>n c. agrees (cC n c) (cC' n c)" and "\<And>d s. agrees (cD d s) (cD' d s)"
  shows "agrees (BuildList E cC cD pl c) (BuildList E cC' cD' pl c)"
  unfolding BuildList_def by (intro agrees_mapS agrees_build assms)

lemma agrees_ctorCall:
  assumes "\<And>n c. agrees (cC n c) (cC' n c)" and "\<And>d s. agrees (cD d s) (cD' d s)"
  shows "agrees (ctorCall E cC cD n c) (ctorCall E cC' cD' n c)"
proof (rule agreesI)
  fix \<sigma> assume ends: "fst (ctorCall E cC cD n c \<sigma>) \<noteq> Diverged"
  have "agrees (bindS (wrapS w (BuildList E cC cD pl c)) (ctorRun E n c))
      (bindS (wrapS w (BuildList E cC' cD' pl c)) (ctorRun E n c))" for w pl
    by (intro agrees_bindS agrees_wrapS agrees_BuildList agrees_refl assms)
  from agreesD [OF this] ends show "ctorCall E cC' cD' n c \<sigma> = ctorCall E cC cD n c \<sigma>"
    by (simp add: ctorCall_def Let_def split: option.splits if_splits)
qed

lemma agrees_dcorCall:
  assumes "\<And>n c. agrees (cC n c) (cC' n c)" and "\<And>d s. agrees (cD d s) (cD' d s)"
  shows "agrees (dcorCall E cC cD d s) (dcorCall E cC' cD' d s)"
proof (rule agreesI)
  fix \<sigma> assume ends: "fst (dcorCall E cC cD d s \<sigma>) \<noteq> Diverged"
  have "agrees (bindS (wrapS w (BuildList E cC cD pl s')) (dcorRun E d s))
      (bindS (wrapS w (BuildList E cC' cD' pl s')) (dcorRun E d s))" for w pl s'
    by (intro agrees_bindS agrees_wrapS agrees_BuildList agrees_refl assms)
  from agreesD [OF this] ends show "dcorCall E cC' cD' d s \<sigma> = dcorCall E cC cD d s \<sigma>"
    by (simp add: dcorCall_def Let_def split: option.splits if_splits)
qed

lemma agrees_calls: "agrees (callC E k n c) (callC E (Suc k) n c) \<and> agrees (callD E k d s) (callD E (Suc k) d s)"
proof (induction k arbitrary: n c d s)
  case (Suc k)
  then show ?case
    unfolding callC.simps(2) [of E "Suc k"] callD.simps(2) [of E "Suc k"]
      callC.simps(2) [of E k] callD.simps(2) [of E k]
    by (intro conjI agrees_ctorCall agrees_dcorCall) blast+
qed (simp add: agrees_def)

lemma agrees_calls_le:
  "k \<le> k' \<Longrightarrow> agrees (callC E k n c) (callC E k' n c)"
  "k \<le> k' \<Longrightarrow> agrees (callD E k d s) (callD E k' d s)"
  by (induction k' rule: dec_induct) (use agrees_calls in \<open>blast intro: agrees_refl agrees_trans\<close>)+



end
