(* ===== verification/Single.thy ===== *)
theory Single
  imports Termination
begin

text \<open>
  Containers without child scopes. There the dependency graph that \<open>Provide\<close> and \<open>Invoke\<close> check
  (src/graph.go, src/internal/graph/graph.go) is the graph of the calls that building arguments makes: the order of a provider is the place
  of its node in the graph, and so is the order of a value group that a constructor consumes. A graph that
  passed the check has no cycle of calls, and \<open>Invoke\<close> always returns.
\<close>

subsection \<open>The places of nodes in the graph\<close>

abbreviation gnodes :: "store \<Rightarrow> gnode list" where
  "gnodes \<sigma> \<equiv> gh_nodes (gh (scope_of \<sigma> 0))"

text \<open>The value groups that a parameter consumes, with the identity of their orders.\<close>

fun groupsOf :: "param \<Rightarrow> (string \<times> gotype \<times> nat) list" where
  "groupsOf (paramSingle name optional t) = []"
| "groupsOf (paramGroupedSlice g t soft oid) = [(g, t, oid)]"
| "groupsOf (paramObject t fs) = concat (map (\<lambda>f. groupsOf (pofParam f)) fs)"

definition group_at :: "gnode list \<Rightarrow> orders list \<Rightarrow> string \<times> gotype \<times> nat \<Rightarrow> bool" where
  "group_at ws oms = (\<lambda>(g, t, oid). oid < length oms \<and> al_get 0 (oms ! oid) 0 < length ws \<and>
     ws ! al_get 0 (oms ! oid) 0 = NGroup g t)"

definition groups_at :: "gnode list \<Rightarrow> orders list \<Rightarrow> param list \<Rightarrow> bool" where
  "groups_at ws oms ps \<longleftrightarrow> (\<forall>p \<in> set ps. \<forall>x \<in> set (groupsOf p). group_at ws oms x)"

definition ctor_at :: "gnode list \<Rightarrow> constructorNode list \<Rightarrow> nat \<Rightarrow> bool" where
  "ctor_at ws cs n \<longleftrightarrow> n < length cs \<and> al_get 0 (cn_orders (cs ! n)) 0 < length ws \<and>
     ws ! al_get 0 (cn_orders (cs ! n)) 0 = NCtor n"

definition nodes_known :: "gnode list \<Rightarrow> orders list \<Rightarrow> constructorNode list \<Rightarrow> bool" where
  "nodes_known ws oms cs \<longleftrightarrow> (\<forall>n. NCtor n \<in> set ws \<longrightarrow>
     n < length cs \<and> groups_at ws oms (Params (cn_paramList (cs ! n))))"

definition indexed_graph :: "store \<Rightarrow> bool" where
  "indexed_graph \<sigma> \<longleftrightarrow> well_indexed \<sigma> \<and> length (scopes \<sigma>) = 1 \<and> nodes_known (gnodes \<sigma>) (orderMaps \<sigma>) (ctors \<sigma>) \<and>
     (\<forall>k. \<forall>n \<in> set (getProviders \<sigma> 0 k). ctor_at (gnodes \<sigma>) (ctors \<sigma>) n)"

definition one_scope :: "store \<Rightarrow> bool" where
  "one_scope \<sigma> \<longleftrightarrow> indexed_graph \<sigma> \<and> (isVerifiedAcyclic (scope_of \<sigma> 0) \<longrightarrow> acyclic (call_graph \<sigma>))"

lemma group_at_append: "group_at ws oms x \<Longrightarrow> group_at (ws @ ws') (oms @ oms') x"
  by (auto simp: group_at_def nth_append)

lemma groups_at_append: "groups_at ws oms ps \<Longrightarrow> groups_at (ws @ ws') (oms @ oms') ps"
  by (simp add: groups_at_def group_at_append)

lemma groups_at_simps [simp]:
  "groups_at ws oms []" "groups_at ws oms (p # q # ps) \<longleftrightarrow> groups_at ws oms [p] \<and> groups_at ws oms (q # ps)"
  "groups_at ws oms [paramSingle name optional t]"
  "groups_at ws oms [paramGroupedSlice g t soft oid] \<longleftrightarrow> group_at ws oms (g, t, oid)"
  "groups_at ws oms [paramObject t fs] \<longleftrightarrow> groups_at ws oms (map pofParam fs)"
  by (auto simp: groups_at_def)

lemma ctor_at_append: "ctor_at ws cs n \<Longrightarrow> ctor_at (ws @ ws') (cs @ cs') n"
  by (auto simp: ctor_at_def nth_append)

lemma nodes_known_append:
  "nodes_known ws oms cs \<Longrightarrow> (\<And>n. NCtor n \<in> set ws' \<Longrightarrow> n < length (cs @ cs') \<and>
     groups_at (ws @ ws') (oms @ oms') (Params (cn_paramList ((cs @ cs') ! n)))) \<Longrightarrow>
   nodes_known (ws @ ws') (oms @ oms') (cs @ cs')"
  by (fastforce simp: nodes_known_def nth_append intro: groups_at_append)

lemma one_tree:
  assumes "wf_tree \<sigma>" and "length (scopes \<sigma>) = 1"
  shows "storesToRoot \<sigma> 0 = [0]" and "ancestors \<sigma> 0 = [0]" and "subscopes \<sigma> 0 = [0]" and "rootScope \<sigma> 0 = 0"
    and "appendSubscopes \<sigma> 0 [] = [0]"
proof -
  have "childScopes (scope_of \<sigma> 0) = []"
    using wf_tree_child [OF assms(1), of 0] assms(2) by (cases "childScopes (scope_of \<sigma> 0)") fastforce+
  then show "subscopes \<sigma> 0 = [0]" using assms by (subst subscopes_unfold) simp_all
  then show "appendSubscopes \<sigma> 0 [] = [0]" using assms by (simp add: appendSubscopes_subs)
  show "ancestors \<sigma> 0 = [0]" using assms wf_tree_root [of \<sigma> 0] by (subst ancestors_unfold) simp_all
  then show "storesToRoot \<sigma> 0 = [0]" by (simp add: storesToRoot_def)
  show "rootScope \<sigma> 0 = 0" using assms by (intro rootScope_0) simp_all
qed

lemma one_tree_all: "wf_tree \<sigma> \<Longrightarrow> length (scopes \<sigma>) = 1 \<Longrightarrow> getAllProviders \<sigma> 0 k = getProviders \<sigma> 0 k"
  by (simp add: getAllProviders_def one_tree)

subsection \<open>The dependency graph contains the call graph\<close>

lemma indexed_graphD:
  assumes "indexed_graph \<sigma>"
  shows "wf_tree \<sigma>" and "length (scopes \<sigma>) = 1" and "well_indexed \<sigma>"
    and "n \<in> set (getProviders \<sigma> 0 k) \<Longrightarrow> ctor_at (gnodes \<sigma>) (ctors \<sigma>) n"
    and "NCtor n \<in> set (gnodes \<sigma>) \<Longrightarrow> n < length (ctors \<sigma>)"
    and "NCtor n \<in> set (gnodes \<sigma>) \<Longrightarrow> groups_at (gnodes \<sigma>) (orderMaps \<sigma>) (Params (cn_paramList (ctor_of \<sigma> n)))"
  using assms well_indexed_tree by (auto simp: indexed_graph_def nodes_known_def)

lemma getParamOrder_less:
  assumes "indexed_graph \<sigma>" and "groups_at (gnodes \<sigma>) (orderMaps \<sigma>) [p]" and "v \<in> set (getParamOrder \<sigma> 0 p)"
  shows "v < length (gnodes \<sigma>)"
  using assms(2,3)
proof (induction p rule: groupsOf.induct)
  case (1 name optional t)
  then show ?case
    using indexed_graphD(4) [OF assms(1)] indexed_graphD(1,2) [OF assms(1)]
    by (auto simp: getAllValueProviders_def one_tree_all ctorOrder_def ctor_at_def)
next
  case (3 t fs)
  then show ?case by (auto simp: groups_at_def)
qed (simp add: group_at_def)

lemma graph_in_range:
  assumes "indexed_graph \<sigma>"
  shows "graph_ok (scope_graph \<sigma> 0)"
  unfolding graph_ok_def
proof (intro allI impI ballI)
  fix u v assume u: "u < Order (scope_graph \<sigma> 0)" and v: "v \<in> set (EdgesFrom (scope_graph \<sigma> 0) u)"
  then have v: "v \<in> set (nodeEdges \<sigma> 0 (gnodes \<sigma> ! u))" by (simp add: scope_graph_def Lookup_def)
  show "v < Order (scope_graph \<sigma> 0)"
  proof (cases "gnodes \<sigma> ! u")
    case (NCtor n)
    then have "NCtor n \<in> set (gnodes \<sigma>)" using u by (simp add: scope_graph_def) (metis nth_mem)
    from indexed_graphD(6) [OF assms this] v NCtor getParamOrder_less [OF assms] show ?thesis
      by (auto simp: scope_graph_def nodeEdges_def groups_at_def)
  next
    case (NGroup g t)
    with v indexed_graphD(4) [OF assms] indexed_graphD(1,2) [OF assms] show ?thesis
      by (auto simp: scope_graph_def nodeEdges_def getAllGroupProviders_def one_tree_all ctorOrder_def ctor_at_def)
  qed
qed

lemma scope_graph_edge:
  "(u, v) \<in> edges (scope_graph \<sigma> 0) \<longleftrightarrow> u < length (gnodes \<sigma>) \<and> v \<in> set (nodeEdges \<sigma> 0 (gnodes \<sigma> ! u))"
  by (auto simp: edges_def scope_graph_def Lookup_def)

lemma callee_edge:
  assumes ok: "indexed_graph \<sigma>" and "groups_at (gnodes \<sigma>) (orderMaps \<sigma>) [p]" and "m \<in> callees \<sigma> 0 p"
  shows "\<exists>v \<in> set (getParamOrder \<sigma> 0 p). v = ctorOrder \<sigma> m 0 \<or> (v, ctorOrder \<sigma> m 0) \<in> edges (scope_graph \<sigma> 0)"
  using assms(2,3)
proof (induction p rule: groupsOf.induct)
  case (1 name optional t)
  then show ?case using indexed_graphD(1,2) [OF ok]
    by (auto simp: one_tree one_tree_all getAllValueProviders_def getValueProviders_def)
next
  case (2 g t soft oid)
  then show ?case using indexed_graphD(1,2) [OF ok]
    by (auto simp: one_tree one_tree_all getGroupProviders_def getAllGroupProviders_def group_at_def
        scope_graph_edge nodeEdges_def split: if_splits)
next
  case (3 t fs)
  then show ?case by (fastforce simp: groups_at_def)
qed

lemma callee_provided: "indexed_graph \<sigma> \<Longrightarrow> m \<in> callees \<sigma> 0 p \<Longrightarrow> \<exists>k. m \<in> set (getProviders \<sigma> 0 k)"
  by (induction p rule: groupsOf.induct)
    (auto simp: one_tree indexed_graphD getValueProviders_def getGroupProviders_def split: if_splits)

lemma call_graph_one:
  assumes ok: "indexed_graph \<sigma>" and "(n, m) \<in> call_graph \<sigma>"
  obtains p where "n < length (ctors \<sigma>)" and "p \<in> set (Params (cn_paramList (ctor_of \<sigma> n)))" and "m \<in> callees \<sigma> 0 p"
  using assms(2) well_indexed_ctor(2) [OF indexed_graphD(3) [OF ok], of n] indexed_graphD(2) [OF ok]
  by (auto simp: call_graph_def)

lemma call_graph_target:
  assumes ok: "indexed_graph \<sigma>" and "(n', n) \<in> (call_graph \<sigma>)\<^sup>+"
  shows "\<exists>k. n \<in> set (getProviders \<sigma> 0 k)"
proof -
  from assms(2) obtain y where "(y, n) \<in> call_graph \<sigma>" by (blast elim: tranclE)
  then show ?thesis by (rule call_graph_one [OF ok]) (rule callee_provided [OF ok])
qed

lemma call_edges:
  assumes ok: "indexed_graph \<sigma>" and "(n, m) \<in> call_graph \<sigma>" and n: "ctor_at (gnodes \<sigma>) (ctors \<sigma>) n"
  shows "ctor_at (gnodes \<sigma>) (ctors \<sigma>) m \<and> (ctorOrder \<sigma> n 0, ctorOrder \<sigma> m 0) \<in> (edges (scope_graph \<sigma> 0))\<^sup>+"
proof -
  obtain p where p: "p \<in> set (Params (cn_paramList (ctor_of \<sigma> n)))" and m: "m \<in> callees \<sigma> 0 p"
    by (rule call_graph_one [OF assms(1,2)])
  from n have node: "ctorOrder \<sigma> n 0 < length (gnodes \<sigma>)" "gnodes \<sigma> ! ctorOrder \<sigma> n 0 = NCtor n"
    by (simp_all add: ctor_at_def ctorOrder_def)
  then have "NCtor n \<in> set (gnodes \<sigma>)" by (metis nth_mem)
  from indexed_graphD(6) [OF ok this] p have "groups_at (gnodes \<sigma>) (orderMaps \<sigma>) [p]" by (simp add: groups_at_def)
  from callee_edge [OF ok this m] obtain v where v: "v \<in> set (getParamOrder \<sigma> 0 p)"
    and last: "v = ctorOrder \<sigma> m 0 \<or> (v, ctorOrder \<sigma> m 0) \<in> edges (scope_graph \<sigma> 0)" by blast
  from v p node have "(ctorOrder \<sigma> n 0, v) \<in> edges (scope_graph \<sigma> 0)"
    by (auto simp: scope_graph_edge nodeEdges_def)
  with last have "(ctorOrder \<sigma> n 0, ctorOrder \<sigma> m 0) \<in> (edges (scope_graph \<sigma> 0))\<^sup>+" by auto
  moreover from callee_provided [OF ok m] have "ctor_at (gnodes \<sigma>) (ctors \<sigma>) m"
    using indexed_graphD(4) [OF ok] by blast
  ultimately show ?thesis by blast
qed

lemma acyclic_calls:
  assumes ok: "indexed_graph \<sigma>" and acyclic: "acyclic (edges (scope_graph \<sigma> 0))"
  shows "acyclic (call_graph \<sigma>)"
proof -
  have path: "ctor_at (gnodes \<sigma>) (ctors \<sigma>) m \<and> (ctorOrder \<sigma> n 0, ctorOrder \<sigma> m 0) \<in> (edges (scope_graph \<sigma> 0))\<^sup>+"
    if "(n, m) \<in> (call_graph \<sigma>)\<^sup>+" and "ctor_at (gnodes \<sigma>) (ctors \<sigma>) n" for n m
    using that
  proof (induction rule: trancl_induct)
    case (step y z)
    with call_edges [OF ok step(2)] show ?case by (auto intro: trancl_trans)
  qed (rule call_edges [OF ok])
  have "ctor_at (gnodes \<sigma>) (ctors \<sigma>) n" if "(n', n) \<in> (call_graph \<sigma>)\<^sup>+" for n' n
    using call_graph_target [OF ok that] indexed_graphD(4) [OF ok] by blast
  with path acyclic show ?thesis unfolding acyclic_def by blast
qed

subsection \<open>Registering without new providers\<close>

text \<open>
  From \<open>\<sigma>0\<close> to \<open>\<sigma>\<close> nodes may have been added to the graph, each constructor among them with its groups in
  place, but no provider, and no check was passed.
\<close>

definition grows :: "store \<Rightarrow> store \<Rightarrow> bool" where
  "grows \<sigma>0 \<sigma> \<longleftrightarrow> registering \<sigma>0 \<sigma> \<and> length (scopes \<sigma>) = 1 \<and>
     (\<exists>ws. gnodes \<sigma> = gnodes \<sigma>0 @ ws \<and> (\<forall>n. NCtor n \<in> set ws \<longrightarrow>
        n < length (ctors \<sigma>) \<and> groups_at (gnodes \<sigma>) (orderMaps \<sigma>) (Params (cn_paramList (ctor_of \<sigma> n))))) \<and>
     (\<exists>oms. orderMaps \<sigma> = orderMaps \<sigma>0 @ oms) \<and> (\<forall>k. getProviders \<sigma> 0 k = getProviders \<sigma>0 0 k) \<and>
     (isVerifiedAcyclic (scope_of \<sigma> 0) \<longrightarrow> isVerifiedAcyclic (scope_of \<sigma>0 0))"

lemma growsD:
  assumes "grows \<sigma>0 \<sigma>"
  shows "registering \<sigma>0 \<sigma>" and "length (scopes \<sigma>) = 1" and "well_indexed \<sigma>" and "wf_tree \<sigma>"
    and "getProviders \<sigma> 0 k = getProviders \<sigma>0 0 k"
  using assms registering_wf well_indexed_tree by (auto simp: grows_def)

lemma grows_refl: "well_indexed \<sigma> \<Longrightarrow> length (scopes \<sigma>) = 1 \<Longrightarrow> grows \<sigma> \<sigma>"
  by (simp add: grows_def registering_refl)

lemma indexed_grows:
  assumes ok: "indexed_graph \<sigma>0" and "grows \<sigma>0 \<sigma>"
  shows "indexed_graph \<sigma>"
proof -
  from assms(2) obtain ws oms cs where ext: "gnodes \<sigma> = gnodes \<sigma>0 @ ws" "orderMaps \<sigma> = orderMaps \<sigma>0 @ oms"
    "ctors \<sigma> = ctors \<sigma>0 @ cs"
    and ws: "\<And>n. NCtor n \<in> set ws \<Longrightarrow> n < length (ctors \<sigma>) \<and> groups_at (gnodes \<sigma>) (orderMaps \<sigma>) (Params (cn_paramList (ctor_of \<sigma> n)))"
    by (auto simp: grows_def registering_def)
  have "nodes_known (gnodes \<sigma>) (orderMaps \<sigma>) (ctors \<sigma>)"
    using ok ws unfolding ext by (intro nodes_known_append) (simp_all add: indexed_graph_def)
  moreover have "ctor_at (gnodes \<sigma>) (ctors \<sigma>) n" if "n \<in> set (getProviders \<sigma> 0 k)" for n k
    using indexed_graphD(4) [OF ok] that growsD(5) [OF assms(2)] unfolding ext by (simp add: ctor_at_append)
  ultimately show ?thesis using growsD [OF assms(2)] by (simp add: indexed_graph_def)
qed

lemma callees_one:
  assumes "wf_tree \<sigma>" "length (scopes \<sigma>) = 1" "wf_tree \<sigma>'" "length (scopes \<sigma>') = 1"
    and "\<And>k. getProviders \<sigma>' 0 k = getProviders \<sigma> 0 k"
  shows "callees \<sigma>' 0 p = callees \<sigma> 0 p"
  using assms by (intro callees_cong) (simp_all add: one_tree)

lemma acyclic_grows:
  assumes ok: "indexed_graph \<sigma>0" and grows: "grows \<sigma>0 \<sigma>" and acyclic: "acyclic (call_graph \<sigma>0)"
  shows "acyclic (call_graph \<sigma>)"
proof -
  note ok' = indexed_grows [OF ok grows]
  from grows obtain cs where ctors: "ctors \<sigma> = ctors \<sigma>0 @ cs" by (auto simp: grows_def registering_def)
  have callees: "callees \<sigma> 0 p = callees \<sigma>0 0 p" for p
    using indexed_graphD(1,2) [OF ok] indexed_graphD(1,2) [OF ok'] growsD(5) [OF grows] by (intro callees_one) simp_all
  have edge: "(n, m) \<in> call_graph \<sigma>0 \<and> (\<exists>k. m \<in> set (getProviders \<sigma>0 0 k))"
    if call: "(n, m) \<in> call_graph \<sigma>" and prov: "n \<in> set (getProviders \<sigma>0 0 k)" for n m k
  proof -
    have n: "n < length (ctors \<sigma>0)" using indexed_graphD(4) [OF ok prov] by (simp add: ctor_at_def)
    obtain p where "p \<in> set (Params (cn_paramList (ctor_of \<sigma> n)))" "m \<in> callees \<sigma> 0 p"
      by (rule call_graph_one [OF ok' call])
    with n callees callee_provided [OF ok, of m p] well_indexed_ctor(2) [OF indexed_graphD(3) [OF ok] n] indexed_graphD(2) [OF ok]
    show ?thesis by (auto simp: call_graph_def ctors nth_append)
  qed
  have "(n, m) \<in> (call_graph \<sigma>0)\<^sup>+ \<and> (\<exists>k. m \<in> set (getProviders \<sigma>0 0 k))"
    if "(n, m) \<in> (call_graph \<sigma>)\<^sup>+" and "n \<in> set (getProviders \<sigma>0 0 k)" for n m k
    using that
  proof (induction rule: trancl_induct)
    case (step y z)
    then show ?case using edge by (meson trancl.trancl_into_trancl)
  qed (use edge in blast)
  moreover have "\<exists>k. n \<in> set (getProviders \<sigma>0 0 k)" if "(n', n) \<in> (call_graph \<sigma>)\<^sup>+" for n' n
    using call_graph_target [OF ok' that] growsD(5) [OF grows] by simp
  ultimately show ?thesis using acyclic unfolding acyclic_def by blast
qed

lemma one_scope_grows: "one_scope \<sigma>0 \<Longrightarrow> grows \<sigma>0 \<sigma> \<Longrightarrow> one_scope \<sigma>"
  using indexed_grows acyclic_grows by (auto simp: one_scope_def grows_def)

subsection \<open>Reading parameters places their groups\<close>

definition placed :: "store \<Rightarrow> param list \<Rightarrow> store \<Rightarrow> bool" where
  "placed \<sigma>0 ps \<sigma> \<longleftrightarrow> grows \<sigma>0 \<sigma> \<and> groups_at (gnodes \<sigma>) (orderMaps \<sigma>) ps"

lemma placed_cong: "set ps = set ps' \<Longrightarrow> placed \<sigma>0 ps \<sigma> = placed \<sigma>0 ps' \<sigma>"
  by (simp add: placed_def groups_at_def)

lemma newGraphNode_one:
  assumes "wf_tree \<sigma>" and "length (scopes \<sigma>) = 1"
  shows "newGraphNode w 0 (\<sigma>, []) = (pushNodes w {0} \<sigma>, [(0, length (gnodes \<sigma>))])"
  using assms by (simp add: newGraphNode_eq one_tree subOrders_def)

lemma pushNodes_one:
  assumes "length (scopes \<sigma>) = 1"
  shows "gnodes (pushNodes w {0} \<sigma>) = gnodes \<sigma> @ [w]" and "orderMaps (pushNodes w {0} \<sigma>) = orderMaps \<sigma>"
    and "getProviders (pushNodes w {0} \<sigma>) 0 k = getProviders \<sigma> 0 k"
    and "isVerifiedAcyclic (scope_of (pushNodes w {0} \<sigma>) 0) = isVerifiedAcyclic (scope_of \<sigma> 0)"
    and "length (scopes (pushNodes w {0} \<sigma>)) = 1" and "ctors (pushNodes w {0} \<sigma>) = ctors \<sigma>"
  using assms by (simp_all add: pushNodes_def pushNode_def getProviders_def)

lemma grows_orderMaps_registering: "registering \<sigma>0 (\<sigma>\<lparr>orderMaps := oms\<rparr>) = registering \<sigma>0 \<sigma>"
  by (simp add: registering_def well_indexed_def skel_def wf_tree_def)

lemma getProviders_orderMaps [simp]: "getProviders (\<sigma>\<lparr>orderMaps := oms\<rparr>) s k = getProviders \<sigma> s k"
  by (simp add: getProviders_def)

lemma grows_group:
  assumes grows: "grows \<sigma>0 \<sigma>" and "length (scopes \<sigma>0) = 1"
  shows "grows \<sigma>0 ((pushNodes (NGroup g t) {0} \<sigma>)\<lparr>orderMaps := orderMaps \<sigma> @ [ords]\<rparr>)"
proof -
  let ?\<sigma>' = "pushNodes (NGroup g t) {0} \<sigma>"
  note one = growsD(2) [OF grows] and wf = growsD(4) [OF grows]
  have "registering \<sigma>0 ?\<sigma>'"
    by (rule registering_newGraphNode(1) [OF growsD(1) [OF grows] _ newGraphNode_one [OF wf one]]) (simp add: assms(2))
  moreover obtain ws oms where "gnodes \<sigma> = gnodes \<sigma>0 @ ws" "orderMaps \<sigma> = orderMaps \<sigma>0 @ oms"
    and ws: "\<forall>n. NCtor n \<in> set ws \<longrightarrow> n < length (ctors \<sigma>) \<and> groups_at (gnodes \<sigma>) (orderMaps \<sigma>) (Params (cn_paramList (ctor_of \<sigma> n)))"
    using grows by (auto simp: grows_def)
  ultimately show ?thesis
    using grows groups_at_append [of "gnodes \<sigma>" "orderMaps \<sigma>" _ "[NGroup g t]" "[ords]"]
    by (simp add: grows_def pushNodes_one [OF one] grows_orderMaps_registering)
qed

lemma triple_newParamGroupedSlice:
  assumes "length (scopes \<sigma>0) = 1"
  shows "triple (placed \<sigma>0 ps) (newParamGroupedSlice f 0) (\<lambda>p. placed \<sigma>0 (p # ps)) (grows \<sigma>0)"
proof -
  have node: "triple (placed \<sigma>0 ps) (\<lambda>\<sigma>.
            let oid = length (orderMaps \<sigma>);
                (\<sigma>1, ords) = newGraphNode (NGroup g t) 0 (\<sigma>, [])
            in (Ret (paramGroupedSlice g t soft oid), \<sigma>1\<lparr>orderMaps := orderMaps \<sigma>1 @ [ords]\<rparr>))
      (\<lambda>p. placed \<sigma>0 (p # ps)) (grows \<sigma>0)" for g t soft
  proof (rule tripleI)
    fix \<sigma> assume "placed \<sigma>0 ps \<sigma>"
    then have grows: "grows \<sigma>0 \<sigma>" and ps: "groups_at (gnodes \<sigma>) (orderMaps \<sigma>) ps" by (simp_all add: placed_def)
    note one = growsD(2) [OF grows]
    have "group_at (gnodes \<sigma> @ [NGroup g t]) (orderMaps \<sigma> @ [[(0, length (gnodes \<sigma>))]]) (g, t, length (orderMaps \<sigma>))"
      by (simp add: group_at_def al_get_def)
    moreover have "groups_at (gnodes \<sigma> @ [NGroup g t]) (orderMaps \<sigma> @ [[(0, length (gnodes \<sigma>))]]) ps"
      by (rule groups_at_append [OF ps])
    ultimately show "post (\<lambda>p. placed \<sigma>0 (p # ps)) (grows \<sigma>0) (let oid = length (orderMaps \<sigma>);
                (\<sigma>1, ords) = newGraphNode (NGroup g t) 0 (\<sigma>, [])
            in (Ret (paramGroupedSlice g t soft oid), \<sigma>1\<lparr>orderMaps := orderMaps \<sigma>1 @ [ords]\<rparr>))"
      using grows_group [OF grows assms]
      by (simp add: newGraphNode_one [OF growsD(4) [OF grows] one] placed_def pushNodes_one [OF one] groups_at_def)
  qed
  show ?thesis
    unfolding newParamGroupedSlice_def Let_def
    by (rule triple_bindS [OF triple_liftS [where Q = "\<lambda>_. placed \<sigma>0 ps"]])
      (auto intro!: triple_throwS node [unfolded Let_def], simp_all add: placed_def)
qed

lemma tagParam_groups: "tagParam f p = Ret p' \<Longrightarrow> groupsOf p' = groupsOf p"
  by (auto simp: tagParam_def split: param.splits prod.splits option.splits)

lemma placed_grows: "placed \<sigma>0 ps \<sigma> \<Longrightarrow> grows \<sigma>0 \<sigma>"
  by (simp add: placed_def)

lemma placed_object: "placed \<sigma>0 (map pofParam fs @ ps) \<sigma> \<Longrightarrow> placed \<sigma>0 (paramObject t fs # ps) \<sigma>"
  by (auto simp: placed_def groups_at_def)

lemma triple_tagParam: "triple (placed \<sigma>0 (p # ps)) (liftS (tagParam f p)) (\<lambda>p'. placed \<sigma>0 (p' # ps)) (grows \<sigma>0)"
  by (rule triple_liftS) (auto simp: placed_def groups_at_def tagParam_groups)

lemma triple_If: "(b \<Longrightarrow> triple P m Q F) \<Longrightarrow> (\<not> b \<Longrightarrow> triple P m' Q F) \<Longrightarrow> triple P (if b then m else m') Q F"
  by simp

lemma triple_newParam:
  assumes one: "length (scopes \<sigma>0) = 1"
  shows "c = 0 \<Longrightarrow> triple (placed \<sigma>0 ps) (newParam t c) (\<lambda>p. placed \<sigma>0 (p # ps)) (grows \<sigma>0)"
    and "c = 0 \<Longrightarrow> triple (placed \<sigma>0 ps) (newParamObjectFields t ign i fs c) (\<lambda>pofs. placed \<sigma>0 (map pofParam pofs @ ps)) (grows \<sigma>0)"
    and "c = 0 \<Longrightarrow> triple (placed \<sigma>0 ps) (newParamObjectField i f c) (\<lambda>pof. placed \<sigma>0 (pofParam pof # ps)) (grows \<sigma>0)"
proof (induction t c and t ign i fs c and i f c arbitrary: ps and ps and ps
    rule: newParam_newParamObjectFields_newParamObjectField.induct)
  case (1 t c)
  have single: "placed \<sigma>0 ps \<sigma> \<Longrightarrow> placed \<sigma>0 (paramSingle name optional t # ps) \<sigma>" for \<sigma> name optional
    by (auto simp: placed_def groups_at_def)
  have object: "triple (placed \<sigma>0 ps) (bindS (newParamObjectFields t b 0 (structFields t) c) (\<lambda>fs. retS (paramObject t fs)))
      (\<lambda>p. placed \<sigma>0 (p # ps)) (grows \<sigma>0)"
    if "triple (placed \<sigma>0 ps) (newParamObjectFields t b 0 (structFields t) c) (\<lambda>pofs. placed \<sigma>0 (map pofParam pofs @ ps)) (grows \<sigma>0)" for b
    by (rule triple_bindS [OF that], rule triple_retS, rule placed_object)
  show ?case
  proof (subst newParam.simps, intro triple_If triple_throwS triple_retS placed_grows single)
    assume not: "\<not> (IsOut t \<or> Kind t = KPtr \<and> IsOut (elemT t) \<or> embedsType t outPtrType)" and "IsIn t"
    note IH = 1(1,2) [OF this]
    show "triple (placed \<sigma>0 ps) (case findIn (structFields t) of
           None \<Rightarrow> bindS (newParamObjectFields t False 0 (structFields t) c) (\<lambda>fs. retS (paramObject t fs))
         | Some f \<Rightarrow> (case isIgnoreUnexportedSet f of
                (_, Some e) \<Rightarrow> throwS e
              | (ignoreUnexported, None) \<Rightarrow>
                  bindS (newParamObjectFields t ignoreUnexported 0 (structFields t) c) (\<lambda>fs. retS (paramObject t fs))))
        (\<lambda>p. placed \<sigma>0 (p # ps)) (grows \<sigma>0)"
      using IH 1(3) object
      by (cases "findIn (structFields t)") (auto simp: triple_throwS placed_grows split: prod.split option.split)
  qed
next
  case (2 t ign i c)
  then show ?case by (simp add: newParamObjectFields.simps triple_def)
next
  case (3 t ign i f fs c)
  have field: "triple (placed \<sigma>0 ps) (wrapS w (newParamObjectField i f c)) (\<lambda>pof. placed \<sigma>0 (pofParam pof # ps)) (grows \<sigma>0)"
    if "\<not> (fieldType f = inType)" "\<not> (pkgPath f \<noteq> [] \<and> ign)" for w
    using 3(3,5) that by (intro triple_wrapS) blast
  have rest: "triple (placed \<sigma>0 (pofParam pof # ps)) (bindS (newParamObjectFields t ign (Suc i) fs c)
        (\<lambda>pofs. retS (pof # pofs))) (\<lambda>pofs. placed \<sigma>0 (map pofParam pofs @ ps)) (grows \<sigma>0)"
    if "\<not> (fieldType f = inType)" "\<not> (pkgPath f \<noteq> [] \<and> ign)" for pof
  proof (rule triple_bindS)
    show "triple (placed \<sigma>0 (pofParam pof # ps)) (newParamObjectFields t ign (Suc i) fs c)
        (\<lambda>pofs. placed \<sigma>0 (map pofParam pofs @ pofParam pof # ps)) (grows \<sigma>0)"
      using 3(4,5) that by blast
  qed (rule triple_retS, auto simp: placed_def groups_at_def)
  show ?case
    using 3 triple_bindS [OF field rest] by (subst newParamObjectFields.simps) auto
next
  case (4 i f c)
  have "triple (placed \<sigma>0 ps) (bindS (if TagGet f ''group'' \<noteq> [] then newParamGroupedSlice f c else newParam (fieldType f) c)
      (\<lambda>p. liftS (tagParam f p))) (\<lambda>p. placed \<sigma>0 (p # ps)) (grows \<sigma>0)" if "\<not> pkgPath f \<noteq> []"
    using that 4 triple_newParamGroupedSlice [OF one] by (auto intro!: triple_bindS [OF _ triple_tagParam])
  note field = this
  show ?case
  proof (subst newParamObjectField.simps, intro triple_If, goal_cases)
    case 1
    show ?case by (intro triple_throwS placed_grows)
  next
    case 2
    show ?case by (rule triple_bindS [OF field [OF 2]], rule triple_retS) simp
  qed
qed

lemma triple_newParams:
  assumes one: "length (scopes \<sigma>0) = 1"
  shows "triple (placed \<sigma>0 ps) (mapS (\<lambda>(i, t). wrapS (w i) (newParam t 0)) its) (\<lambda>qs. placed \<sigma>0 (qs @ ps)) (grows \<sigma>0)"
proof (induction its arbitrary: ps)
  case (Cons x its)
  obtain i t where x: "x = (i, t)" by (cases x)
  have "triple (placed \<sigma>0 (p # ps)) (bindS (mapS (\<lambda>(i, t). wrapS (w i) (newParam t 0)) its) (\<lambda>qs. retS (p # qs)))
      (\<lambda>qs. placed \<sigma>0 (qs @ ps)) (grows \<sigma>0)" for p
    by (rule triple_bindS [OF Cons.IH], rule triple_retS) (auto simp: placed_def groups_at_def)
  from triple_bindS [OF triple_wrapS [OF triple_newParam(1) [OF one refl]] this] show ?case by (simp add: x)
qed (simp add: triple_def)

lemma triple_newParamList_one:
  assumes one: "length (scopes \<sigma>0) = 1"
  shows "triple (grows \<sigma>0) (newParamList t 0) (\<lambda>pl. placed \<sigma>0 (Params pl)) (grows \<sigma>0)"
  unfolding newParamList_def Let_def
proof (rule triple_bindS)
  show "triple (grows \<sigma>0) (mapS (\<lambda>(i, t). wrapS (\<lambda>e. newErrInvalidInput (MsgBadArgument (Suc i)) (Some e)) (newParam t 0)) its)
      (\<lambda>ps. placed \<sigma>0 ps) (grows \<sigma>0)" for its
    by (rule triple_weaken [OF triple_newParams [OF one, of "[]"]]) (simp_all add: placed_def)
qed (simp add: triple_def)

lemma getProviders_ctors [simp]: "getProviders (\<sigma>\<lparr>ctors := cs\<rparr>) s k = getProviders \<sigma> s k"
  by (simp add: getProviders_def)

lemma grows_ctor:
  assumes grows: "grows \<sigma>0 \<sigma>" and one: "length (scopes \<sigma>0) = 1"
    and ps: "groups_at (gnodes \<sigma>) (orderMaps \<sigma>) (Params (cn_paramList node))" and "cn_s node = 0" "cn_origS node = 0" "fresh_ctor node"
  shows "grows \<sigma>0 ((pushNodes (NCtor (length (ctors \<sigma>))) {0} \<sigma>)\<lparr>ctors := ctors \<sigma> @ [node]\<rparr>)"
proof -
  let ?n = "length (ctors \<sigma>)"
  note one' = growsD(2) [OF grows] and push = pushNodes_one [OF growsD(2) [OF grows]]
  have "registering \<sigma>0 (pushNodes (NCtor ?n) {0} \<sigma>)"
    by (rule registering_newGraphNode(1) [OF growsD(1) [OF grows] _ newGraphNode_one [OF growsD(4) [OF grows] one']]) (simp add: one)
  from registering_ctor [OF this, of node] assms(4-6)
  have reg: "registering \<sigma>0 ((pushNodes (NCtor ?n) {0} \<sigma>)\<lparr>ctors := ctors \<sigma> @ [node]\<rparr>)" by (simp add: push)
  from grows obtain ws where ext: "gnodes \<sigma> = gnodes \<sigma>0 @ ws"
    and ws: "\<And>n. NCtor n \<in> set ws \<Longrightarrow> n < ?n \<and> groups_at (gnodes \<sigma>) (orderMaps \<sigma>) (Params (cn_paramList (ctor_of \<sigma> n)))"
    by (auto simp: grows_def)
  have more: "groups_at (gnodes \<sigma> @ [NCtor ?n]) (orderMaps \<sigma>) qs" if "groups_at (gnodes \<sigma>) (orderMaps \<sigma>) qs" for qs
    using groups_at_append [OF that, of "[NCtor ?n]" "[]"] by simp
  have "n < Suc ?n \<and> groups_at (gnodes \<sigma> @ [NCtor ?n]) (orderMaps \<sigma>) (Params (cn_paramList ((ctors \<sigma> @ [node]) ! n)))"
    if "NCtor n \<in> set (ws @ [NCtor ?n])" for n
    using that more [OF ps] ws [of n] more by (cases "n = ?n") (auto simp: nth_append)
  then show ?thesis
    using reg grows by (simp add: grows_def push ext)
qed

lemma triple_newConstructorNode_one:
  assumes one: "length (scopes \<sigma>0) = 1"
  shows "triple (grows \<sigma>0) (newConstructorNode f 0 0 opts)
    (\<lambda>n \<sigma>. grows \<sigma>0 \<sigma> \<and> ctor_at (gnodes \<sigma>) (ctors \<sigma>) n) (grows \<sigma>0)"
  unfolding newConstructorNode_def
proof (rule triple_bindS [OF triple_newParamList_for [OF triple_newParamList_one [OF one]]], goal_cases)
  case (1 params)
  have lift: "triple (\<lambda>\<sigma>. placed \<sigma>0 (Params params) \<sigma> \<and> params_for (fn_type f) params) (liftS (newResultList (fn_type f) ro))
      (\<lambda>rl \<sigma>. placed \<sigma>0 (Params params) \<sigma> \<and> params_for (fn_type f) params \<and> results_for (fn_type f) rl) (grows \<sigma>0)" for ro
    by (rule triple_liftS) (simp_all add: placed_def newResultList_for)
  show ?case
  proof (rule triple_bindS [OF lift], rule tripleI, goal_cases)
    case (1 results \<sigma>)
    then have grows: "grows \<sigma>0 \<sigma>" and ps: "groups_at (gnodes \<sigma>) (orderMaps \<sigma>) (Params params)"
      and typed: "params_for (fn_type f) params" "results_for (fn_type f) results" by (simp_all add: placed_def)
    note one' = growsD(2) [OF grows] and new = newGraphNode_one [OF growsD(4) [OF grows] growsD(2) [OF grows]]
    from grows_ctor [OF grows one] ps typed show ?case
      by (simp add: fresh_ctor_def typed_ctor_def new Let_def pushNodes_one [OF one'] ctor_at_def al_get_def)
  qed
qed

subsection \<open>Provide\<close>

lemma indexed_cong:
  assumes "indexed_graph \<sigma>" and "well_indexed \<sigma>'" and "length (scopes \<sigma>') = 1" and "gnodes \<sigma>' = gnodes \<sigma>"
    and "orderMaps \<sigma>' = orderMaps \<sigma>" and "ctors \<sigma>' = ctors \<sigma>"
    and "\<And>k n. n \<in> set (getProviders \<sigma>' 0 k) \<Longrightarrow> n \<in> set (getProviders \<sigma> 0 k) \<or> ctor_at (gnodes \<sigma>) (ctors \<sigma>) n"
  shows "indexed_graph \<sigma>'"
  using assms by (auto simp: indexed_graph_def)

lemma indexed_upd_scope:
  assumes ok: "indexed_graph \<sigma>"
    and f: "\<And>sc. parentScope (f sc) = parentScope sc" "\<And>sc. childScopes (f sc) = childScopes sc"
      "\<And>sc. providers (f sc) = providers sc" "\<And>sc. gh_nodes (gh (f sc)) = gh_nodes (gh sc)"
    and valid: "\<And>sc. valid_scope (length (ctors \<sigma>)) (length (dcors \<sigma>)) sc \<Longrightarrow>
      valid_scope (length (ctors \<sigma>)) (length (dcors \<sigma>)) (f sc)"
  shows "indexed_graph (upd_scope 0 f \<sigma>)"
proof (rule indexed_cong [OF ok])
  show "well_indexed (upd_scope 0 f \<sigma>)" by (rule well_indexed_upd_scope [OF indexed_graphD(3) [OF ok] f(1,2) valid])
  show "gnodes (upd_scope 0 f \<sigma>) = gnodes \<sigma>" using f(4) by (simp add: scope_of_upd_scope)
qed (use indexed_graphD(2) [OF ok] getProviders_upd_scope [of f] f(3) in simp_all)

lemma indexed_setVerified: "indexed_graph \<sigma> \<Longrightarrow> indexed_graph (setVerified 0 b \<sigma>)"
  unfolding setVerified_def by (rule indexed_upd_scope) (simp_all add: valid_scope_set)

lemma addProvider_frame:
  "gnodes (addProvider 0 n k \<sigma>) = gnodes \<sigma>" "orderMaps (addProvider 0 n k \<sigma>) = orderMaps \<sigma>"
  "ctors (addProvider 0 n k \<sigma>) = ctors \<sigma>"
  by (simp_all add: addProvider_def setProviders_def scope_of_upd_scope)

lemma indexed_addProvider:
  assumes ok: "indexed_graph \<sigma>" and n: "ctor_at (gnodes \<sigma>) (ctors \<sigma>) n"
  shows "indexed_graph (addProvider 0 n k \<sigma>)"
proof (rule indexed_cong [OF ok])
  note wf = indexed_graphD(3) [OF ok] and one = indexed_graphD(2) [OF ok]
  have "\<forall>m \<in> set (getProviders \<sigma> 0 k @ [n]). m < length (ctors \<sigma>)"
    using getProviders_less [OF wf, of 0] one n by (auto simp: ctor_at_def)
  then show "well_indexed (addProvider 0 n k \<sigma>)"
    unfolding addProvider_def setProviders_def
    by (intro well_indexed_upd_scope [OF wf]) (simp_all add: valid_scope_set)
  show "m \<in> set (getProviders (addProvider 0 n k \<sigma>) 0 k') \<Longrightarrow> m \<in> set (getProviders \<sigma> 0 k') \<or> ctor_at (gnodes \<sigma>) (ctors \<sigma>) m" for m k'
    using one n by (auto simp: addProvider_def getProviders_setProviders split: if_splits)
qed (use indexed_graphD(2) [OF ok] in \<open>simp_all add: addProvider_frame\<close>, simp add: addProvider_def)

lemma indexed_addProviders:
  assumes "indexed_graph \<sigma>" and "ctor_at (gnodes \<sigma>) (ctors \<sigma>) n"
  shows "indexed_graph (fold (addProvider 0 n) keys \<sigma>) \<and> gnodes (fold (addProvider 0 n) keys \<sigma>) = gnodes \<sigma> \<and>
    orderMaps (fold (addProvider 0 n) keys \<sigma>) = orderMaps \<sigma> \<and> ctors (fold (addProvider 0 n) keys \<sigma>) = ctors \<sigma>"
proof -
  let ?I = "\<lambda>\<sigma>'. indexed_graph \<sigma>' \<and> gnodes \<sigma>' = gnodes \<sigma> \<and> orderMaps \<sigma>' = orderMaps \<sigma> \<and> ctors \<sigma>' = ctors \<sigma>"
  have "?I (fold (addProvider 0 n) keys \<sigma>)"
    by (rule fold_invariant [where P = ?I])
      (use assms in \<open>auto simp: addProvider_frame intro!: indexed_addProvider\<close>)
  then show ?thesis by simp
qed

lemma call_graph_setVerified: "indexed_graph \<sigma> \<Longrightarrow> call_graph (setVerified 0 b \<sigma>) = call_graph \<sigma>"
  using indexed_graphD(2,3) [of \<sigma>]
  by (intro same_links_graph)
    (simp_all add: same_links_def setVerified_def scope_of_upd_scope skel_upd_scope)

lemma one_scope_flag:
  assumes ok: "indexed_graph \<sigma>" and "b \<longrightarrow> acyclic (edges (scope_graph \<sigma> 0))"
  shows "one_scope (setVerified 0 b \<sigma>)"
proof -
  have "isVerifiedAcyclic (scope_of (setVerified 0 b \<sigma>) 0) = b"
    using indexed_graphD(2) [OF ok] by (simp add: setVerified_def scope_of_upd_scope)
  with assms(2) indexed_setVerified [OF ok] acyclic_calls [OF ok] call_graph_setVerified [OF ok] show ?thesis
    by (simp add: one_scope_def)
qed

lemma verifyScope_one:
  assumes ok: "indexed_graph \<sigma>"
  shows "post (\<lambda>_. one_scope) (\<lambda>\<sigma>'. \<sigma>' = fold (\<lambda>(k, ops). setProviders 0 k ops) old (setVerified 0 False \<sigma>))
    (verifyScope old 0 \<sigma>)"
  using IsAcyclic_cases [OF graph_in_range [OF indexed_setVerified [OF ok]], of False]
    one_scope_flag [OF ok, of False] one_scope_flag [OF indexed_setVerified [OF ok], of True False]
  by (auto simp: verifyScope_def Let_def)

lemma setProviders_frame:
  "gnodes (setProviders 0 k ns \<sigma>) = gnodes \<sigma>" "ctors (setProviders 0 k ns \<sigma>) = ctors \<sigma>" "orderMaps (setProviders 0 k ns \<sigma>) = orderMaps \<sigma>"
  "isVerifiedAcyclic (scope_of (setProviders 0 k ns \<sigma>) 0) = isVerifiedAcyclic (scope_of \<sigma> 0)"
  by (simp_all add: setProviders_def scope_of_upd_scope)

lemma setProviders_fold_frame:
  fixes \<sigma> :: store and old :: "(key \<times> nat list) list"
  defines "\<sigma>' \<equiv> fold (\<lambda>(k, ops). setProviders 0 k ops) old \<sigma>"
  shows "gnodes \<sigma>' = gnodes \<sigma> \<and> orderMaps \<sigma>' = orderMaps \<sigma> \<and> ctors \<sigma>' = ctors \<sigma> \<and>
    isVerifiedAcyclic (scope_of \<sigma>' 0) = isVerifiedAcyclic (scope_of \<sigma> 0)"
  unfolding \<sigma>'_def
  by (rule fold_invariant) (simp_all add: split_beta setProviders_frame)

lemma grows_mono:
  assumes grows: "grows \<sigma>0 \<sigma>" and "registering \<sigma>0 \<sigma>'" and "ctors \<sigma>' = ctors \<sigma>" and "length (scopes \<sigma>') = 1"
    and "gnodes \<sigma>' = gnodes \<sigma>" and "orderMaps \<sigma>' = orderMaps \<sigma>"
    and "\<And>k. getProviders \<sigma>' 0 k = getProviders \<sigma> 0 k" and "isVerifiedAcyclic (scope_of \<sigma>' 0) \<longrightarrow> isVerifiedAcyclic (scope_of \<sigma> 0)"
  shows "grows \<sigma>0 \<sigma>'"
  using assms by (auto simp: grows_def)

lemma one_scope_cong:
  assumes one: "one_scope \<sigma>" and wf: "well_indexed \<sigma>'" and "length (scopes \<sigma>') = 1" "gnodes \<sigma>' = gnodes \<sigma>"
    "orderMaps \<sigma>' = orderMaps \<sigma>" and same: "same_links \<sigma> \<sigma>'"
    and "isVerifiedAcyclic (scope_of \<sigma>' 0) \<longrightarrow> isVerifiedAcyclic (scope_of \<sigma> 0)"
  shows "one_scope \<sigma>'"
proof -
  have ok: "indexed_graph \<sigma>" using one by (simp add: one_scope_def)
  have "indexed_graph \<sigma>'"
    using assms(2-5) same indexed_graphD(2) [OF ok]
    by (intro indexed_cong [OF ok]) (auto simp: same_links_def getProviders_def)
  with assms same_links_graph [OF same indexed_graphD(3) [OF ok]] show ?thesis by (simp add: one_scope_def)
qed

lemma registerCtor_one:
  assumes ok: "indexed_graph \<sigma>0" and grows: "grows \<sigma>0 \<sigma>" and n: "ctor_at (gnodes \<sigma>) (ctors \<sigma>) n"
  shows "post (\<lambda>_. one_scope) (grows \<sigma>0) (registerCtor 0 [0] info n keys \<sigma>)"
proof -
  let ?old = "map (\<lambda>k. (k, getProviders \<sigma> 0 k)) keys" and ?\<sigma>1 = "fold (addProvider 0 n) keys \<sigma>"
  define \<sigma>2 where "\<sigma>2 = fold (\<lambda>(k, ops). setProviders 0 k ops) ?old (setVerified 0 False ?\<sigma>1)"
  note one = growsD(2) [OF grows] and ok1 = indexed_addProviders [OF indexed_grows [OF ok grows] n, of keys]
  note one1 = indexed_graphD(2) [OF conjunct1 [OF ok1]]
  define v where "v = forS (verifyScope ?old) [0] ?\<sigma>1"
  have verify: "post (\<lambda>_. one_scope) (\<lambda>\<sigma>'. \<sigma>' = \<sigma>2) v"
    using verifyScope_one [of ?\<sigma>1 ?old] ok1 
    by (auto simp: bindS_def v_def \<sigma>2_def split: prod.splits res.splits)
  have reg: "post (\<lambda>_. registering \<sigma>0) (registering \<sigma>0) (registerCtor 0 [0] info n keys \<sigma>)"
    by (rule tripleD [OF triple_registerCtor]) (use n growsD(1) [OF grows] indexed_graphD(2) [OF ok] in \<open>simp_all add: ctor_at_def\<close>)
  have bad: "grows \<sigma>0 \<sigma>2" if "registering \<sigma>0 \<sigma>2"
  proof (rule grows_mono [OF grows that])
    show "getProviders \<sigma>2 0 k = getProviders \<sigma> 0 k" for k
      using one one1 addProviders_other [of 0 \<sigma> 0 k keys n]
      by (simp add: \<sigma>2_def getProviders_restore)
    show "length (scopes \<sigma>2) = 1" using registering_length [OF that] indexed_graphD(2) [OF ok] by simp
  qed (use ok1 one1 setProviders_fold_frame [of ?old "setVerified 0 False ?\<sigma>1"] in
      \<open>simp_all add: \<sigma>2_def setVerified_def scope_of_upd_scope\<close>)
  have good: "one_scope (upd_scope 0 (\<lambda>x. x\<lparr>nodes := nodes x @ [n]\<rparr>) \<sigma>')"
    if "one_scope \<sigma>'" and "registering \<sigma>0 (upd_scope 0 (\<lambda>x. x\<lparr>nodes := nodes x @ [n]\<rparr>) \<sigma>')" for \<sigma>'
  proof -
    have "length (scopes \<sigma>') = 1" using that(1) indexed_graphD(2) by (simp add: one_scope_def)
    then show ?thesis
      by (intro one_scope_cong [OF that(1) registering_wf [OF that(2)]])
        (simp_all add: same_links_def skel_upd_scope scope_of_upd_scope)
  qed
  have eq: "registerCtor 0 [0] info n keys \<sigma> = (case v of
      (Ret _, \<sigma>') \<Rightarrow> (Ret (if info then Some (provideInfo \<sigma>' n) else None), upd_scope 0 (\<lambda>x. x\<lparr>nodes := nodes x @ [n]\<rparr>) \<sigma>')
    | (Throw e, \<sigma>') \<Rightarrow> (Throw e, \<sigma>') | (Panicked p, \<sigma>') \<Rightarrow> (Panicked p, \<sigma>') | (Diverged, \<sigma>') \<Rightarrow> (Diverged, \<sigma>'))"
    by (simp only: registerCtor_def Let_def bindS_def v_def)
  show ?thesis
  proof (cases v)
    case (Pair r \<sigma>')
    have "post (\<lambda>_. one_scope) (\<lambda>\<sigma>'. registering \<sigma>0 \<sigma>' \<longrightarrow> grows \<sigma>0 \<sigma>') v"
      using bad
      by (intro post_mono [OF verify]) blast+
    then show ?thesis
      using good [of \<sigma>'] reg
      by (cases r) (simp_all add: eq Pair)
  qed
qed

lemma one_scopeD: "one_scope \<sigma> \<Longrightarrow> indexed_graph \<sigma>"
  by (simp add: one_scope_def)

lemma provideBody_one:
  assumes ok: "indexed_graph \<sigma>0"
  shows "triple (grows \<sigma>0) (provideBody f opts 0 0 [0]) (\<lambda>_. one_scope) (grows \<sigma>0)"
  unfolding provideBody_def
proof (rule triple_bindS [OF triple_newConstructorNode_one [OF indexed_graphD(2) [OF ok]]], goal_cases)
  case (1 n)
  show ?case
  proof (rule triple_bindS [where Q = "\<lambda>_ \<sigma>. grows \<sigma>0 \<sigma> \<and> ctor_at (gnodes \<sigma>) (ctors \<sigma>) n"], goal_cases)
    case 1
    show ?case
      by (rule triple_read) simp_all
  next
    case (2 keys)
    show ?case
      by (auto intro!: tripleI registerCtor_one [OF ok] simp: throwS_def)
  qed
qed

lemma snapshot_one:
  assumes "indexed_graph \<sigma>"
  shows "indexed_graph (snapshotAll [0] \<sigma>)" and "gnodes (snapshotAll [0] \<sigma>) = gnodes \<sigma>"
    and "gh_snap (gh (scope_of (snapshotAll [0] \<sigma>) 0)) = int (length (gnodes \<sigma>))"
  using indexed_upd_scope [OF assms, of "\<lambda>x. x\<lparr>gh := Snapshot (gh x)\<rparr>"] indexed_graphD(2) [OF assms]
  by (simp_all add: snapshotAll_def Snapshot_def scope_of_upd_scope valid_scope_def)

lemma grows_rollback:
  assumes grows: "grows \<sigma>0 \<sigma>1" and snap: "gh_snap (gh (scope_of \<sigma>1 0)) = int (length (gnodes \<sigma>0))"
  shows "grows \<sigma>0 (rollbackAll [0] \<sigma>1)"
proof -
  have "registering \<sigma>0 (rollbackAll [0] \<sigma>1)"
    using growsD(1) [OF grows] by (simp add: rollbackAll_def registering_gh)
  moreover have "gnodes (rollbackAll [0] \<sigma>1) = gnodes \<sigma>0"
    using grows snap by (auto simp: grows_def scope_of_rollbackAll Rollback_def)
  ultimately show ?thesis using grows by (simp add: grows_def scope_of_rollbackAll)
qed

lemma provide_one:
  assumes one: "one_scope \<sigma>"
  shows "one_scope (snd (provide f opts 0 \<sigma>))"
proof -
  let ?\<sigma>0 = "snapshotAll [0] \<sigma>"
  note ok = one_scopeD [OF one]
  note tree = one_tree [OF indexed_graphD(1,2) [OF ok]] and ok0 = snapshot_one [OF ok]
  have s: "(if poExported opts then rootScope \<sigma> 0 else 0) = 0" using tree by simp
  have one0: "one_scope ?\<sigma>0"
    using indexed_graphD(2,3) [OF ok] indexed_graphD(3) [OF ok0(1)] ok0(2)
    by (intro one_scope_cong [OF one]) (simp_all add: same_links_def scope_of_snapshotAll skel_snapshotAll)
  have body: "post (\<lambda>_. one_scope) (grows ?\<sigma>0) (provideBody f opts 0 0 [0] ?\<sigma>0)"
    by (rule tripleD [OF provideBody_one [OF ok0(1)]]) (use ok0(1) indexed_graphD in \<open>blast intro: grows_refl\<close>)
  show ?thesis
  proof (cases "\<exists>e \<sigma>'. provide f opts 0 \<sigma> = (Throw e, \<sigma>')")
    case False
    then have "snd (provide f opts 0 \<sigma>) = snd (provideBody f opts 0 0 [0] ?\<sigma>0)" and "\<forall>e. fst (provideBody f opts 0 0 [0] ?\<sigma>0) \<noteq> Throw e"
      by (auto simp: provide_def s tree Let_def split: prod.splits res.splits)
    with body one_scope_grows [OF one0] show ?thesis
      by (cases "provideBody f opts 0 0 [0] ?\<sigma>0"; cases "fst (provideBody f opts 0 0 [0] ?\<sigma>0)") auto
  next
    case True
    then obtain e \<sigma>' where throw: "provide f opts 0 \<sigma> = (Throw e, \<sigma>')" by blast
    have c: "provideScope \<sigma> opts 0 = 0" using s by (simp add: provideScope_def)
    from provide_Throw [OF indexed_graphD(1) [OF ok] _ throw] indexed_graphD(2) [OF ok]
    obtain \<sigma>1 where 1: "provideBody f opts 0 0 [0] ?\<sigma>0 = (Throw e, \<sigma>1)" "\<sigma>' = rollbackAll [0] \<sigma>1"
      and provides: "provides 0 ?\<sigma>0 \<sigma>1" by (auto simp: c tree)
    from provides have "gh_snap (gh (scope_of \<sigma>1 0)) = int (length (gnodes ?\<sigma>0))"
      using ok0 indexed_graphD(1,2) [OF ok0(1)] by (auto simp: provides_def gh_grows_def)
    with body 1 grows_rollback [of ?\<sigma>0 \<sigma>1] one_scope_grows [OF one0] show ?thesis by (simp add: throw)
  qed
qed

lemma Provide_one: "one_scope \<sigma> \<Longrightarrow> one_scope (snd (Provide 0 f opts \<sigma>))"
  using provide_one [of \<sigma>] by (cases f) (simp_all add: Provide_def Let_def split: option.split)

subsection \<open>Decorate\<close>

lemma triple_newDecoratorNode_one:
  assumes one: "length (scopes \<sigma>0) = 1"
  shows "triple (grows \<sigma>0) (newDecoratorNode f 0 cb bcb) (\<lambda>d \<sigma>. grows \<sigma>0 \<sigma> \<and> d < length (dcors \<sigma>)) (grows \<sigma>0)"
  unfolding newDecoratorNode_def
proof (rule triple_bindS [OF triple_newParamList_for [OF triple_newParamList_one [OF one]]], goal_cases)
  case (1 params)
  show ?case
  proof (rule triple_bindS [OF triple_liftS [where Q = "\<lambda>rl \<sigma>. grows \<sigma>0 \<sigma> \<and> params_for (fn_type f) params \<and>
      results_for (fn_type f) rl"]], goal_cases)
    case (3 results)
    show ?case
    proof (rule tripleI, elim conjE)
      fix \<sigma> assume grows: "grows \<sigma>0 \<sigma>" and typed: "params_for (fn_type f) params" "results_for (fn_type f) results"
      have "grows \<sigma>0 (\<sigma>\<lparr>dcors := dcors \<sigma> @ [node]\<rparr>)" if "dn_s node = 0" "typed_dcor node" for node
        using growsD [OF grows] registering_dcor that by (intro grows_mono [OF grows]) (simp_all add: getProviders_def)
      with typed show "post (\<lambda>d \<sigma>. grows \<sigma>0 \<sigma> \<and> d < length (dcors \<sigma>)) (grows \<sigma>0)
          (let node = \<lparr>dn_dcor = f, dn_dtype = fn_type f, dn_id = fn_ptr f,
              dn_location = InspectFunc f, dn_state = decoratorReady, dn_params = params,
              dn_results = results, dn_s = 0, dn_callback = cb, dn_beforeCallback = bcb\<rparr>
           in (Ret (length (dcors \<sigma>)), \<sigma>\<lparr>dcors := dcors \<sigma> @ [node]\<rparr>))"
        by (simp add: Let_def typed_dcor_def)
    qed
  qed (auto simp: placed_def dest: newResultList_for)
qed

lemma triple_decorateKey_one:
  "triple (\<lambda>\<sigma>. grows \<sigma>0 \<sigma> \<and> d < length (dcors \<sigma>)) (decorateKey 0 d k)
    (\<lambda>_ \<sigma>. grows \<sigma>0 \<sigma> \<and> d < length (dcors \<sigma>)) (grows \<sigma>0)"
proof (rule tripleI, elim conjE)
  fix \<sigma> assume grows: "grows \<sigma>0 \<sigma>" and d: "d < length (dcors \<sigma>)"
  have "grows \<sigma>0 (upd_scope 0 (\<lambda>x. x\<lparr>decorators := h x\<rparr>) \<sigma>)"
    if "registering \<sigma>0 (upd_scope 0 (\<lambda>x. x\<lparr>decorators := h x\<rparr>) \<sigma>)" for h
    using growsD [OF grows] by (intro grows_mono [OF grows that]) (simp_all add: getProviders_upd_scope scope_of_upd_scope)
  with tripleD [OF triple_decorateKey, of \<sigma>0 \<sigma> d 0 k] grows d
  show "post (\<lambda>_ \<sigma>. grows \<sigma>0 \<sigma> \<and> d < length (dcors \<sigma>)) (grows \<sigma>0) (decorateKey 0 d k \<sigma>)"
    by (auto simp: decorateKey_def setDecorator_def growsD(1))
qed

lemma triple_Decorate_one:
  assumes one: "length (scopes \<sigma>0) = 1"
  shows "triple (grows \<sigma>0) (Decorate 0 f opts) (\<lambda>_. grows \<sigma>0) (grows \<sigma>0)"
proof (cases f)
  case (IFunc fn)
  let ?P = "\<lambda>d \<sigma>. grows \<sigma>0 \<sigma> \<and> d < length (dcors \<sigma>)"
  have rest: "triple (?P d) (bindS (\<lambda>\<sigma>. (findResultKeys (dn_results (dcor_of \<sigma> d)), \<sigma>)) (\<lambda>keys.
      bindS (forS (decorateKey 0 d) keys) (\<lambda>_ \<sigma>. (Ret (h \<sigma> d), \<sigma>)))) (\<lambda>_. grows \<sigma>0) (grows \<sigma>0)"
    for d and h :: "store \<Rightarrow> nat \<Rightarrow> ProvideInfo option"
    by (rule triple_bindS [OF triple_read [where Q = "\<lambda>_. ?P d"]],
        simp_all, rule triple_bindS [OF triple_forS [OF triple_decorateKey_one]], simp add: triple_def)
  show ?thesis
    unfolding Decorate_def IFunc iface.case Let_def
    by (rule triple_bindS [OF triple_newDecoratorNode_one [OF one]], rule rest)
qed (simp_all add: Decorate_def triple_def)

lemma Decorate_one: "one_scope \<sigma> \<Longrightarrow> one_scope (snd (Decorate 0 f opts \<sigma>))"
  using triple_snd [OF triple_Decorate_one grows_refl] indexed_graphD(2,3) one_scopeD one_scope_grows by metis

subsection \<open>Invoke\<close>

lemma one_scope_static:
  assumes eq: "static \<sigma>' = static \<sigma>" and one: "one_scope \<sigma>"
  shows "one_scope \<sigma>'"
proof -
  note ok = one_scopeD [OF one] and len = static_lengths [OF eq]
  note wf = indexed_graphD(3) [OF ok] and tree = indexed_graphD(1) [OF ok]
  have sc: "static_scope (scope_of \<sigma>' 0) = static_scope (scope_of \<sigma> 0)"
    using static_nth(1) [OF eq] indexed_graphD(2) [OF ok] by simp
  have gn: "gnodes \<sigma>' = gnodes \<sigma>" and flag: "isVerifiedAcyclic (scope_of \<sigma>' 0) = isVerifiedAcyclic (scope_of \<sigma> 0)"
    using arg_cong [OF sc, of gh] arg_cong [OF sc, of isVerifiedAcyclic] by (simp_all add: static_scope_def)
  have oms: "orderMaps \<sigma>' = orderMaps \<sigma>" using arg_cong [OF eq, of orderMaps] by (simp add: static_def)
  have ctor: "cn_orders (ctor_of \<sigma>' n) = cn_orders (ctor_of \<sigma> n)" "cn_paramList (ctor_of \<sigma>' n) = cn_paramList (ctor_of \<sigma> n)"
      "cn_origS (ctor_of \<sigma>' n) = cn_origS (ctor_of \<sigma> n)" if "n < length (ctors \<sigma>)" for n
    using arg_cong [OF static_nth(2) [OF eq that], of cn_orders] static_ctor_eq(1,3) [OF static_nth(2) [OF eq that]]
    by (simp_all add: static_ctor_def)
  have "ctor_at (gnodes \<sigma>) (ctors \<sigma>) n \<longleftrightarrow> ctor_at (gnodes \<sigma>) (ctors \<sigma>') n" for n
    using ctor(1) [of n] by (auto simp: ctor_at_def len)
  moreover have "nodes_known (gnodes \<sigma>) (orderMaps \<sigma>) (ctors \<sigma>')"
    using ok ctor(2) by (simp add: indexed_graph_def nodes_known_def len)
  ultimately have "indexed_graph \<sigma>'"
    using ok well_indexed_static [OF eq wf] static_reads(1) [OF eq] by (simp add: indexed_graph_def gn oms len)
  moreover have "call_graph \<sigma>' = call_graph \<sigma>"
    using ctor(2,3) well_indexed_ctor(2) [OF wf] static_callees [OF eq tree]
    by (auto simp: call_graph_def len)
  ultimately show ?thesis using one by (simp add: one_scope_def flag)
qed

lemma static_invokeRun: "static (snd (invokeRun E s f args \<sigma>)) = static \<sigma>"
proof -
  have "keeps same_static (recoverS b fn (bindS (invoke_fn E ivk ByInvoke f args)
      (\<lambda>returned. case lastError ts returned of Some e \<Rightarrow> throwS e | None \<Rightarrow> retS ())))" for b fn ivk ts
    by (intro static_cb.keeps_recoverS static_cb.keeps_bindS)
      (auto simp: keeps_def same_static_def split: option.split)
  then show ?thesis unfolding keeps_def invokeRun_def same_static_def by simp
qed

lemma verifyAcyclic_one:
  assumes one: "one_scope \<sigma>"
  shows "post (\<lambda>_ \<sigma>'. one_scope \<sigma>' \<and> acyclic (call_graph \<sigma>')) one_scope (verifyAcyclic 0 \<sigma>)"
proof -
  note ok = one_scopeD [OF one]
  have "one_scope (setVerified 0 True \<sigma>) \<and> acyclic (call_graph (setVerified 0 True \<sigma>))" if "acyclic (edges (scope_graph \<sigma> 0))"
    using one_scope_flag [OF ok, of True] call_graph_setVerified [OF ok] acyclic_calls [OF ok] that by simp
  with one IsAcyclic_cases [OF graph_in_range [OF ok]] show ?thesis
    by (auto simp: verifyAcyclic_def one_scope_def setVerified_def)
qed

lemma triple_newParamList_keeps_one: "triple one_scope (newParamList ctype 0) (\<lambda>_. one_scope) one_scope"
proof (rule tripleI)
  fix \<sigma> assume one: "one_scope \<sigma>"
  note ok = one_scopeD [OF one]
  show "post (\<lambda>_. one_scope) one_scope (newParamList ctype 0 \<sigma>)"
    by (rule post_mono [OF tripleD [OF triple_newParamList_one [OF indexed_graphD(2) [OF ok]] grows_refl [OF indexed_graphD(3,2) [OF ok]]]])
      (auto simp: placed_def intro: one_scope_grows [OF one])
qed

lemma triple_static_one: "(\<And>\<sigma>. static (snd (m \<sigma>)) = static \<sigma>) \<Longrightarrow> triple one_scope m (\<lambda>_. one_scope) one_scope"
  by (rule tripleI) (simp add: post_snd one_scope_static)

lemma static_BuildList_calls: "static (snd (BuildList E (callC E k) (callD E k) pl s \<sigma>)) = static \<sigma>"
  using static_calls.keeps_BuildList_calls by (simp add: keeps_def same_static_def)

lemma triple_invokeFn_one: "triple one_scope (invokeFn E fuel 0 f) (\<lambda>_. one_scope) one_scope"
  unfolding invokeFn_def
proof (rule triple_bindS [OF triple_newParamList_keeps_one], goal_cases)
  case (1 pl)
  have "triple one_scope (bindS (verifyAcyclic 0) (\<lambda>_. bindS (wrapS w (BuildList E (callC E fuel) (callD E fuel) pl 0))
      (invokeRun E 0 f))) (\<lambda>_. one_scope) one_scope" for w
  proof (rule triple_bindS)
    show "triple one_scope (verifyAcyclic 0) (\<lambda>_. one_scope) one_scope"
      by (rule tripleI) (rule post_mono [OF verifyAcyclic_one]; simp)
    show "triple one_scope (bindS (wrapS w (BuildList E (callC E fuel) (callD E fuel) pl 0)) (invokeRun E 0 f)) (\<lambda>_. one_scope) one_scope"
      by (rule triple_bindS [OF triple_wrapS [OF triple_static_one]]; (rule triple_static_one)?)
        (rule static_BuildList_calls static_invokeRun)+
  qed
  then show ?case by (auto simp: triple_def split: option.split)
qed

lemma Invoke_one: "one_scope \<sigma> \<Longrightarrow> one_scope (snd (Invoke E fuel 0 f \<sigma>))"
  using triple_snd [OF triple_invokeFn_one] by (cases f) (simp_all add: Invoke_def)

text \<open>Given fuel for every call \<open>Invoke\<close> does not diverge: either the check of the graph fails, or the calls have no cycle.\<close>

lemma invokeFn_one_ends:
  assumes one: "one_scope \<sigma>" and fuel: "(ready \<sigma> + 1) * (length (ctors \<sigma>) + 1) \<le> fuel"
  shows "fst (invokeFn E fuel 0 f \<sigma>) \<noteq> Diverged"
  unfolding invokeFn_def
proof (rule bindS_ends)
  show "fst (newParamList (fn_type f) 0 \<sigma>) \<noteq> Diverged" using ends_newParamList by (simp add: ends_iff)
  fix pl \<sigma>1 assume pl: "newParamList (fn_type f) 0 \<sigma> = (Ret pl, \<sigma>1)"
  have one1: "one_scope \<sigma>1" using triple_Ret [OF triple_newParamList_keeps_one one pl] .
  have links1: "same_links \<sigma> \<sigma>1"
    using same_links_newParamList [of \<sigma> 0 "fn_type f"] indexed_graphD(2,3) [OF one_scopeD [OF one]] pl by simp
  have "fst (bindS (verifyAcyclic 0) (\<lambda>_. bindS (wrapS w (BuildList E (callC E fuel) (callD E fuel) pl 0))
      (invokeRun E 0 f)) \<sigma>1) \<noteq> Diverged" for w
  proof (rule bindS_ends)
    show "fst (verifyAcyclic 0 \<sigma>1) \<noteq> Diverged"
      by (auto simp: verifyAcyclic_def split: option.split prod.split bool.split)
    fix u \<sigma>2 assume ver: "verifyAcyclic 0 \<sigma>1 = (Ret u, \<sigma>2)"
    with verifyAcyclic_one [OF one1] have \<sigma>2: "one_scope \<sigma>2" "acyclic (call_graph \<sigma>2)" by simp_all
    note ok2 = indexed_graphD(2,3) [OF one_scopeD [OF \<sigma>2(1)]]
    have "same_links \<sigma>1 \<sigma>2" using same_links_verifyAcyclic [of \<sigma>1 0] ver by simp
    with links1 fuel have "(ready \<sigma>2 + 1) * (length (ctors \<sigma>2) + 1) \<le> fuel" by (simp add: same_links_def ready_def)
    with ok2 have "fst (BuildList E (callC E fuel) (callD E fuel) pl 0 \<sigma>2) \<noteq> Diverged"
      by (intro BuildList_ends \<sigma>2(2)) simp_all
    then show "fst (bindS (wrapS w (BuildList E (callC E fuel) (callD E fuel) pl 0)) (invokeRun E 0 f) \<sigma>2) \<noteq> Diverged"
      using ends_invokeRun by (intro bindS_ends) (simp_all add: wrapS_ends ends_iff)
  qed
  then show "fst (case shallowCheckDependencies \<sigma>1 0 pl of
        Some err \<Rightarrow> (Throw (EMissingDependencies (InspectFunc f) err), \<sigma>1)
      | None \<Rightarrow> bindS (verifyAcyclic 0) (\<lambda>_. bindS (wrapS (EArgumentsFailed (InspectFunc f))
          (BuildList E (callC E fuel) (callD E fuel) pl 0)) (invokeRun E 0 f)) \<sigma>1) \<noteq> Diverged"
    by (simp split: option.split)
qed

subsection \<open>Every reachable container with one scope\<close>

lemma one_scope_New: "one_scope (New opts)"
proof -
  have "gnodes (New opts) = [] \<and> providers (scope_of (New opts) 0) = [] \<and> \<not> isVerifiedAcyclic (scope_of (New opts) 0) \<and>
      length (scopes (New opts)) = 1"
    unfolding New_def
  proof (rule fold_invariant, goal_cases)
    case (2 opt \<sigma>)
    from 2(2) show ?case by (cases opt rule: Option.exhaust) (simp_all add: scope_of_upd_scope)
  qed (simp add: empty_store_def newScope_def newGraphHolder_def)
  then show ?thesis
    using well_indexed_New [of opts] by (simp add: one_scope_def indexed_graph_def nodes_known_def getProviders_def)
qed

lemma one_scope_step:
  assumes "api_step E \<sigma> \<sigma>'" and one: "one_scope \<sigma>" and one': "length (scopes \<sigma>') = 1"
  shows "one_scope \<sigma>'"
proof -
  note ok = indexed_graphD(2,3) [OF one_scopeD [OF one]]
  from assms(1) show ?thesis
  proof cases
    case (step_Provide s f opts r)
    then show ?thesis using Provide_one [OF one, of f opts] ok by simp
  next
    case (step_Decorate s f dopts r)
    then show ?thesis using Decorate_one [OF one, of f dopts] ok by simp
  next
    case (step_Invoke s fuel f r)
    then show ?thesis using Invoke_one [OF one, of E fuel f] ok by simp
  next
    case (step_Scope s name c)
    then show ?thesis using ScopeScope_frame(1) [of s name \<sigma>] ok one' by simp
  qed
qed

lemma reachable_one_scope:
  assumes "reachable E \<sigma>" and "length (scopes \<sigma>) = 1"
  shows "one_scope \<sigma>"
proof -
  from assms(1) obtain opts where "api_run E (New opts) \<sigma>" by (auto simp: reachable_def)
  then show ?thesis using assms(2)
  proof (induction rule: rtranclp_induct)
    case base
    show ?case by (rule one_scope_New)
  next
    case (step \<sigma>1 \<sigma>2)
    have wf: "well_indexed \<sigma>1" by (rule well_indexed_run [OF step.hyps(1) well_indexed_New])
    have "length (scopes \<sigma>1) \<le> 1" using indexed.R_step [OF step.hyps(2) wf] wf step.prems by (simp add: keeps_indexed_def)
    moreover have "length (scopes \<sigma>1) \<ge> 1" using well_indexed_tree [OF wf] by (cases "scopes \<sigma>1") (simp_all add: wf_tree_def)
    ultimately show ?case using one_scope_step [OF step.hyps(2) step.IH step.prems] by simp
  qed
qed

subsection \<open>Properties\<close>

text \<open>
  C9: in a container without child scopes \<open>Invoke\<close> always ends, whatever was provided and decorated and
  whether or not the cycle check was deferred: it returns, returns an error or panics. The fuel that is
  enough for the recursion of calls is (ready decorators + 1) * (constructors + 1).
\<close>

theorem Invoke_returns:
  assumes "reachable E \<sigma>" and "length (scopes \<sigma>) = 1"
    and "(ready \<sigma> + 1) * (length (ctors \<sigma>) + 1) \<le> fuel"
  shows "fst (Invoke E fuel 0 f \<sigma>) \<noteq> Diverged"
  using invokeFn_one_ends [OF reachable_one_scope [OF assms(1,2)] assms(3)]
  by (cases f) (simp_all add: Invoke_def)

text \<open>Two constructors that need each other, provided to a container that defers the cycle check.\<close>

definition loop1 :: store where
  "loop1 = snd (Provide 0 (IFunc (fnOf 1 [stringT] [intT])) [] (New [deferAcyclicVerificationOption]))"

definition loop2 :: store where
  "loop2 = snd (Provide 0 (IFunc (fnOf 2 [intT] [stringT])) [] loop1)"

lemma loop_reachable: "reachable demoE loop2"
proof -
  have "fst (Provide 0 (IFunc (fnOf 1 [stringT] [intT])) [] (New [deferAcyclicVerificationOption])) \<noteq> Diverged"
    "fst (Provide 0 (IFunc (fnOf 2 [intT] [stringT])) [] loop1) \<noteq> Diverged"
    "0 < length (scopes (New [deferAcyclicVerificationOption]))" "0 < length (scopes loop1)" by code_simp+
  then have "api_step demoE (New [deferAcyclicVerificationOption]) loop1" "api_step demoE loop1 loop2"
    unfolding loop1_def loop2_def by (blast intro: step_Provide [OF _ prod.collapse [symmetric]])+
  then show ?thesis unfolding reachable_def by (meson rtranclp.rtrancl_into_rtrancl rtranclp.rtrancl_refl)
qed

theorem Invoke_returns_witness:
  "fst (Invoke demoE 3 0 (IFunc (fnOf 3 [intT] [])) loop2) \<noteq> Diverged"
proof (rule Invoke_returns [OF loop_reachable])
  show "length (scopes loop2) = 1" "(ready loop2 + 1) * (length (ctors loop2) + 1) \<le> 3" by code_simp+
qed

text \<open>
  C15: in a reachable container without child scopes every edge of the dependency graph leads to a node
  of it, so the cycle check indexes no slice out of range: it always has an answer, and the answer is
  whether the graph has a cycle.
\<close>

theorem cycle_check_in_bounds:
  assumes "reachable E \<sigma>" and "length (scopes \<sigma>) = 1"
  shows "(\<forall>u < Order (scope_graph \<sigma> 0). \<forall>v \<in> set (EdgesFrom (scope_graph \<sigma> 0) u). v < Order (scope_graph \<sigma> 0)) \<and>
    (\<exists>c. IsAcyclic (scope_graph \<sigma> 0) = Some (acyclic (edges (scope_graph \<sigma> 0)), c))"
  using graph_in_range [OF one_scopeD [OF reachable_one_scope [OF assms]]] IsAcyclic_cases
  by (fastforce simp: graph_ok_def)

theorem cycle_check_in_bounds_witness:
  "Order (scope_graph loop2 0) = 2 \<and> 1 \<in> set (EdgesFrom (scope_graph loop2 0) 0) \<and>
   (\<exists>c. IsAcyclic (scope_graph loop2 0) = Some (acyclic (edges (scope_graph loop2 0)), c))"
proof -
  have "length (scopes loop2) = 1" "Order (scope_graph loop2 0) = 2" "1 \<in> set (EdgesFrom (scope_graph loop2 0) 0)" by code_simp+
  with cycle_check_in_bounds [OF loop_reachable] show ?thesis by simp
qed

text \<open>
  C4: the check of \<open>Provide\<close> is about the calls that the container will make. When \<open>Provide\<close> succeeds
  on a container without child scopes that does not defer the check, no constructor needs, through any
  number of constructors, one of its own results.
\<close>

theorem Provide_prevents_cycles:
  assumes "reachable E \<sigma>" and "length (scopes \<sigma>) = 1" and "Provide 0 f opts \<sigma> = (Ret i, \<sigma>')"
    and "\<not> deferAcyclicVerification (scope_of \<sigma>' 0)"
  shows "acyclic (call_graph \<sigma>')"
proof -
  have one: "one_scope \<sigma>" by (rule reachable_one_scope [OF assms(1,2)])
  note ok = indexed_graphD(1,2) [OF one_scopeD [OF one]]
  obtain fn opts' where ret: "provide fn opts' 0 \<sigma> = (Ret i, \<sigma>')"
    using assms(3) by (auto simp: Provide_def Let_def wrapS_eq_Ret split: iface.splits if_splits option.splits)
  have "0 \<in> set (appendSubscopes \<sigma> (provideScope \<sigma> opts' 0) [])"
    using one_tree [OF ok] by (simp add: provideScope_def)
  then have "isVerifiedAcyclic (scope_of \<sigma>' 0)"
    using provide_Ret_verified [OF ok(1) _ ret, of 0] ok(2) assms(4) by (simp add: verified_def)
  then show ?thesis using provide_one [OF one, of fn opts'] ret by (simp add: one_scope_def)
qed

theorem Provide_prevents_cycles_witness:
  "\<exists>i \<sigma>'. Provide 0 (IFunc (fnOf 4 [intT] [stringT])) [] demo3 = (Ret i, \<sigma>') \<and> acyclic (call_graph \<sigma>')"
proof -
  let ?p = "Provide 0 (IFunc (fnOf 4 [intT] [stringT])) [] demo3"
  have "fst ?p = Ret None" "length (scopes demo3) = 1" "\<not> deferAcyclicVerification (scope_of (snd ?p) 0)" by code_simp+
  moreover from this have "?p = (Ret None, snd ?p)" by (metis prod.collapse)
  ultimately show ?thesis using Provide_prevents_cycles [OF demo_reachable] by blast
qed

end
