(* ===== verification/Soundness.thy ===== *)
theory Soundness
  imports Once
begin

text \<open>
  Type soundness of the container. Given user functions that return values of their result types,
  everything a container stores fits the type of its key, and every constructor and decorator is called
  with arguments that fit its parameter types, so that \<open>reflect\<close> never refuses a call that the container
  makes (src/param.go, src/result.go, src/constructor.go, src/decorate.go).
\<close>

subsection \<open>Typed stores\<close>

text \<open>
  A decorated group need not fit the type of its key: a decorator that returns a flattened group stores
  the slice under the type of its elements. Such a value cannot be assigned to a field of that type either.
\<close>

definition settled :: "gotype \<Rightarrow> gval \<Rightarrow> bool" where
  "settled t v \<longleftrightarrow> (AssignableTo v t \<longrightarrow> fits t v)"

definition typed_contents :: "scope \<Rightarrow> bool" where
  "typed_contents sc \<longleftrightarrow> (\<forall>(k, v) \<in> set (sc_values sc). fits (key_t k) v) \<and>
     (\<forall>(k, v) \<in> set (decoratedValues sc). fits (key_t k) v) \<and>
     (\<forall>(k, vs) \<in> set (groups sc). \<forall>v \<in> set vs. fits (key_t k) v) \<and>
     (\<forall>(k, v) \<in> set (decoratedGroups sc). settled (key_t k) v)"

fun typed_event :: "store \<Rightarrow> event \<Rightarrow> bool" where
  "typed_event \<sigma> (EvCall (ByCtor n) i args) \<longleftrightarrow> n < length (ctors \<sigma>) \<and> i = fn_id (cn_ctor (ctor_of \<sigma> n)) \<and>
     list_all2 fits (argTypes (fn_type (cn_ctor (ctor_of \<sigma> n)))) args"
| "typed_event \<sigma> (EvCall (ByDecorator d) i args) \<longleftrightarrow> d < length (dcors \<sigma>) \<and> i = fn_id (dn_dcor (dcor_of \<sigma> d)) \<and>
     list_all2 fits (argTypes (fn_type (dn_dcor (dcor_of \<sigma> d)))) args"
| "typed_event \<sigma> _ \<longleftrightarrow> True"

definition typed :: "store \<Rightarrow> bool" where
  "typed \<sigma> \<longleftrightarrow> (\<forall>sc \<in> set (scopes \<sigma>). typed_contents sc) \<and> (\<forall>c \<in> set (ctors \<sigma>). typed_ctor c) \<and>
     (\<forall>d \<in> set (dcors \<sigma>). typed_dcor d) \<and> (\<forall>ev \<in> set (log \<sigma>). typed_event \<sigma> ev)"

text \<open>What Go's compiler and \<open>rand.Perm\<close> promise of user functions and of permutations.\<close>

definition honest :: "env \<Rightarrow> gofn \<Rightarrow> bool" where
  "honest E f \<longleftrightarrow> (\<forall>log args vs. env_call E (fn_id f) log args = OReturn vs \<longrightarrow> list_all2 fits (outs (fn_type f)) vs)"

definition honest_env :: "env \<Rightarrow> store \<Rightarrow> bool" where
  "honest_env E \<sigma> \<longleftrightarrow> (\<forall>s k n. set (env_perm E s k n) \<subseteq> {..<n}) \<and>
     (\<forall>c \<in> set (ctors \<sigma>). honest E (cn_ctor c)) \<and> (\<forall>d \<in> set (dcors \<sigma>). honest E (dn_dcor d))"

text \<open>The stores of a run of calls from \<open>\<sigma>0\<close>.\<close>

definition running :: "env \<Rightarrow> store \<Rightarrow> store \<Rightarrow> bool" where
  "running E \<sigma>0 \<sigma> \<longleftrightarrow> well_indexed \<sigma>0 \<and> honest_env E \<sigma>0 \<and> static \<sigma> = static \<sigma>0 \<and> typed \<sigma>"

lemma runningD:
  assumes "running E \<sigma>0 \<sigma>"
  shows "well_indexed \<sigma>0" and "honest_env E \<sigma>0" and "static \<sigma> = static \<sigma>0" and "typed \<sigma>" and "well_indexed \<sigma>"
    and "length (scopes \<sigma>) = length (scopes \<sigma>0)" and "length (ctors \<sigma>) = length (ctors \<sigma>0)" and "length (dcors \<sigma>) = length (dcors \<sigma>0)"
proof -
  show "well_indexed \<sigma>0" and "honest_env E \<sigma>0" and eq: "static \<sigma> = static \<sigma>0" and "typed \<sigma>"
    using assms by (simp_all add: running_def)
  then show "well_indexed \<sigma>" by (blast intro: well_indexed_static)
  show "length (scopes \<sigma>) = length (scopes \<sigma>0)" and "length (ctors \<sigma>) = length (ctors \<sigma>0)" and "length (dcors \<sigma>) = length (dcors \<sigma>0)"
    by (rule static_lengths [OF eq])+
qed

lemma static_fn:
  assumes "static \<sigma> = static \<sigma>0"
  shows "n < length (ctors \<sigma>0) \<Longrightarrow> cn_ctor (ctor_of \<sigma> n) = cn_ctor (ctor_of \<sigma>0 n)"
    and "d < length (dcors \<sigma>0) \<Longrightarrow> dn_dcor (dcor_of \<sigma> d) = dn_dcor (dcor_of \<sigma>0 d)"
    and "d < length (dcors \<sigma>0) \<Longrightarrow> dn_results (dcor_of \<sigma> d) = dn_results (dcor_of \<sigma>0 d)"
  using arg_cong [OF static_nth(2) [OF assms], of n cn_ctor] arg_cong [OF static_nth(3) [OF assms], of d dn_dcor]
    arg_cong [OF static_nth(3) [OF assms], of d dn_results]
  by (simp_all add: static_ctor_def static_dcor_def)

text \<open>Changes to a store that keep it typed.\<close>

lemma typed_event_cong:
  assumes "map cn_ctor (ctors \<sigma>') = map cn_ctor (ctors \<sigma>) @ cs" and "map dn_dcor (dcors \<sigma>') = map dn_dcor (dcors \<sigma>) @ ds"
    and "typed_event \<sigma> ev"
  shows "typed_event \<sigma>' ev"
proof -
  have c: "n < length (ctors \<sigma>') \<and> cn_ctor (ctor_of \<sigma>' n) = cn_ctor (ctor_of \<sigma> n)" if "n < length (ctors \<sigma>)" for n
    using that arg_cong [OF assms(1), of length] arg_cong [OF assms(1), of "\<lambda>xs. xs ! n"] by (simp add: nth_append)
  have d: "n < length (dcors \<sigma>') \<and> dn_dcor (dcor_of \<sigma>' n) = dn_dcor (dcor_of \<sigma> n)" if "n < length (dcors \<sigma>)" for n
    using that arg_cong [OF assms(2), of length] arg_cong [OF assms(2), of "\<lambda>xs. xs ! n"] by (simp add: nth_append)
  from assms(3) c d show ?thesis by (cases "(\<sigma>, ev)" rule: typed_event.cases) simp_all
qed

lemma typed_upd_scope:
  assumes "typed \<sigma>" and "\<And>sc. typed_contents sc \<Longrightarrow> typed_contents (f sc)"
  shows "typed (upd_scope s f \<sigma>)"
proof (cases "s < length (scopes \<sigma>)")
  case True
  have "typed_event (upd_scope s f \<sigma>) ev" if "typed_event \<sigma> ev" for ev
    by (rule typed_event_cong [OF _ _ that, of _ "[]" "[]"]) simp_all
  moreover have "typed_contents sc" if "sc \<in> set (scopes (upd_scope s f \<sigma>))" for sc
    using that set_update_subset_insert [of "scopes \<sigma>" s "f (scope_of \<sigma> s)"] assms True
    by (fastforce simp: typed_def upd_scope_def)
  ultimately show ?thesis using assms(1) by (simp add: typed_def)
qed (use assms in \<open>simp add: upd_scope_def list_update_beyond\<close>)

lemma running_upd_scope:
  assumes "running E \<sigma>0 \<sigma>" and "\<And>sc. static_scope (f sc) = static_scope sc" and "\<And>sc. typed_contents sc \<Longrightarrow> typed_contents (f sc)"
  shows "running E \<sigma>0 (upd_scope s f \<sigma>)"
  using assms typed_upd_scope static_upd_scope by (simp add: running_def)

lemma running_emit:
  assumes "running E \<sigma>0 \<sigma>" and "typed_event \<sigma> ev"
  shows "running E \<sigma>0 (emit ev \<sigma>)"
proof -
  have "typed_event (emit ev \<sigma>) ev'" if "typed_event \<sigma> ev'" for ev'
    by (rule typed_event_cong [OF _ _ that, of _ "[]" "[]"]) (simp_all add: emit_def)
  with assms show ?thesis by (auto simp: running_def typed_def emit_def static_def)
qed

lemma running_ticks:
  assumes "running E \<sigma>0 \<sigma>"
  shows "running E \<sigma>0 (\<sigma>\<lparr>ticks := n\<rparr>)"
proof -
  have "typed_event (\<sigma>\<lparr>ticks := n\<rparr>) ev'" if "typed_event \<sigma> ev'" for ev'
    by (rule typed_event_cong [OF _ _ that, of _ "[]" "[]"]) simp_all
  with assms show ?thesis by (auto simp: running_def typed_def)
qed

lemma map_update_same: "(\<And>x. h (f x) = h x) \<Longrightarrow> map h (xs[i := f (xs ! i)]) = map h xs"
  by (cases "i < length xs") (simp_all add: map_update list_update_id list_update_beyond, metis length_map list_update_id nth_map)

lemma typed_upd_ctor:
  assumes "typed \<sigma>" and "\<And>c. cn_ctor (f c) = cn_ctor c" and "\<And>c. typed_ctor c \<Longrightarrow> typed_ctor (f c)"
  shows "typed (upd_ctor n f \<sigma>)"
proof (cases "n < length (ctors \<sigma>)")
  case True
  have "typed_event (upd_ctor n f \<sigma>) ev" if "typed_event \<sigma> ev" for ev
    by (rule typed_event_cong [OF _ _ that, of _ "[]" "[]"]) (simp_all add: upd_ctor_def map_update_same assms(2))
  moreover have "typed_ctor c" if "c \<in> set (ctors (upd_ctor n f \<sigma>))" for c
    using that set_update_subset_insert [of "ctors \<sigma>" n "f (ctor_of \<sigma> n)"] assms(1,3) True
    by (fastforce simp: typed_def upd_ctor_def)
  ultimately show ?thesis using assms(1) by (simp add: typed_def upd_ctor_def)
qed (use assms in \<open>simp add: upd_ctor_def list_update_beyond\<close>)

lemma typed_upd_dcor:
  assumes "typed \<sigma>" and "\<And>c. dn_dcor (f c) = dn_dcor c" and "\<And>c. typed_dcor c \<Longrightarrow> typed_dcor (f c)"
  shows "typed (upd_dcor n f \<sigma>)"
proof (cases "n < length (dcors \<sigma>)")
  case True
  have "typed_event (upd_dcor n f \<sigma>) ev" if "typed_event \<sigma> ev" for ev
    by (rule typed_event_cong [OF _ _ that, of _ "[]" "[]"]) (simp_all add: upd_dcor_def map_update_same assms(2))
  moreover have "typed_dcor c" if "c \<in> set (dcors (upd_dcor n f \<sigma>))" for c
    using that set_update_subset_insert [of "dcors \<sigma>" n "f (dcor_of \<sigma> n)"] assms(1,3) True
    by (fastforce simp: typed_def upd_dcor_def)
  ultimately show ?thesis using assms(1) by (simp add: typed_def upd_dcor_def)
qed (use assms in \<open>simp add: upd_dcor_def list_update_beyond\<close>)

lemma running_setState: "running E \<sigma>0 \<sigma> \<Longrightarrow> running E \<sigma>0 (setState d st \<sigma>)"
  by (auto simp: running_def setState_def static_upd_dcor static_dcor_def typed_dcor_def intro!: typed_upd_dcor)

lemma running_called: "running E \<sigma>0 \<sigma> \<Longrightarrow> running E \<sigma>0 (upd_ctor n (\<lambda>c. c\<lparr>cn_called := b\<rparr>) \<sigma>)"
  by (auto simp: running_def static_upd_ctor static_ctor_def typed_ctor_def intro!: typed_upd_ctor)

text \<open>Reading and writing a scope.\<close>

lemma running_contents: "running E \<sigma>0 \<sigma> \<Longrightarrow> s < length (scopes \<sigma>0) \<Longrightarrow> typed_contents (scope_of \<sigma> s)"
  using runningD(4,6) [of E \<sigma>0 \<sigma>] by (simp add: typed_def)

lemma typed_group:
  assumes "typed_contents sc" and "v \<in> set (al_get [] (groups sc) k)"
  shows "fits (key_t k) v"
proof (cases "map_of (groups sc) k")
  case (Some vs)
  with assms map_of_SomeD [OF Some] show ?thesis by (auto simp: typed_contents_def al_get_def)
qed (use assms in \<open>simp add: al_get_def\<close>)

lemma typed_reads:
  assumes "typed_contents (scope_of \<sigma> s)"
  shows "getValue \<sigma> s name t = Some v \<Longrightarrow> fits t v" and "getDecoratedValue \<sigma> s name t = Some v \<Longrightarrow> fits t v"
    and "getDecoratedValueGroup \<sigma> s name t = Some v \<Longrightarrow> settled t v"
  using assms
  by (auto simp: typed_contents_def getValue_def getDecoratedValue_def getDecoratedValueGroup_def dest!: map_of_SomeD)

lemma typed_contents_update:
  assumes "typed_contents sc"
  shows "fits (key_t k) v \<Longrightarrow> typed_contents (sc\<lparr>sc_values := AList.update k v (sc_values sc)\<rparr>)"
    and "fits (key_t k) v \<Longrightarrow> typed_contents (sc\<lparr>decoratedValues := AList.update k v (decoratedValues sc)\<rparr>)"
    and "\<forall>v \<in> set vs. fits (key_t k) v \<Longrightarrow> typed_contents (sc\<lparr>groups := AList.update k vs (groups sc)\<rparr>)"
    and "settled (key_t k) v \<Longrightarrow> typed_contents (sc\<lparr>decoratedGroups := AList.update k v (decoratedGroups sc)\<rparr>)"
  using assms set_AList_update [of k v "sc_values sc"] set_AList_update [of k v "decoratedValues sc"]
    set_AList_update [of k vs "groups sc"] set_AList_update [of k v "decoratedGroups sc"]
  by (fastforce simp: typed_contents_def)+

subsection \<open>Extracting results\<close>

lemma slice_elem: "Kind t = KSlice \<Longrightarrow> under t = SSlice (elemT t)"
  by (auto simp: Kind_def elemT_def Elem_def split: shape.splits)

lemma size_under: "size (under t) < size t"
  by (cases t) simp

lemma slice_not_elem:
  assumes "Kind t = KSlice"
  shows "under t \<noteq> under (elemT t)"
proof
  assume "under t = under (elemT t)"
  then have "size (under (elemT t)) = size (SSlice (elemT t))" using slice_elem [OF assms] by simp
  then show False using size_under [of "elemT t"] by simp
qed

lemma settled_fits: "fits t v \<Longrightarrow> settled t v"
  by (simp add: settled_def)

lemma settled_flatten:
  assumes v: "fits t v" and t: "Kind t = KSlice"
  shows "settled (elemT t) v"
  unfolding settled_def
proof
  assume a: "AssignableTo v (elemT t)"
  consider "typeOf v = Some t" | e where "v = VError e" using fits_concrete [OF v] t by auto
  then show "fits (elemT t) v"
  proof cases
    case 1
    then have "Implements t (elemT t)" using a slice_not_elem [OF t] by (auto simp: AssignableTo_def)
    then show ?thesis using fits_mono [OF v] by (simp add: inhabits_def)
  qed (use a in \<open>simp add: AssignableTo_def typeOf_def\<close>)
qed

text \<open>What a \<open>containerWriter\<close> promises: it accepts values of the type of their key.\<close>

locale typed_writer =
  fixes W :: "'w containerWriter" and J :: "'w \<Rightarrow> bool"
  assumes W_set: "fits t v \<Longrightarrow> triple J (cwSetValue W name t v) (\<lambda>_. J) J"
    and W_setDecorated: "fits t v \<Longrightarrow> triple J (cwSetDecoratedValue W name t v) (\<lambda>_. J) J"
    and W_submit: "fits t v \<Longrightarrow> triple J (cwSubmitGroupedValue W g t v) (\<lambda>_. J) J"
    and W_submitDecorated: "settled t v \<Longrightarrow> triple J (cwSubmitDecoratedGroupedValue W g t v) (\<lambda>_. J) J"
begin

lemma triple_Extract: "result_for t r \<Longrightarrow> fits t v \<Longrightarrow> triple J (Extract W r decorated v) (\<lambda>_. J) J"
proof (induction r arbitrary: t v rule: measure_induct_rule [of size])
  case (less r)
  show ?case
  proof (cases r)
    case (resultSingle name u as)
    with less.prems have "fits u v" "\<And>a. a \<in> set as \<Longrightarrow> fits a v" by (auto intro: fits_mono)
    then show ?thesis
      unfolding resultSingle Extract.simps
      by (cases decorated) (simp_all add: W_setDecorated triple_bindS [OF W_set triple_forS [OF W_set]])
  next
    case (resultGrouped g u flatten as)
    show ?thesis
    proof (cases "decorated")
      case True
      have "settled u v" using less.prems resultGrouped settled_flatten settled_fits fits_mono by (auto split: if_splits)
      with True show ?thesis by (simp add: resultGrouped W_submitDecorated)
    next
      case False
      show ?thesis
      proof (cases flatten)
        case True
        with False less.prems fits_elements [of t v] show ?thesis
          by (auto simp: resultGrouped intro!: triple_forS W_submit triple_panicS split: option.split)
      next
        case flat: False
        with less.prems resultGrouped have "fits u v" "\<And>a. a \<in> set as \<Longrightarrow> fits a v" by (auto intro: fits_mono)
        with False flat show ?thesis
          by (simp add: resultGrouped triple_bindS [OF W_submit triple_forS [OF W_submit]])
      qed
    qed
  next
    case (resultObject u fs)
    show ?thesis
      unfolding resultObject Extract.simps
    proof (rule triple_forS)
      fix f assume f: "f \<in> set fs"
      show "triple J (case valueField v (rofIndex f) of
           Some x \<Rightarrow> Extract W (rofResult f) decorated x
         | None \<Rightarrow> panicS (VRuntime ''reflect: Field of non-struct type'')) (\<lambda>_. J) J"
      proof (cases "valueField v (rofIndex f)")
        case (Some x)
        from less.prems f resultObject have "Kind t = KStruct" "rofIndex f < length (structFields t)"
          "result_for (fieldType (structFields t ! rofIndex f)) (rofResult f)" by auto
        with less.IH [of "rofResult f"] fits_valueField [OF less.prems(2) _ _ Some] size_rofResult [OF f] show ?thesis
          by (simp add: Some resultObject)
      qed (simp add: triple_panicS)
    qed
  qed
qed

lemma triple_ExtractList:
  assumes rl: "results_for ctype rl" and vs: "list_all2 fits (outs ctype) vs"
  shows "triple J (ExtractList W rl decorated vs) (\<lambda>_. J) J"
  unfolding ExtractList_def
proof (rule triple_forS)
  fix x assume "x \<in> set (enumerate 0 vs)"
  then obtain i where x: "x = (i, vs ! i)" and i: "i < length vs" by (cases x rule: prod.exhaust) (auto simp: in_set_enumerate_eq)
  with vs have "fits (outs ctype ! i) (vs ! i)" and "length (outs ctype) = length vs" by (simp_all add: list_all2_conv_all_nth)
  with rl i have "triple J (Extract W (Results rl ! nat (resultIndexes rl ! i)) decorated (vs ! i)) (\<lambda>_. J) J"
    if "0 \<le> resultIndexes rl ! i" using that by (intro triple_Extract) (auto simp: results_for_def)
  then show "triple J (case x of (i, v) \<Rightarrow>
         if length (resultIndexes rl) \<le> i then panicS (VRuntime ''index out of range'')
         else let resultIdx = resultIndexes rl ! i
              in if 0 \<le> resultIdx then Extract W (Results rl ! nat resultIdx) decorated v
                 else if v = VNone then panicS (VRuntime ''reflect: call of Interface on zero Value'')
                 else (case asError v of Some e \<Rightarrow> throwS e | None \<Rightarrow> retS ())) (\<lambda>_. J) J"
    by (simp add: x Let_def triple_panicS triple_throwS triple_retS split: option.split)
qed

end

text \<open>The staging writer and a scope are such writers.\<close>

definition typed_staging :: "staging \<Rightarrow> bool" where
  "typed_staging sr \<longleftrightarrow> (\<forall>(k, v) \<in> set (st_values sr). fits (key_t k) v) \<and>
     (\<forall>(k, vs) \<in> set (st_groups sr). \<forall>v \<in> set vs. fits (key_t k) v)"

interpretation staging_typed: typed_writer stagingWriter typed_staging
proof
  fix t v name g assume fits: "fits t v"
  have "typed_staging (stSetValue name t v sr)" if "typed_staging sr" for sr
    using that fits set_AList_update [of "value_key name t" v "st_values sr"]
    by (fastforce simp: typed_staging_def stSetValue_def)
  then show "triple typed_staging (cwSetValue stagingWriter name t v) (\<lambda>_. typed_staging) typed_staging"
    by (simp add: stagingWriter_def triple_doS)
  have "typed_staging (stSubmitGroupedValue g t v sr)" if "typed_staging sr" for sr
  proof -
    have "\<forall>w \<in> set (al_get [] (st_groups sr) (group_key g t)). fits t w"
      using that map_of_SomeD [of "st_groups sr" "group_key g t"]
      by (cases "map_of (st_groups sr) (group_key g t)") (fastforce simp: typed_staging_def al_get_def)+
    then show ?thesis
      using that fits set_AList_update [of "group_key g t" "al_get [] (st_groups sr) (group_key g t) @ [v]" "st_groups sr"]
      by (fastforce simp: typed_staging_def stSubmitGroupedValue_def Let_def)
  qed
  then show "triple typed_staging (cwSubmitGroupedValue stagingWriter g t v) (\<lambda>_. typed_staging) typed_staging"
    by (simp add: stagingWriter_def triple_doS)
qed (simp_all add: stagingWriter_def triple_panicS)

lemma running_writes:
  assumes "running E \<sigma>0 \<sigma>"
  shows "fits t v \<Longrightarrow> running E \<sigma>0 (setValue s name t v \<sigma>)"
    and "fits t v \<Longrightarrow> running E \<sigma>0 (setDecoratedValue s name t v \<sigma>)"
    and "fits t v \<Longrightarrow> running E \<sigma>0 (submitGroupedValue s g t v \<sigma>)"
    and "settled t v \<Longrightarrow> running E \<sigma>0 (submitDecoratedGroupedValue s g t v \<sigma>)"
  unfolding setValue_def setDecoratedValue_def submitGroupedValue_def submitDecoratedGroupedValue_def
  by (rule running_upd_scope [OF assms]; force simp: static_scope_def Let_def
      intro!: typed_contents_update dest: typed_group)+

interpretation scope_typed: typed_writer "scopeWriter s" "running E \<sigma>0" for s E \<sigma>0
  by standard (simp_all add: scopeWriter_def triple_doS running_writes)

subsection \<open>Building arguments\<close>

lemma fine_triple: "fine True I m \<longleftrightarrow> triple I m (\<lambda>_. I) I"
  by (simp add: fine_def fine_at_def triple_def post_snd)

lemma triple_value:
  assumes "fine True I m" and "\<And>\<sigma> a \<sigma>'. I \<sigma> \<Longrightarrow> I \<sigma>' \<Longrightarrow> m \<sigma> = (Ret a, \<sigma>') \<Longrightarrow> V a"
  shows "triple I m (\<lambda>a \<sigma>. I \<sigma> \<and> V a) I"
proof (rule tripleI)
  fix \<sigma> assume I: "I \<sigma>"
  obtain r \<sigma>' where m: "m \<sigma> = (r, \<sigma>')" by fastforce
  with fineD [OF assms(1) I] have "I \<sigma>'" by (simp add: fine_at_def)
  with assms(2) [OF I this] m show "post (\<lambda>a \<sigma>. I \<sigma> \<and> V a) I (m \<sigma>)" by (cases r) simp_all
qed

lemma triple_mapS:
  assumes "\<And>x. x \<in> set xs \<Longrightarrow> triple I (f x) (\<lambda>y \<sigma>. I \<sigma> \<and> V x y) I"
  shows "triple I (mapS f xs) (\<lambda>ys \<sigma>. I \<sigma> \<and> list_all2 V xs ys) I"
  using assms
proof (induction xs)
  case Nil
  show ?case by (simp add: triple_def)
next
  case (Cons x xs)
  have "triple (\<lambda>\<sigma>. I \<sigma> \<and> V x y) (bindS (mapS f xs) (\<lambda>ys. retS (y # ys))) (\<lambda>ys \<sigma>. I \<sigma> \<and> list_all2 V (x # xs) ys) I" for y
  proof (rule tripleI, elim conjE)
    fix \<sigma> assume "I \<sigma>" and y: "V x y"
    from tripleD [OF Cons.IH [OF Cons.prems] this(1)] y show "post (\<lambda>ys \<sigma>. I \<sigma> \<and> list_all2 V (x # xs) ys) I (bindS (mapS f xs) (\<lambda>ys. retS (y # ys)) \<sigma>)"
      by (intro post_bindS) (auto simp: triple_def)
  qed
  then show ?case unfolding mapS.simps by (intro triple_bindS [OF Cons.prems]) simp_all
qed

text \<open>The value of a parameter: the zero \<open>reflect.Value\<close> or a value of the type.\<close>

definition value_ok :: "gotype \<Rightarrow> param \<Rightarrow> gval \<Rightarrow> bool" where
  "value_ok t p v \<longleftrightarrow> (if is_group p then settled t v else v = VNone \<or> fits t v)"

lemma firstSome_Some: "firstSome f xs = Some y \<Longrightarrow> \<exists>x \<in> set xs. f x = Some y"
  by (induction xs) (auto split: option.splits)

lemma findProviding_Cached: "findProviding \<sigma> name t ss = Cached v \<Longrightarrow> \<exists>s \<in> set ss. getValue \<sigma> s name t = Some v"
  by (induction ss) (auto simp: Let_def split: option.splits if_splits)

lemma running_reads:
  assumes "running E \<sigma>0 \<sigma>" and "s < length (scopes \<sigma>0)"
  shows "getValue \<sigma> s name t = Some v \<Longrightarrow> fits t v" and "getDecoratedValue \<sigma> s name t = Some v \<Longrightarrow> fits t v"
    and "getDecoratedValueGroup \<sigma> s name t = Some v \<Longrightarrow> settled t v"
  using typed_reads [OF running_contents [OF assms]] by blast+

lemma running_stores:
  assumes "running E \<sigma>0 \<sigma>" and "c < length (scopes \<sigma>0)" and "s \<in> set (storesToRoot \<sigma> c)"
  shows "s < length (scopes \<sigma>0)"
  using storesToRoot_less [OF well_indexed_tree [OF runningD(5) [OF assms(1)]]] assms runningD(6) [OF assms(1)] by simp

lemma orNoValue_ok: "(\<And>v. r = Some v \<Longrightarrow> fits t v) \<Longrightarrow> orNoValue r = VNone \<or> fits t (orNoValue r)"
  by (cases r) (simp_all add: orNoValue_def)

lemma buildWithDecorators_value:
  assumes I: "running E \<sigma>0 \<sigma>" "running E \<sigma>0 \<sigma>'" and c: "c < length (scopes \<sigma>0)"
    and m: "buildWithDecorators cD name t c \<sigma> = (Ret (Some v), \<sigma>')"
  shows "v = VNone \<or> fits t v"
proof -
  from m obtain d s where ds: "findDecorator \<sigma> name t (storesToRoot \<sigma> c) = Some (d, s)" and v: "v = orNoValue (getDecoratedValue \<sigma>' s name t)"
    by (auto simp: buildWithDecorators_def bindS_eq_Ret split: option.splits)
  have "s < length (scopes \<sigma>0)" using findDecorator_Some [OF ds] running_stores [OF I(1) c] by blast
  then show ?thesis unfolding v by (intro orNoValue_ok running_reads(2) [OF I(2)])
qed

lemma buildFromProviders_value:
  assumes I: "running E \<sigma>0 \<sigma>" "running E \<sigma>0 \<sigma>'" and c: "c < length (scopes \<sigma>0)"
    and m: "buildFromProviders cC name optional t c \<sigma> = (Ret v, \<sigma>')"
  shows "v = VNone \<or> fits t v"
proof (cases "firstSome (\<lambda>s. getDecoratedValue \<sigma> s name t) (storesToRoot \<sigma> c)")
  case (Some w)
  from firstSome_Some [OF this] running_stores [OF I(1) c] running_reads(2) [OF I(1)] have "fits t w" by blast
  with m Some show ?thesis by (simp add: buildFromProviders_def)
next
  case None
  show ?thesis
  proof (cases "findProviding \<sigma> name t (storesToRoot \<sigma> c)")
    case (Cached w)
    from findProviding_Cached [OF this] running_stores [OF I(1) c] running_reads(1) [OF I(1)] have "fits t w" by blast
    with m None Cached show ?thesis by (simp add: buildFromProviders_def)
  next
    case (Provided s ns)
    have s: "s < length (scopes \<sigma>0)" using findProviding_Provided [OF Provided] running_stores [OF I(1) c] by blast
    from m None Provided have "v = VZero t \<or> v = orNoValue (getValue \<sigma>' s name t)"
      by (auto simp: buildFromProviders_def bindS_eq_Ret split: if_splits)
    moreover have "orNoValue (getValue \<sigma>' s name t) = VNone \<or> fits t (orNoValue (getValue \<sigma>' s name t))"
      by (rule orNoValue_ok) (rule running_reads(1) [OF I(2) s])
    ultimately show ?thesis by auto
  qed (use m None in \<open>auto simp: buildFromProviders_def split: if_splits\<close>)
qed

lemma triple_buildSingle:
  assumes ok: "calls_fine True (running E \<sigma>0) cC cD c S N" and c: "c < length (scopes \<sigma>0)"
    and N: "\<And>\<sigma>. running E \<sigma>0 \<sigma> \<Longrightarrow> callees \<sigma> c (paramSingle name optional t) \<subseteq> N"
  shows "triple (running E \<sigma>0) (buildSingle cC cD name optional t c)
    (\<lambda>v \<sigma>. running E \<sigma>0 \<sigma> \<and> (v = VNone \<or> fits t v)) (running E \<sigma>0)"
proof (rule triple_value [OF fine_buildSingle [OF ok N]], assumption)
  fix \<sigma> v \<sigma>' assume I: "running E \<sigma>0 \<sigma>" "running E \<sigma>0 \<sigma>'" and m: "buildSingle cC cD name optional t c \<sigma> = (Ret v, \<sigma>')"
  from m obtain r \<sigma>1 where r: "buildWithDecorators cD name t c \<sigma> = (Ret r, \<sigma>1)"
    and rest: "(case r of Some v \<Rightarrow> retS v | None \<Rightarrow> buildFromProviders cC name optional t c) \<sigma>1 = (Ret v, \<sigma>')"
    by (auto simp: buildSingle_def bindS_eq_Ret)
  show "v = VNone \<or> fits t v"
  proof (cases r)
    case (Some w)
    with rest r buildWithDecorators_value [OF I c] show ?thesis by simp
  next
    case None
    with r have "\<sigma>1 = \<sigma>" by (auto simp: buildWithDecorators_def bindS_eq_Ret split: option.splits)
    with rest None buildFromProviders_value [OF I c] show ?thesis by simp
  qed
qed

lemma triple_getValueGroup:
  assumes s: "s < length (scopes \<sigma>0)"
  shows "triple (running E \<sigma>0) (getValueGroup E s g t) (\<lambda>vs \<sigma>. running E \<sigma>0 \<sigma> \<and> (\<forall>v \<in> set vs. fits t v)) (running E \<sigma>0)"
proof (rule tripleI)
  fix \<sigma> assume I: "running E \<sigma>0 \<sigma>"
  let ?items = "al_get [] (groups (scope_of \<sigma> s)) (group_key g t)"
  have "fits t (?items ! j)" if "j \<in> set (env_perm E s (rand (scope_of \<sigma> s)) (length ?items))" for j
  proof -
    have "j < length ?items" using that runningD(2) [OF I] by (auto simp: honest_env_def)
    then show ?thesis using typed_group [OF running_contents [OF I s], of "?items ! j" "group_key g t"] by simp
  qed
  moreover have "running E \<sigma>0 (upd_scope s (\<lambda>sc. sc\<lparr>rand := Suc (rand sc)\<rparr>) \<sigma>)"
    by (rule running_upd_scope [OF I]) (simp_all add: static_scope_def typed_contents_def)
  ultimately show "post (\<lambda>vs \<sigma>. running E \<sigma>0 \<sigma> \<and> (\<forall>v \<in> set vs. fits t v)) (running E \<sigma>0) (getValueGroup E s g t \<sigma>)"
    by (simp add: getValueGroup_def Let_def shuffledCopy_def)
qed

lemma triple_collect:
  assumes ss: "set ss \<subseteq> {..<length (scopes \<sigma>0)}" and t: "Kind t = KSlice"
  shows "triple (running E \<sigma>0) (bindS (mapS (\<lambda>s. getValueGroup E s g (elemT t)) ss) (\<lambda>vss. retS (VSlice t (concat vss))))
    (\<lambda>v \<sigma>. running E \<sigma>0 \<sigma> \<and> fits t v) (running E \<sigma>0)"
proof (rule triple_bindS [OF triple_mapS [where V = "\<lambda>s vs. \<forall>v \<in> set vs. fits (elemT t) v"]], goal_cases)
  case (1 s)
  then show ?case using ss by (intro triple_getValueGroup) auto
next
  case (2 vss)
  have "fits t (VSlice t (concat vss))" if "list_all2 (\<lambda>s vs. \<forall>v \<in> set vs. fits (elemT t) v) ss vss"
    using that t by (fastforce simp: list_all2_conv_all_nth in_set_conv_nth)
  then show ?case by (auto simp: triple_def)
qed

lemma triple_buildGroup:
  assumes ok: "calls_fine True (running E \<sigma>0) cC cD c S N" and c: "c < length (scopes \<sigma>0)" and t: "Kind t = KSlice"
    and N: "\<And>\<sigma>. running E \<sigma>0 \<sigma> \<Longrightarrow> callees \<sigma> c (paramGroupedSlice g t soft oid) \<subseteq> N"
  shows "triple (running E \<sigma>0) (buildGroup E cC cD g t soft c) (\<lambda>v \<sigma>. running E \<sigma>0 \<sigma> \<and> settled t v) (running E \<sigma>0)"
  unfolding buildGroup_def
proof (rule triple_bindS [OF fine_callGroupDecorators [OF ok, unfolded fine_triple]])
  let ?collect = "\<lambda>\<sigma>'. bindS (mapS (\<lambda>s. getValueGroup E s g (elemT t)) (storesToRoot \<sigma>' c)) (\<lambda>vss. retS (VSlice t (concat vss))) \<sigma>'"
  have collect: "triple (running E \<sigma>0) ?collect (\<lambda>v \<sigma>. running E \<sigma>0 \<sigma> \<and> settled t v) (running E \<sigma>0)"
  proof (rule tripleI)
    fix \<sigma> assume I: "running E \<sigma>0 \<sigma>"
    have "set (storesToRoot \<sigma> c) \<subseteq> {..<length (scopes \<sigma>0)}" using running_stores [OF I c] by auto
    from tripleD [OF triple_collect [OF this t] I] show "post (\<lambda>v \<sigma>. running E \<sigma>0 \<sigma> \<and> settled t v) (running E \<sigma>0) (?collect \<sigma>)"
      by (rule post_mono) (auto intro: settled_fits)
  qed
  have "fine True (running E \<sigma>0) (if soft then retS () else callGroupProviders cC g t c)"
  proof (cases soft)
    case False
    have "set (getGroupProviders \<sigma> s g (elemT t)) \<subseteq> N" if "running E \<sigma>0 \<sigma>" and "s \<in> set S" for \<sigma> s
      using N [OF that(1)] that(2) calls_fineD(1) [OF ok that(1)] False by auto
    then show ?thesis using False fine_callGroupProviders [OF ok] by simp
  qed (simp add: fine_retS del: retS_app)
  note rest = triple_bindS [OF this [unfolded fine_triple] collect]
  show "triple (running E \<sigma>0) (\<lambda>\<sigma>. case firstSome (\<lambda>s. getDecoratedValueGroup \<sigma> s g t) (storesToRoot \<sigma> c) of
         Some v \<Rightarrow> (Ret v, \<sigma>)
       | None \<Rightarrow> bindS (if soft then retS () else callGroupProviders cC g t c) (\<lambda>_. ?collect) \<sigma>)
      (\<lambda>v \<sigma>. running E \<sigma>0 \<sigma> \<and> settled t v) (running E \<sigma>0)" for u :: unit
  proof (rule tripleI)
    fix \<sigma> assume I: "running E \<sigma>0 \<sigma>"
    have "settled t v" if "firstSome (\<lambda>s. getDecoratedValueGroup \<sigma> s g t) (storesToRoot \<sigma> c) = Some v" for v
      using firstSome_Some [OF that] running_reads(3) [OF I running_stores [OF I c]] by blast
    with tripleD [OF rest I] I show "post (\<lambda>v \<sigma>. running E \<sigma>0 \<sigma> \<and> settled t v) (running E \<sigma>0)
       (case firstSome (\<lambda>s. getDecoratedValueGroup \<sigma> s g t) (storesToRoot \<sigma> c) of
         Some v \<Rightarrow> (Ret v, \<sigma>)
       | None \<Rightarrow> bindS (if soft then retS () else callGroupProviders cC g t c) (\<lambda>_. ?collect) \<sigma>)"
      by (cases "firstSome (\<lambda>s. getDecoratedValueGroup \<sigma> s g t) (storesToRoot \<sigma> c)") simp_all
  qed
qed

lemma setFields_fit:
  assumes "\<And>f v. (f, v) \<in> set (zip fs vs) \<Longrightarrow> fits (fieldType (structFields t ! pofIndex f)) v"
    and "list_all2 (\<lambda>f v. fits (fieldType f) v) (structFields t) dest"
  shows "list_all2 (\<lambda>f v. fits (fieldType f) v) (structFields t) (setFields fs vs dest)"
  unfolding setFields_def
proof (rule fold_invariant [where P = "list_all2 (\<lambda>f v. fits (fieldType f) v) (structFields t)"])
  fix x d assume "x \<in> set (zip fs vs)" and d: "list_all2 (\<lambda>f v. fits (fieldType f) v) (structFields t) d"
  with assms(1) [of "fst x" "snd x"] have "fits (fieldType (structFields t ! pofIndex (fst x))) (snd x)" by simp
  with d have "fits (fieldType (structFields t ! i)) (d[pofIndex (fst x) := snd x] ! i)" if "i < length d" for i
    using that by (cases "pofIndex (fst x) = i") (simp_all add: list_all2_conv_all_nth)
  with d show "list_all2 (\<lambda>f v. fits (fieldType f) v) (structFields t) ((case x of (f, v) \<Rightarrow> \<lambda>d. d[pofIndex f := v]) d)"
    by (simp add: list_all2_conv_all_nth split_beta)
qed (rule assms(2))

lemma triple_settable:
  "triple (\<lambda>\<sigma>. I \<sigma> \<and> value_ok t p v) (settable t v) (\<lambda>w \<sigma>. I \<sigma> \<and> fits t w) I"
  by (auto simp: triple_def settable_def value_ok_def settled_def split: if_splits)

lemma triple_build:
  assumes ok: "calls_fine True (running E \<sigma>0) cC cD c S N" and c: "c < length (scopes \<sigma>0)"
  shows "param_for t p \<Longrightarrow> (\<And>\<sigma>. running E \<sigma>0 \<sigma> \<Longrightarrow> callees \<sigma> c p \<subseteq> N) \<Longrightarrow>
    triple (running E \<sigma>0) (build E cC cD p c) (\<lambda>v \<sigma>. running E \<sigma>0 \<sigma> \<and> value_ok t p v) (running E \<sigma>0)"
proof (induction p arbitrary: t rule: measure_induct_rule [of size])
  case (less p)
  show ?case
  proof (cases p)
    case (paramSingle name optional u)
    with less.prems triple_buildSingle [OF ok c] show ?thesis by (simp add: value_ok_def)
  next
    case (paramGroupedSlice g u soft oid)
    with less.prems triple_buildGroup [OF ok c] show ?thesis by (simp add: value_ok_def)
  next
    case (paramObject u fs)
    let ?field = "\<lambda>f. fieldType (structFields t ! pofIndex f)"
    have u: "u = t" and fs: "\<And>f. f \<in> set fs \<Longrightarrow> param_for (?field f) (pofParam f)" using less.prems(1) paramObject by auto
    have field: "triple (running E \<sigma>0) (bindS (build E cC cD (pofParam f) c) (settable (?field f)))
        (\<lambda>v \<sigma>. running E \<sigma>0 \<sigma> \<and> fits (?field f) v) (running E \<sigma>0)" if "f \<in> set (build_order fs)" for f
    proof (rule triple_bindS [OF less.IH triple_settable])
      show "size (pofParam f) < size p" using that size_pofParam [of f fs] by (simp add: paramObject)
      show "param_for (?field f) (pofParam f)" using that fs by simp
      show "callees \<sigma> c (pofParam f) \<subseteq> N" if "running E \<sigma>0 \<sigma>" for \<sigma>
        using less.prems(2) [OF that] \<open>f \<in> set (build_order fs)\<close> paramObject by auto
    qed
    have "fits t (VStruct t (setFields (build_order fs) vs (zeroStruct t)))"
      if "list_all2 (\<lambda>f v. fits (?field f) v) (build_order fs) vs" for vs
    proof -
      have "list_all2 (\<lambda>f v. fits (fieldType f) v) (structFields t) (zeroStruct t)"
        by (simp add: zeroStruct_def list_all2_conv_all_nth)
      moreover have "fits (?field f) v" if "(f, v) \<in> set (zip (build_order fs) vs)" for f v
        using that \<open>list_all2 (\<lambda>f v. fits (?field f) v) (build_order fs) vs\<close> by (auto simp: list_all2_iff)
      ultimately show ?thesis by (simp add: setFields_fit)
    qed
    then show ?thesis
      unfolding paramObject build.simps u
      by (intro triple_bindS [OF triple_mapS [where V = "\<lambda>f v. fits (?field f) v"]] field)
        (auto simp: triple_def value_ok_def)
  qed
qed

definition args_ok :: "gotype \<Rightarrow> gval list \<Rightarrow> bool" where
  "args_ok ctype args \<longleftrightarrow> list_all2 (\<lambda>t v. v = VNone \<or> fits t v) (argTypes ctype) args"

lemma param_for_unique: "param_for t p \<Longrightarrow> param_for u p \<Longrightarrow> u = t"
  by (cases p) simp_all

lemma triple_BuildList:
  assumes ok: "calls_fine True (running E \<sigma>0) cC cD c S N" and c: "c < length (scopes \<sigma>0)" and pl: "params_for ctype pl"
    and N: "\<And>\<sigma> p. running E \<sigma>0 \<sigma> \<Longrightarrow> callees \<sigma> c p \<subseteq> N"
  shows "triple (running E \<sigma>0) (BuildList E cC cD pl c) (\<lambda>args \<sigma>. running E \<sigma>0 \<sigma> \<and> args_ok ctype args) (running E \<sigma>0)"
proof -
  let ?V = "\<lambda>p v. \<forall>t. param_for t p \<longrightarrow> value_ok t p v"
  have "triple (running E \<sigma>0) (build E cC cD p c) (\<lambda>v \<sigma>. running E \<sigma>0 \<sigma> \<and> ?V p v) (running E \<sigma>0)" if "p \<in> set (Params pl)" for p
  proof -
    from pl that obtain t where t: "param_for t p" by (auto simp: params_for_def list_all2_conv_all_nth in_set_conv_nth)
    show ?thesis
      by (rule triple_weaken [OF triple_build [OF ok c t N]]) (auto dest: param_for_unique [OF t])
  qed
  then have build: "triple (running E \<sigma>0) (BuildList E cC cD pl c) (\<lambda>args \<sigma>. running E \<sigma>0 \<sigma> \<and> list_all2 ?V (Params pl) args) (running E \<sigma>0)"
    unfolding BuildList_def by (rule triple_mapS)
  have "args_ok ctype args" if "list_all2 ?V (Params pl) args" for args
    unfolding args_ok_def
    by (rule list_all2_trans [OF _ pl [unfolded params_for_def] that]) (auto simp: value_ok_def)
  then show ?thesis by (intro triple_weaken [OF build]) blast+
qed

subsection \<open>Running nodes\<close>

definition keeps_running :: "env \<Rightarrow> store \<Rightarrow> store \<Rightarrow> store \<Rightarrow> bool" where
  "keeps_running E \<sigma>0 \<sigma> \<sigma>' \<longleftrightarrow> (running E \<sigma>0 \<sigma> \<longrightarrow> running E \<sigma>0 \<sigma>')"

interpretation running_cb: callback_relation "keeps_running E \<sigma>0" for E \<sigma>0
proof
  show "keeps_running E \<sigma>0 \<sigma> (upd_scope s (\<lambda>sc. sc\<lparr>rand := Suc (rand sc)\<rparr>) \<sigma>)" for E \<sigma>0 \<sigma> s
    unfolding keeps_running_def
    by (intro impI running_upd_scope) (simp_all add: static_scope_def typed_contents_def)
qed (auto simp: keeps_running_def intro: running_ticks running_emit)

lemma keeps_running_iff: "keeps (keeps_running E \<sigma>0) m \<longleftrightarrow> triple (running E \<sigma>0) m (\<lambda>_. running E \<sigma>0) (running E \<sigma>0)"
  by (simp add: keeps_def keeps_running_def triple_def post_snd)

lemma triple_invoke_fn:
  assumes honest: "honest E f" and ev: "\<And>\<sigma>. running E \<sigma>0 \<sigma> \<Longrightarrow> VNone \<notin> set args \<Longrightarrow> typed_event \<sigma> (EvCall who (fn_id f) args)"
  shows "triple (running E \<sigma>0) (invoke_fn E ivk who f args) (\<lambda>vs \<sigma>. running E \<sigma>0 \<sigma> \<and> list_all2 fits (outs (fn_type f)) vs) (running E \<sigma>0)"
proof (rule tripleI)
  fix \<sigma> assume I: "running E \<sigma>0 \<sigma>"
  have "list_all2 fits ts (map VZero ts)" for ts by (simp add: list_all2_conv_all_nth)
  moreover have "running E \<sigma>0 (emit (EvCall who (fn_id f) args) \<sigma>)" if "VNone \<notin> set args"
    using I ev [OF I that] by (rule running_emit)
  ultimately show "post (\<lambda>vs \<sigma>. running E \<sigma>0 \<sigma> \<and> list_all2 fits (outs (fn_type f)) vs) (running E \<sigma>0) (invoke_fn E ivk who f args \<sigma>)"
    using I honest by (auto simp: invoke_fn_def honest_def split: invoker.split outcome.split)
qed

lemma args_ok_fits: "args_ok ctype args \<Longrightarrow> VNone \<notin> set args \<Longrightarrow> list_all2 fits (argTypes ctype) args"
  unfolding args_ok_def list_all2_conv_all_nth by (metis nth_mem)

lemma running_ctor_typed:
  assumes "running E \<sigma>0 \<sigma>" and "n < length (ctors \<sigma>0)"
  shows "cn_ctor (ctor_of \<sigma> n) = cn_ctor (ctor_of \<sigma>0 n)" and "typed_ctor (ctor_of \<sigma> n)" and "honest E (cn_ctor (ctor_of \<sigma>0 n))"
    and "n < length (ctors \<sigma>)"
  using static_fn(1) [OF runningD(3) [OF assms(1)]] runningD(2,4,7) [OF assms(1)] assms(2)
  by (simp_all add: typed_def honest_env_def)

lemma running_dcor_typed:
  assumes "running E \<sigma>0 \<sigma>" and "d < length (dcors \<sigma>0)"
  shows "dn_dcor (dcor_of \<sigma> d) = dn_dcor (dcor_of \<sigma>0 d)" and "typed_dcor (dcor_of \<sigma> d)" and "honest E (dn_dcor (dcor_of \<sigma>0 d))"
    and "d < length (dcors \<sigma>)"
  using static_fn(2) [OF runningD(3) [OF assms(1)]] runningD(2,4,8) [OF assms(1)] assms(2)
  by (simp_all add: typed_def honest_env_def)

lemma running_Commit:
  assumes I: "running E \<sigma>0 \<sigma>" and sr: "typed_staging sr"
  shows "running E \<sigma>0 (Commit sr s \<sigma>)"
proof -
  have "running E \<sigma>0 (commitValues s (st_values sr) \<sigma>)"
    unfolding commitValues_def
    by (rule fold_invariant [where P = "running E \<sigma>0", OF I]) (use sr in \<open>auto simp: typed_staging_def intro!: running_writes\<close>)
  then show ?thesis
    unfolding Commit_def commitGroups_def
  proof (rule fold_invariant)
    fix x \<sigma>1 assume x: "x \<in> set (st_groups sr)" and 1: "running E \<sigma>0 \<sigma>1"
    have "running E \<sigma>0 (fold (submitGroupedValue s (key_group (fst x)) (key_t (fst x))) (snd x) \<sigma>1)"
      by (rule fold_invariant [where P = "running E \<sigma>0", OF 1]) (use sr x in \<open>auto simp: typed_staging_def intro!: running_writes\<close>)
    then show "running E \<sigma>0 ((case x of (k, vs) \<Rightarrow> fold (submitGroupedValue s (key_group k) (key_t k)) vs) \<sigma>1)"
      by (simp add: split_beta)
  qed
qed

lemma triple_ctorFinish:
  assumes n: "n < length (ctors \<sigma>0)" and vs: "list_all2 fits (outs (fn_type (cn_ctor (ctor_of \<sigma>0 n)))) vs"
  shows "triple (running E \<sigma>0) (ctorFinish n vs) (\<lambda>_. running E \<sigma>0) (running E \<sigma>0)"
proof (rule tripleI)
  fix \<sigma> assume I: "running E \<sigma>0 \<sigma>"
  note N = running_ctor_typed [OF I n]
  have "triple typed_staging (ExtractList stagingWriter (cn_resultList (ctor_of \<sigma> n)) False vs) (\<lambda>_. typed_staging) typed_staging"
    using N vs by (intro staging_typed.triple_ExtractList [where ctype = "fn_type (cn_ctor (ctor_of \<sigma>0 n))"]) (simp_all add: typed_ctor_def)
  from tripleD [OF this, of newStagingContainerWriter]
  have "post (\<lambda>_. typed_staging) typed_staging (ExtractList stagingWriter (cn_resultList (ctor_of \<sigma> n)) False vs newStagingContainerWriter)"
    by (simp add: typed_staging_def newStagingContainerWriter_def)
  then show "post (\<lambda>_. running E \<sigma>0) (running E \<sigma>0) (ctorFinish n vs \<sigma>)"
    using I running_called [OF running_Commit [OF I]]
    by (cases "ExtractList stagingWriter (cn_resultList (ctor_of \<sigma> n)) False vs newStagingContainerWriter";
        cases "fst (ExtractList stagingWriter (cn_resultList (ctor_of \<sigma> n)) False vs newStagingContainerWriter)")
      (auto simp: ctorFinish_def Let_def)
qed

lemma triple_ctorRun:
  assumes n: "n < length (ctors \<sigma>0)" and args: "args_ok (fn_type (cn_ctor (ctor_of \<sigma>0 n))) args"
  shows "triple (running E \<sigma>0) (ctorRun E n c args) (\<lambda>_. running E \<sigma>0) (running E \<sigma>0)"
proof (rule tripleI)
  fix \<sigma> assume I: "running E \<sigma>0 \<sigma>"
  let ?f = "cn_ctor (ctor_of \<sigma>0 n)"
  have "triple (running E \<sigma>0) (bindS (invoke_fn E ivk (ByCtor n) ?f args) (ctorFinish n)) (\<lambda>_. running E \<sigma>0) (running E \<sigma>0)" for ivk
  proof (rule triple_bindS [OF triple_invoke_fn], goal_cases)
    case 1
    show ?case by (rule running_ctor_typed(3) [OF I n])
  next
    case (2 \<sigma>)
    with running_ctor_typed [OF 2(1) n] args_ok_fits [OF args 2(2)] show ?case by simp
  next
    case (3 vs)
    show ?case using tripleD [OF triple_ctorFinish [OF n]] by (auto intro: tripleI)
  qed
  then have "keeps (keeps_running E \<sigma>0) (withCallback E cb name (recoverS b fn (bindS (invoke_fn E ivk (ByCtor n) ?f args) (ctorFinish n))))" for cb name b fn ivk
    by (intro running_cb.keeps_withCallback running_cb.keeps_recoverS) (simp add: keeps_running_iff)
  then have "triple (running E \<sigma>0) (withCallback E cb name (recoverS b fn (bindS (invoke_fn E ivk (ByCtor n) ?f args) (ctorFinish n))))
      (\<lambda>_. running E \<sigma>0) (running E \<sigma>0)" for cb name b fn ivk by (simp add: keeps_running_iff)
  moreover have "running E \<sigma>0 (before cb name \<sigma>)" for cb name
    using running_cb.R_before_opt [of E \<sigma>0 \<sigma> cb name] I by (simp add: keeps_running_def)
  ultimately show "post (\<lambda>_. running E \<sigma>0) (running E \<sigma>0) (ctorRun E n c args \<sigma>)"
    unfolding ctorRun_def Let_def running_ctor_typed(1) [OF I n] by (rule tripleD)
qed

lemma triple_dcorFinish:
  assumes d: "d < length (dcors \<sigma>0)" and vs: "list_all2 fits (outs (fn_type (dn_dcor (dcor_of \<sigma>0 d)))) vs"
  shows "triple (running E \<sigma>0) (dcorFinish d vs) (\<lambda>_. running E \<sigma>0) (running E \<sigma>0)"
proof (rule tripleI)
  fix \<sigma> assume I: "running E \<sigma>0 \<sigma>"
  have "triple (running E \<sigma>0) (ExtractList (scopeWriter s) (dn_results (dcor_of \<sigma> d)) True vs) (\<lambda>_. running E \<sigma>0) (running E \<sigma>0)" for s
    using running_dcor_typed [OF I d] vs
    by (intro scope_typed.triple_ExtractList [where ctype = "fn_type (dn_dcor (dcor_of \<sigma>0 d))"]) (simp_all add: typed_dcor_def)
  note rest = tripleD [OF triple_bindS [OF this triple_doS] I]
  show "post (\<lambda>_. running E \<sigma>0) (running E \<sigma>0) (dcorFinish d vs \<sigma>)"
    unfolding dcorFinish_def Let_def by (rule rest, rule running_setState)
qed

lemma triple_dcorRun:
  assumes d: "d < length (dcors \<sigma>0)" and args: "args_ok (fn_type (dn_dcor (dcor_of \<sigma>0 d))) args"
  shows "triple (running E \<sigma>0) (dcorRun E d s args) (\<lambda>_. running E \<sigma>0) (running E \<sigma>0)"
proof (rule tripleI)
  fix \<sigma> assume I: "running E \<sigma>0 \<sigma>"
  let ?f = "dn_dcor (dcor_of \<sigma>0 d)"
  have "triple (running E \<sigma>0) (bindS (invoke_fn E ivk (ByDecorator d) ?f args) (dcorFinish d)) (\<lambda>_. running E \<sigma>0) (running E \<sigma>0)" for ivk
  proof (rule triple_bindS [OF triple_invoke_fn], goal_cases)
    case 1
    show ?case by (rule running_dcor_typed(3) [OF I d])
  next
    case (2 \<sigma>)
    with running_dcor_typed [OF 2(1) d] args_ok_fits [OF args 2(2)] show ?case by simp
  next
    case (3 vs)
    show ?case using tripleD [OF triple_dcorFinish [OF d]] by (auto intro: tripleI)
  qed
  then have "keeps (keeps_running E \<sigma>0) (withCallback E cb name (recoverS b fn (bindS (invoke_fn E ivk (ByDecorator d) ?f args) (dcorFinish d))))" for cb name b fn ivk
    by (intro running_cb.keeps_withCallback running_cb.keeps_recoverS) (simp add: keeps_running_iff)
  then have "triple (running E \<sigma>0) (withCallback E cb name (recoverS b fn (bindS (invoke_fn E ivk (ByDecorator d) ?f args) (dcorFinish d))))
      (\<lambda>_. running E \<sigma>0) (running E \<sigma>0)" for cb name b fn ivk by (simp add: keeps_running_iff)
  moreover have "running E \<sigma>0 (before cb name \<sigma>)" for cb name
    using running_cb.R_before_opt [of E \<sigma>0 \<sigma> cb name] I by (simp add: keeps_running_def)
  ultimately show "post (\<lambda>_. running E \<sigma>0) (running E \<sigma>0) (dcorRun E d s args \<sigma>)"
    unfolding dcorRun_def Let_def running_dcor_typed(1) [OF I d] by (rule tripleD)
qed

lemma running_callees:
  assumes I: "running E \<sigma>0 \<sigma>" and "c < length (scopes \<sigma>0)"
  shows "callees \<sigma> c p \<subseteq> {n. n < length (ctors \<sigma>0)}"
proof
  fix n assume "n \<in> callees \<sigma> c p"
  from callees_less [OF runningD(5) [OF I] _ this] assms(2) show "n \<in> {n. n < length (ctors \<sigma>0)}"
    by (simp add: runningD(6,7) [OF I])
qed

lemma running_args:
  assumes ok: "calls_fine True (running E \<sigma>0) cC cD c S {n. n < length (ctors \<sigma>0)}" and c: "c < length (scopes \<sigma>0)"
    and pl: "params_for ctype pl"
    and run: "\<And>args. args_ok ctype args \<Longrightarrow> triple (running E \<sigma>0) (run args) (\<lambda>_. running E \<sigma>0) (running E \<sigma>0)"
  shows "triple (running E \<sigma>0) (bindS (wrapS w (BuildList E cC cD pl c)) run) (\<lambda>_. running E \<sigma>0) (running E \<sigma>0)"
proof (rule triple_bindS [OF triple_wrapS [OF triple_BuildList [OF ok c pl]]])
  show "triple (\<lambda>\<sigma>. running E \<sigma>0 \<sigma> \<and> args_ok ctype args) (run args) (\<lambda>_. running E \<sigma>0) (running E \<sigma>0)" for args
    using tripleD [OF run] by (auto intro: tripleI)
qed (rule running_callees [OF _ c])

lemma running_ctorCall:
  assumes ok: "calls_fine True (running E \<sigma>0) cC cD c S {n. n < length (ctors \<sigma>0)}" and c: "c < length (scopes \<sigma>0)"
    and n: "n < length (ctors \<sigma>0)" and I: "running E \<sigma>0 \<sigma>"
  shows "running E \<sigma>0 (snd (ctorCall E cC cD n c \<sigma>))"
proof -
  have "params_for (fn_type (cn_ctor (ctor_of \<sigma>0 n))) (cn_paramList (ctor_of \<sigma> n))"
    using running_ctor_typed(1,2) [OF I n] by (simp add: typed_ctor_def)
  from triple_snd [OF running_args [OF ok c this triple_ctorRun [OF n]] I] I show ?thesis
    by (simp add: ctorCall_def Let_def split: option.split)
qed

lemma running_dcorCall:
  assumes ok: "\<And>c. c < length (scopes \<sigma>0) \<Longrightarrow> calls_fine True (running E \<sigma>0) cC cD c (S c) {n. n < length (ctors \<sigma>0)}"
    and d: "d < length (dcors \<sigma>0)" and I: "running E \<sigma>0 \<sigma>"
  shows "running E \<sigma>0 (snd (dcorCall E cC cD d s \<sigma>))"
proof -
  have "params_for (fn_type (dn_dcor (dcor_of \<sigma>0 d))) (dn_params (dcor_of \<sigma> d))"
    using running_dcor_typed(1,2) [OF I d] by (simp add: typed_dcor_def)
  moreover have "dn_s (dcor_of \<sigma> d) < length (scopes \<sigma>0)"
    using well_indexed_dcor [OF runningD(5) [OF I]] running_dcor_typed(4) [OF I d] runningD(6) [OF I] by simp
  ultimately have "triple (running E \<sigma>0) (bindS (wrapS w (BuildList E cC cD (dn_params (dcor_of \<sigma> d)) (dn_s (dcor_of \<sigma> d)))) (dcorRun E d s))
      (\<lambda>_. running E \<sigma>0) (running E \<sigma>0)" for w
    using ok by (intro running_args triple_dcorRun [OF d])
  from triple_snd [OF this running_setState [OF I]] I running_setState [OF I] show ?thesis
    by (simp add: dcorCall_def Let_def split: option.split)
qed

lemma running_calls:
  "c < length (scopes \<sigma>0) \<Longrightarrow>
   calls_fine True (running E \<sigma>0) (callC E k) (callD E k) c (storesToRoot \<sigma>0 c) {n. n < length (ctors \<sigma>0)}"
proof (induction k arbitrary: c)
  case (Suc k)
  show ?case unfolding calls_fine_def
  proof (intro allI impI ballI conjI)
    fix \<sigma> n assume I: "running E \<sigma>0 \<sigma>" and "n \<in> {n. n < length (ctors \<sigma>0)}"
    then have n: "n < length (ctors \<sigma>0)" by simp
    have c': "cn_origS (ctor_of \<sigma> n) < length (scopes \<sigma>0)"
      using well_indexed_ctor(2) [OF runningD(5) [OF I]] n by (simp add: runningD(6,7) [OF I])
    from running_ctorCall [OF Suc.IH [OF c'] c' n I]
    show "fine_at True (running E \<sigma>0) \<sigma> (callC E (Suc k) n (cn_origS (ctor_of \<sigma> n)))" by (simp add: fine_at_def)
  next
    fix \<sigma> s key d assume I: "running E \<sigma>0 \<sigma>" and s: "s \<in> set (storesToRoot \<sigma>0 c)" and key: "getDecorators \<sigma> s key = Some d"
    have "s < length (scopes \<sigma>)"
      using storesToRoot_less [OF well_indexed_tree [OF runningD(1) [OF I]] Suc.prems s] by (simp add: runningD(6) [OF I])
    from getDecorators_less [OF runningD(5) [OF I] this key] have d: "d < length (dcors \<sigma>0)" by (simp add: runningD(8) [OF I])
    from running_dcorCall [OF Suc.IH d I]
    show "fine_at True (running E \<sigma>0) \<sigma> (callD E (Suc k) d s)" by (simp add: fine_at_def)
  next
    fix \<sigma> assume I: "running E \<sigma>0 \<sigma>"
    from static_storesToRoot [OF runningD(3) [OF I] well_indexed_tree [OF runningD(1) [OF I]] Suc.prems]
    show "storesToRoot \<sigma> c = storesToRoot \<sigma>0 c" .
    show "running E \<sigma>0 (upd_scope s (\<lambda>sc. sc\<lparr>rand := Suc (rand sc)\<rparr>) \<sigma>)" for s
      using running_cb.R_rand [of E \<sigma>0 \<sigma> s] I by (simp add: keeps_running_def)
  qed
next
  case 0
  show ?case unfolding calls_fine_def
  proof (intro allI impI ballI conjI)
    fix \<sigma> assume I: "running E \<sigma>0 \<sigma>"
    from static_storesToRoot [OF runningD(3) [OF I] well_indexed_tree [OF runningD(1) [OF I]] 0]
    show "storesToRoot \<sigma> c = storesToRoot \<sigma>0 c" .
    show "running E \<sigma>0 (upd_scope s (\<lambda>sc. sc\<lparr>rand := Suc (rand sc)\<rparr>) \<sigma>)" for s
      using running_cb.R_rand [of E \<sigma>0 \<sigma> s] I by (simp add: keeps_running_def)
  qed (simp_all add: fine_at_def)
qed

subsection \<open>Every run of the container\<close>

definition same_fns :: "store \<Rightarrow> store \<Rightarrow> bool" where
  "same_fns \<sigma> \<sigma>' \<longleftrightarrow> (\<exists>cs. map cn_ctor (ctors \<sigma>') = map cn_ctor (ctors \<sigma>) @ cs) \<and>
     (\<exists>ds. map dn_dcor (dcors \<sigma>') = map dn_dcor (dcors \<sigma>) @ ds)"

definition keeps_typed :: "env \<Rightarrow> store \<Rightarrow> store \<Rightarrow> bool" where
  "keeps_typed E \<sigma> \<sigma>' \<longleftrightarrow> (well_indexed \<sigma> \<longrightarrow> well_indexed \<sigma>' \<and> same_fns \<sigma> \<sigma>' \<and>
     (typed \<sigma> \<and> honest_env E \<sigma>' \<longrightarrow> typed \<sigma>'))"

lemma honest_env_fns:
  "honest_env E \<sigma> \<longleftrightarrow> (\<forall>s k n. set (env_perm E s k n) \<subseteq> {..<n}) \<and> (\<forall>f \<in> set (map cn_ctor (ctors \<sigma>)). honest E f) \<and>
     (\<forall>f \<in> set (map dn_dcor (dcors \<sigma>)). honest E f)"
  by (simp add: honest_env_def)

lemma same_fns_refl: "same_fns \<sigma> \<sigma>"
  by (simp add: same_fns_def)

lemma same_fns_trans: "same_fns \<sigma>1 \<sigma>2 \<Longrightarrow> same_fns \<sigma>2 \<sigma>3 \<Longrightarrow> same_fns \<sigma>1 \<sigma>3"
  unfolding same_fns_def by (metis append.assoc)

lemma honest_env_back: "honest_env E \<sigma>' \<Longrightarrow> same_fns \<sigma> \<sigma>' \<Longrightarrow> honest_env E \<sigma>"
  unfolding honest_env_fns same_fns_def by (elim conjE exE, simp only: set_append ball_Un, blast)

lemma same_fns_static:
  assumes eq: "static \<sigma>' = static \<sigma>"
  shows "same_fns \<sigma> \<sigma>'"
proof -
  have "map cn_ctor (ctors \<sigma>') = map cn_ctor (ctors \<sigma>)" and "map dn_dcor (dcors \<sigma>') = map dn_dcor (dcors \<sigma>)"
    using static_fn(1,2) [OF eq] static_lengths [OF eq] by (simp_all add: list_eq_iff_nth_eq)
  then show ?thesis by (simp add: same_fns_def)
qed

lemma typed_registering:
  assumes reg: "registering \<sigma> \<sigma>'" and typed: "typed \<sigma>"
  shows "typed \<sigma>'"
proof -
  from reg obtain cs ds where new: "ctors \<sigma>' = ctors \<sigma> @ cs" "dcors \<sigma>' = dcors \<sigma> @ ds"
    "\<forall>c \<in> set cs. typed_ctor c" "\<forall>d \<in> set ds. typed_dcor d" and log: "log \<sigma>' = log \<sigma>"
    and contents: "map contents (scopes \<sigma>') = map contents (scopes \<sigma>)"
    by (auto simp: registering_def fresh_ctor_def)
  have "typed_contents sc" if "sc \<in> set (scopes \<sigma>')" for sc
  proof -
    from that have "contents sc \<in> set (map contents (scopes \<sigma>))" unfolding contents [symmetric] by (simp del: contents_def)
    then obtain sc' where "sc' \<in> set (scopes \<sigma>)" "contents sc = contents sc'" by (auto simp del: contents_def)
    with typed show ?thesis by (simp add: typed_def typed_contents_def)
  qed
  moreover have "typed_event \<sigma>' ev" if "typed_event \<sigma> ev" for ev
    by (rule typed_event_cong [OF _ _ that]) (simp_all add: new)
  ultimately show ?thesis using typed new by (auto simp: typed_def log)
qed

lemma typed_ScopeScope:
  assumes s: "s < length (scopes \<sigma>)"
  shows "same_fns \<sigma> (snd (ScopeScope s name \<sigma>))" and "typed \<sigma> \<Longrightarrow> typed (snd (ScopeScope s name \<sigma>))"
proof -
  let ?\<sigma>' = "snd (ScopeScope s name \<sigma>)"
  note frame = ScopeScope_frame [where s = s and name = name and \<sigma> = \<sigma>]
  have ctor: "typed_ctor (ctor_of ?\<sigma>' n) = typed_ctor (ctor_of \<sigma> n) \<and> cn_ctor (ctor_of ?\<sigma>' n) = cn_ctor (ctor_of \<sigma> n)"
    if "n < length (ctors \<sigma>)" for n
    using frame(9) [OF that] by (auto simp: typed_ctor_def)
  have fns: "map cn_ctor (ctors ?\<sigma>') = map cn_ctor (ctors \<sigma>)"
    using ctor frame(8) by (simp add: list_eq_iff_nth_eq)
  then show "same_fns \<sigma> ?\<sigma>'" by (simp add: same_fns_def frame(6))
  assume typed: "typed \<sigma>"
  have "typed_event ?\<sigma>' ev" if "typed_event \<sigma> ev" for ev
    by (rule typed_event_cong [OF _ _ that, of _ "[]" "[]"]) (simp_all add: fns frame(6))
  moreover have "typed_contents sc" if "sc \<in> set (scopes ?\<sigma>')" for sc
    using that typed s set_update_subset_insert [of "scopes \<sigma>" s]
    by (fastforce simp: ScopeScope_scopes typed_def typed_contents_def newScope_def)
  moreover have "typed_ctor c" if "c \<in> set (ctors ?\<sigma>')" for c
  proof -
    from that obtain n where n: "n < length (ctors \<sigma>)" "c = ctor_of ?\<sigma>' n" by (auto simp: in_set_conv_nth frame(8))
    with ctor [OF n(1)] typed nth_mem [OF n(1)] show ?thesis by (simp add: typed_def)
  qed
  ultimately show "typed ?\<sigma>'" using typed by (simp add: typed_def frame(6,7))
qed

interpretation typed_api: api_frame "keeps_typed E" E for E
proof
  show "keeps_typed E \<sigma> \<sigma>" for E \<sigma> by (simp add: keeps_typed_def same_fns_refl)
  show "keeps_typed E \<sigma>1 \<sigma>3" if "keeps_typed E \<sigma>1 \<sigma>2" "keeps_typed E \<sigma>2 \<sigma>3" for E \<sigma>1 \<sigma>2 \<sigma>3
    using that same_fns_trans [of \<sigma>1 \<sigma>2 \<sigma>3] honest_env_back [of E \<sigma>3 \<sigma>2] by (auto simp: keeps_typed_def)
  show "keeps_typed E \<sigma> \<sigma>'" if "registering \<sigma> \<sigma>'" for E \<sigma> \<sigma>'
    using that typed_registering [OF that] registering_wf [OF that] by (auto simp: keeps_typed_def same_fns_def registering_def)
  show "keeps_typed E \<sigma> (snd (BuildList E (callC E k) (callD E k) pl c \<sigma>))"
    if "well_indexed \<sigma>" and c: "c < length (scopes \<sigma>)" for E \<sigma> k pl c
  proof -
    let ?\<sigma>' = "snd (BuildList E (callC E k) (callD E k) pl c \<sigma>)"
    have eq: "static ?\<sigma>' = static \<sigma>" using static_calls.keeps_BuildList_calls by (simp add: keeps_def same_static_def)
    have "typed ?\<sigma>'" if "typed \<sigma>" "honest_env E ?\<sigma>'"
    proof -
      have I: "running E \<sigma> \<sigma>"
        using that \<open>well_indexed \<sigma>\<close> honest_env_back [OF that(2) same_fns_static [OF eq]] by (simp add: running_def)
      have "fine True (running E \<sigma>) (BuildList E (callC E k) (callD E k) pl c)"
        by (rule fine_BuildList [OF running_calls [OF c]]) (rule running_callees [OF _ c])
      from fineD [OF this I] show ?thesis by (simp add: fine_at_def runningD(4))
    qed
    with well_indexed_static [OF eq that(1)] same_fns_static [OF eq] show ?thesis by (simp add: keeps_typed_def)
  qed
  show "keeps_typed E \<sigma> (snd (invokeRun E s f args \<sigma>))" for E \<sigma> s f args
  proof -
    let ?\<sigma>' = "snd (invokeRun E s f args \<sigma>)"
    have ev: "?\<sigma>' = \<sigma> \<or> ?\<sigma>' = emit (EvCall ByInvoke (fn_id f) args) \<sigma>"
      unfolding snd_invokeRun by (rule snd_invoke_fn)
    then have eq: "static ?\<sigma>' = static \<sigma>" by auto
    have "typed (emit (EvCall ByInvoke (fn_id f) args) \<sigma>)" if "typed \<sigma>"
    proof -
      have "typed_event (emit (EvCall ByInvoke (fn_id f) args) \<sigma>) ev'" if "typed_event \<sigma> ev'" for ev'
        by (rule typed_event_cong [OF _ _ that, of _ "[]" "[]"]) (simp_all add: emit_def)
      with that show ?thesis by (auto simp: typed_def emit_def)
    qed
    with ev well_indexed_static [OF eq] same_fns_static [OF eq] show ?thesis by (auto simp: keeps_typed_def)
  qed
  show "keeps_typed E \<sigma> (snd (ScopeScope s name \<sigma>))" if "well_indexed \<sigma>" "s < length (scopes \<sigma>)" for E \<sigma> s name
    using typed_ScopeScope [OF that(2)] well_indexed_ScopeScope [OF that] by (simp add: keeps_typed_def)
qed

lemma typed_New: "typed (New opts)"
proof -
  have "ctors (New opts) = [] \<and> dcors (New opts) = [] \<and> log (New opts) = [] \<and> (\<forall>sc \<in> set (scopes (New opts)). typed_contents sc)"
    unfolding New_def
  proof (rule fold_invariant, goal_cases)
    case (2 opt \<sigma>)
    then have "typed \<sigma>" by (simp add: typed_def)
    then have "typed (applyOption opt \<sigma>)"
      by (cases opt rule: Option.exhaust) (auto intro!: typed_upd_scope simp: typed_contents_def)
    moreover have "ctors (applyOption opt \<sigma>) = ctors \<sigma> \<and> dcors (applyOption opt \<sigma>) = dcors \<sigma> \<and> log (applyOption opt \<sigma>) = log \<sigma>"
      by (cases opt rule: Option.exhaust) simp_all
    ultimately show ?case using 2(2) by (simp add: typed_def)
  qed (simp add: empty_store_def newScope_def typed_contents_def)
  then show ?thesis by (simp add: typed_def)
qed

lemma reachable_typed:
  assumes "reachable E \<sigma>" and "honest_env E \<sigma>"
  shows "typed \<sigma>"
proof -
  from assms(1) obtain opts where "api_run E (New opts) \<sigma>" by (auto simp: reachable_def)
  from typed_api.R_run [OF this well_indexed_New] assms(2) typed_New [of opts] well_indexed_New [of opts]
  show ?thesis by (simp add: keeps_typed_def)
qed

lemma fnOf_types: "outs (fn_type (fnOf i is os)) = os" "argTypes (fn_type (fnOf i is os)) = is" "fn_id (fnOf i is os) = i"
  by (simp_all add: fnOf_def funcT_def outs_def argTypes_def ins_def IsVariadic_def)

lemma demo_honest: "honest_env demoE demo3"
proof -
  have fns: "map cn_ctor (ctors demo3) = [fnOf 1 [] [intT]]" "map dn_dcor (dcors demo3) = [fnOf 2 [intT] [intT]]" by code_simp+
  show ?thesis unfolding honest_env_fns fns by (auto simp: demoE_def honest_def fnOf_types)
qed



end
