(* ===== verification/Caching.thy ===== *)
theory Caching
  imports Soundness Staging
begin

text \<open>
  The values that scopes hold: exactly those of the constructors that have completed. The results of a
  constructor are read off its type by \<open>newResultList\<close> (src/result.go), written by \<open>Extract\<close> when it
  has run (src/constructor.go) and looked up by \<open>getValue\<close> (src/scope.go); this theory ties the three
  together, for every run of the container.
\<close>

subsection \<open>The keys that extracting results writes\<close>

definition written :: "write list \<Rightarrow> key set" where
  "written ws = {k. \<exists>v. WValue k v \<in> set ws}"

lemma written_simps [simp]:
  "written [] = {}" "written (WValue k v # ws) = insert k (written ws)" "written (WGroup k v # ws) = written ws"
  "written (ws @ ws') = written ws \<union> written ws'"
  by (auto simp: written_def)

definition writes_keys :: "key set \<Rightarrow> (write list, unit) eff \<Rightarrow> bool" where
  "writes_keys K m \<longleftrightarrow> (\<forall>ws ws'. m ws = (Ret (), ws') \<longrightarrow> written ws' = written ws \<union> K)"

lemma writes_keys_bindS: "writes_keys K m \<Longrightarrow> writes_keys L m' \<Longrightarrow> writes_keys (K \<union> L) (bindS m (\<lambda>_. m'))"
  unfolding writes_keys_def bindS_def by (auto split: prod.splits res.splits)

lemma writes_keys_throwS: "writes_keys K (throwS e)" and writes_keys_panicS: "writes_keys K (panicS p)"
  and writes_keys_retS: "writes_keys {} (retS ())"
  by (simp_all add: writes_keys_def)

lemma writes_keys_forS: "(\<And>x. x \<in> set xs \<Longrightarrow> writes_keys (K x) (f x)) \<Longrightarrow> writes_keys (\<Union>x \<in> set xs. K x) (forS f xs)"
  by (induction xs) (auto simp del: retS_app intro!: writes_keys_bindS writes_keys_retS)

lemma writes_keys_tracer:
  "writes_keys {value_key name t} (cwSetValue tracer name t v)" "writes_keys {} (cwSubmitGroupedValue tracer name t v)"
  by (auto simp: writes_keys_def tracer_def)

abbreviation value_keys :: "result \<Rightarrow> key set" where
  "value_keys r \<equiv> {k. (True, k) \<in> set (result_keys r)}"

lemma writes_keys_Extract: "writes_keys (value_keys r) (Extract tracer r False v)"
proof (induction tracer r False v rule: Extract.induct)
  case (1 name t as v)
  have "value_keys (resultSingle name t as) = {value_key name t} \<union> (\<Union>u \<in> set as. {value_key name u})" by auto
  then show ?case
    by (simp only: Extract.simps if_False) (intro writes_keys_bindS writes_keys_forS writes_keys_tracer)
next
  case (2 t fs v)
  have eq: "value_keys (resultObject t fs) = (\<Union>f \<in> set fs. value_keys (rofResult f))" by auto
  show ?case unfolding Extract.simps eq
    by (rule writes_keys_forS) (auto split: option.split intro: writes_keys_panicS 2)
next
  case (3 g t flatten as v)
  have "writes_keys {} (bindS (cwSubmitGroupedValue tracer g t v) (\<lambda>_. forS (\<lambda>a. cwSubmitGroupedValue tracer g a v) as))"
    using writes_keys_bindS [OF writes_keys_tracer(2) writes_keys_forS [OF writes_keys_tracer(2)]] by simp
  moreover have "writes_keys {} (forS (cwSubmitGroupedValue tracer g t) vs)" for vs
    using writes_keys_forS [OF writes_keys_tracer(2)] by simp
  moreover have "value_keys (resultGrouped g t flatten as) = {}" by auto
  ultimately show ?case
    by (simp only: Extract.simps) (simp add: writes_keys_panicS split: option.split)
qed

abbreviation list_value_keys :: "resultList \<Rightarrow> key set" where
  "list_value_keys rl \<equiv> {k. (True, k) \<in> set (list_keys rl)}"

lemma indexed_results:
  assumes "results_for ctype rl"
  shows "(\<Union>i \<in> {i \<in> set (resultIndexes rl). 0 \<le> i}. K (Results rl ! nat i)) = (\<Union>r \<in> set (Results rl). K r)"
proof -
  have "{i \<in> set (resultIndexes rl). 0 \<le> i} = set (filter (\<lambda>i. 0 \<le> i) (resultIndexes rl))" by simp
  also have "\<dots> = int ` {..<length (Results rl)}" using assms by (simp add: results_for_def lessThan_atLeast0)
  finally show ?thesis by (auto simp: set_conv_nth)
qed

text \<open>Extracting as many values as the constructor has results writes every value key of the results.\<close>

lemma ExtractList_written:
  assumes rl: "results_for ctype rl" and len: "length vs = length (outs ctype)"
    and run: "ExtractList tracer rl False vs [] = (Ret (), ws)"
  shows "written ws = list_value_keys rl"
proof -
  define K where "K i = (if 0 \<le> i then value_keys (Results rl ! nat i) else {})" for i
  have ri: "length (resultIndexes rl) = length vs" using rl len by (simp add: results_for_def)
  have "writes_keys (\<Union>x \<in> set (enumerate 0 vs). K (resultIndexes rl ! fst x)) (ExtractList tracer rl False vs)"
    unfolding ExtractList_def
  proof (rule writes_keys_forS)
    fix x assume "x \<in> set (enumerate 0 vs)"
    then have "fst x < length (resultIndexes rl)" by (auto simp: in_set_enumerate_eq ri)
    then show "writes_keys (K (resultIndexes rl ! fst x)) (case x of (i, v) \<Rightarrow>
        if length (resultIndexes rl) \<le> i then panicS (VRuntime ''index out of range'')
        else let resultIdx = resultIndexes rl ! i
          in if 0 \<le> resultIdx then Extract tracer (Results rl ! nat resultIdx) False v
             else if v = VNone then panicS (VRuntime ''reflect: call of Interface on zero Value'')
             else (case asError v of Some e \<Rightarrow> throwS e | None \<Rightarrow> retS ()))"
      by (cases x rule: prod.exhaust)
        (auto simp: K_def Let_def simp del: retS_app split: option.split
          intro: writes_keys_Extract writes_keys_panicS writes_keys_throwS writes_keys_retS)
  qed
  moreover have "(\<Union>x \<in> set (enumerate 0 vs). K (resultIndexes rl ! fst x)) = (\<Union>i \<in> set (resultIndexes rl). K i)"
  proof -
    have "(\<Union>x \<in> set (enumerate 0 vs). K (resultIndexes rl ! fst x)) =
        \<Union> (K ` (\<lambda>x. resultIndexes rl ! fst x) ` set (enumerate 0 vs))" by (simp only: image_image)
    also have "(\<lambda>x. resultIndexes rl ! fst x) ` set (enumerate 0 vs) = set (map ((!) (resultIndexes rl)) (map fst (enumerate 0 vs)))"
      by (simp only: set_map image_image)
    also have "\<dots> = set (resultIndexes rl)" by (simp add: ri [symmetric] map_nth)
    finally show ?thesis .
  qed
  moreover have "(\<Union>i \<in> set (resultIndexes rl). K i) = (\<Union>i \<in> {i \<in> set (resultIndexes rl). 0 \<le> i}. value_keys (Results rl ! nat i))"
    by (auto simp: K_def split: if_splits)
  moreover have "\<dots> = list_value_keys rl"
    using indexed_results [OF rl, of "\<lambda>r. value_keys r"] by (auto simp: list_keys_def)
  ultimately show ?thesis using run by (simp add: writes_keys_def)
qed

lemma dom_fold_put: "dom (fst (fold put ws C)) = dom (fst C) \<union> written ws"
proof (induction ws arbitrary: C)
  case (Cons w ws)
  have "dom (fst (put w C)) = dom (fst C) \<union> written [w]" by (cases w; cases C) auto
  with Cons show ?case by (cases w) auto
qed simp

subsection \<open>The invariant\<close>

text \<open>The value keys of the constructors of a scope that have completed, and what the scope holds.\<close>

definition produced :: "store \<Rightarrow> nat \<Rightarrow> key set" where
  "produced \<sigma> s = {k. \<exists>n < length (ctors \<sigma>). cn_called (ctor_of \<sigma> n) \<and> cn_s (ctor_of \<sigma> n) = s \<and>
     (True, k) \<in> set (list_keys (cn_resultList (ctor_of \<sigma> n)))}"

definition cached :: "store \<Rightarrow> bool" where
  "cached \<sigma> \<longleftrightarrow> (\<forall>s < length (scopes \<sigma>). dom (map_of (sc_values (scope_of \<sigma> s))) = produced \<sigma> s)"

text \<open>Code that neither writes values nor changes constructors.\<close>

definition same_cache :: "store \<Rightarrow> store \<Rightarrow> bool" where
  "same_cache \<sigma> \<sigma>' \<longleftrightarrow> ctors \<sigma>' = ctors \<sigma> \<and> map sc_values (scopes \<sigma>') = map sc_values (scopes \<sigma>)"

lemma same_values:
  assumes "map sc_values (scopes \<sigma>') = map sc_values (scopes \<sigma>)"
  shows "length (scopes \<sigma>') = length (scopes \<sigma>)"
    and "s < length (scopes \<sigma>) \<Longrightarrow> sc_values (scope_of \<sigma>' s) = sc_values (scope_of \<sigma> s)"
  using assms by (rule map_eq_imp_length_eq) (metis assms length_map nth_map)

lemma cached_same: "same_cache \<sigma> \<sigma>' \<Longrightarrow> cached \<sigma> \<Longrightarrow> cached \<sigma>'"
  using same_values [of \<sigma>' \<sigma>] by (simp add: same_cache_def cached_def produced_def)

lemma same_cache_upd_scope: "(\<And>sc. sc_values (f sc) = sc_values sc) \<Longrightarrow> same_cache \<sigma> (upd_scope s f \<sigma>)"
  by (simp add: same_cache_def) (simp add: upd_scope_def map_list_update_same)

interpretation same_cache_cb: callback_relation same_cache
proof
  show "same_cache \<sigma> (upd_scope s (\<lambda>sc. sc\<lparr>rand := Suc (rand sc)\<rparr>) \<sigma>)" for s \<sigma>
    by (rule same_cache_upd_scope) simp
qed (auto simp: same_cache_def)

context state_relation
begin

lemma keeps_Extract_decorated:
  assumes "\<And>name t v. keeps R (cwSetDecoratedValue cw name t v)"
    and "\<And>name t v. keeps R (cwSubmitDecoratedGroupedValue cw name t v)"
  shows "keeps R (Extract cw r True v)"
  using assms
proof (induction cw r True v rule: Extract.induct)
  case (2 cw t fs v)
  have "keeps R (case valueField v (rofIndex f) of
      Some x \<Rightarrow> Extract cw (rofResult f) True x
    | None \<Rightarrow> panicS (VRuntime ''reflect: Field of non-struct type''))" if "f \<in> set fs" for f
    using 2 that by (cases "valueField v (rofIndex f)") (simp_all add: keeps_panicS)
  then show ?case unfolding Extract.simps by (rule keeps_forS)
qed simp_all

end

lemma same_cache_dcorRun: "keeps same_cache (dcorRun E d s args)"
proof (rule same_cache_cb.keeps_dcorRun)
  show "keeps same_cache (invoke_fn E ivk (ByDecorator d) f args)" for ivk f args
    using nodes_of_invoke_fn by (simp add: keeps_def same_cache_def nodes_of_def)
  have "keeps same_cache (cwSetDecoratedValue (scopeWriter t) name u v)"
    "keeps same_cache (cwSubmitDecoratedGroupedValue (scopeWriter t) name u v)" for t name u v
    by (auto simp: scopeWriter_def setDecoratedValue_def submitDecoratedGroupedValue_def
        intro!: same_cache_cb.keeps_doS same_cache_upd_scope)
  then have "keeps same_cache (bindS (ExtractList (scopeWriter t) rl True vs) (\<lambda>_. doS (setState d decoratorCalled)))"
    for t rl vs
    by (intro same_cache_cb.keeps_bindS same_cache_cb.keeps_ExtractList same_cache_cb.keeps_Extract_decorated
        same_cache_cb.keeps_doS) (simp_all add: same_cache_def)
  then show "keeps same_cache (dcorFinish d vs)" for vs
    unfolding dcorFinish_def Let_def keeps_def by blast
qed

text \<open>A constructor that completes adds its keys to what its scope holds.\<close>

lemma cached_publishes:
  assumes cached: "cached \<sigma>" and n: "n < length (ctors \<sigma>)" and rl: "results_for ctype (cn_resultList (ctor_of \<sigma> n))"
    and len: "length vs = length (outs ctype)" and pub: "publishes (ctor_of \<sigma> n) n vs \<sigma> \<sigma>'"
    and scopes: "length (scopes \<sigma>') = length (scopes \<sigma>)"
  shows "cached \<sigma>'"
proof -
  let ?N = "ctor_of \<sigma> n"
  from pub obtain ws where ws: "ExtractList tracer (cn_resultList ?N) False vs [] = (Ret (), ws)"
    and here: "scope_contents (cn_s ?N) \<sigma>' = fold put ws (scope_contents (cn_s ?N) \<sigma>)"
    and there: "\<And>t. t \<noteq> cn_s ?N \<Longrightarrow> scope_of \<sigma>' t = scope_of \<sigma> t"
    and ctors: "ctors \<sigma>' = (ctors \<sigma>)[n := ?N\<lparr>cn_called := True\<rparr>]" by (auto simp: publishes_def)
  have produced: "produced \<sigma>' s = produced \<sigma> s \<union> (if s = cn_s ?N then list_value_keys (cn_resultList ?N) else {})" for s
    using n by (auto simp: produced_def ctors nth_list_update split: if_splits)
  have "dom (map_of (sc_values (scope_of \<sigma>' s))) = produced \<sigma>' s" if s: "s < length (scopes \<sigma>)" for s
  proof (cases "s = cn_s ?N")
    case True
    have "dom (map_of (sc_values (scope_of \<sigma>' s))) = dom (fst (scope_contents (cn_s ?N) \<sigma>'))"
      by (simp add: True scope_contents_def)
    also have "\<dots> = dom (map_of (sc_values (scope_of \<sigma> s))) \<union> list_value_keys (cn_resultList ?N)"
      unfolding here dom_fold_put by (simp add: ExtractList_written [OF rl len ws] True scope_contents_def)
    also have "\<dots> = produced \<sigma>' s" using cached s True by (simp add: cached_def produced)
    finally show ?thesis .
  next
    case False
    then show ?thesis using there cached s by (simp add: cached_def produced)
  qed
  then show ?thesis by (simp add: cached_def scopes)
qed

subsection \<open>Every run of the container\<close>

definition caching :: "env \<Rightarrow> store \<Rightarrow> store \<Rightarrow> bool" where
  "caching E \<sigma>0 \<sigma> \<longleftrightarrow> well_indexed \<sigma>0 \<and> honest_env E \<sigma>0 \<and> (\<forall>c \<in> set (ctors \<sigma>0). typed_ctor c) \<and>
     static \<sigma> = static \<sigma>0 \<and> cached \<sigma>"

lemma caching_step: "caching E \<sigma>0 \<sigma> \<Longrightarrow> same_static \<sigma> \<sigma>' \<Longrightarrow> same_cache \<sigma> \<sigma>' \<Longrightarrow> caching E \<sigma>0 \<sigma>'"
  using cached_same by (simp add: caching_def same_static_def)

lemma invoke_fn_length:
  assumes "honest E f" and "fst (invoke_fn E ivk who f args \<sigma>) = Ret vs"
  shows "length vs = length (outs (fn_type f))"
  using assms by (fastforce simp: invoke_fn_def honest_def dest: list_all2_lengthD split: invoker.splits outcome.splits if_splits)

lemma caching_ctorRun:
  assumes n: "n < length (ctors \<sigma>0)"
  shows "fine True (caching E \<sigma>0) (ctorRun E n c args)"
proof (rule fineI)
  fix \<sigma> assume I: "caching E \<sigma>0 \<sigma>"
  let ?N = "ctor_of \<sigma> n"
  from I have st: "static \<sigma> = static \<sigma>0" and wf: "well_indexed \<sigma>0" by (simp_all add: caching_def)
  have n': "n < length (ctors \<sigma>)" and len: "length (scopes \<sigma>) = length (scopes \<sigma>0)" using n static_lengths [OF st] by simp_all
  have s: "cn_s ?N < length (scopes \<sigma>)" using well_indexed_ctor(1) [OF well_indexed_static [OF st wf] n'] .
  have N: "cn_ctor ?N = cn_ctor (ctor_of \<sigma>0 n)" "cn_resultList ?N = cn_resultList (ctor_of \<sigma>0 n)"
    using arg_cong [OF static_nth(2) [OF st n], of cn_ctor] arg_cong [OF static_nth(2) [OF st n], of cn_resultList]
    by (simp_all add: static_ctor_def)
  have honest: "honest E (cn_ctor ?N)" and rl: "results_for (fn_type (cn_ctor ?N)) (cn_resultList ?N)"
    using I n by (simp_all add: N caching_def honest_env_def typed_ctor_def)
  obtain r \<sigma>' where run: "ctorRun E n c args \<sigma> = (r, \<sigma>')" by fastforce
  have st': "static \<sigma>' = static \<sigma>" using keeps_app [OF static_ctorRun, of \<sigma> E n c args] by (simp add: run same_static_def)
  have "cached \<sigma>'"
  proof (cases "r = Ret ()")
    case True
    with ctorRun_outcome [OF s run] obtain vs \<sigma>1 where
      "fst (invoke_fn E (invokerFn (scope_of \<sigma> c)) (ByCtor n) (cn_ctor ?N) args \<sigma>1) = Ret vs"
      and pub: "publishes ?N n vs \<sigma> \<sigma>'" by auto
    from cached_publishes [OF _ n' rl invoke_fn_length [OF honest this(1)] pub static_lengths(1) [OF st']] I
    show ?thesis by (simp add: caching_def)
  next
    case False
    with ctorRun_outcome [OF s run] have "same_cache \<sigma> \<sigma>'" by (simp add: nodes_of_def same_cache_def)
    with I cached_same show ?thesis by (simp add: caching_def)
  qed
  with I st' show "fine_at True (caching E \<sigma>0) \<sigma> (ctorRun E n c args)" by (simp add: fine_at_def run caching_def)
qed

interpretation caching_run: run_invariant "caching E \<sigma>0" \<sigma>0 E for E \<sigma>0
proof
  show "fine True (caching E \<sigma>0) (ctorRun E n (cn_origS (ctor_of \<sigma>0 n)) args)" if "n < length (ctors \<sigma>0)" for n args
    by (rule caching_ctorRun [OF that])
  show "caching E \<sigma>0 (upd_scope s (\<lambda>sc. sc\<lparr>rand := Suc (rand sc)\<rparr>) \<sigma>)" if "caching E \<sigma>0 \<sigma>" for \<sigma> s
    by (rule caching_step [OF that]) (auto intro: same_cache_upd_scope simp: same_static_def static_upd_scope static_scope_def)
  fix \<sigma> d s k
  assume I: "caching E \<sigma>0 \<sigma>" and d: "d < length (dcors \<sigma>0)" and ready: "dn_state (dcor_of \<sigma> d) = decoratorReady"
    and args: "\<And>pl c. c < length (scopes \<sigma>0) \<Longrightarrow> fine True (caching E \<sigma>0) (BuildList E (callC E k) (callD E k) pl c)"
  have st: "static \<sigma> = static \<sigma>0" and wf: "well_indexed \<sigma>0" using I by (simp_all add: caching_def)
  have "dn_s (dcor_of \<sigma> d) < length (scopes \<sigma>0)"
    using static_dcor_eq(1) [OF static_nth(3) [OF st d]] well_indexed_dcor [OF wf d] by simp
  moreover have "caching E \<sigma>0 (setState d decoratorOnStack \<sigma>)"
    by (rule caching_step [OF I]) (simp_all add: same_static_def same_cache_def)
  moreover have "fine_at True (caching E \<sigma>0) \<sigma>' (dcorRun E d s as)" if "caching E \<sigma>0 \<sigma>'" for as \<sigma>'
    using caching_step [OF that] keeps_app [OF static_dcorRun] keeps_app [OF same_cache_dcorRun] by (simp add: fine_at_def)
  ultimately show "fine_at True (caching E \<sigma>0) \<sigma> (callD E (Suc k) d s)"
    unfolding callD.simps by (intro fine_at_dcorCall_ready [where I = "caching E \<sigma>0"] ready args)
qed (simp_all add: caching_def)

definition keeps_cached :: "env \<Rightarrow> store \<Rightarrow> store \<Rightarrow> bool" where
  "keeps_cached E \<sigma> \<sigma>' \<longleftrightarrow> keeps_typed E \<sigma> \<sigma>' \<and>
     (well_indexed \<sigma> \<and> typed \<sigma> \<and> honest_env E \<sigma>' \<and> cached \<sigma> \<longrightarrow> cached \<sigma>')"

lemma keeps_cached_trans: "keeps_cached E \<sigma>1 \<sigma>2 \<Longrightarrow> keeps_cached E \<sigma>2 \<sigma>3 \<Longrightarrow> keeps_cached E \<sigma>1 \<sigma>3"
  using typed_api.R_trans [of E \<sigma>1 \<sigma>2 \<sigma>3] honest_env_back [of E \<sigma>3 \<sigma>2]
  unfolding keeps_cached_def by (auto simp: keeps_typed_def)

lemma cached_registering:
  assumes reg: "registering \<sigma> \<sigma>'" and "cached \<sigma>"
  shows "cached \<sigma>'"
proof -
  from reg have "map contents (scopes \<sigma>') = map contents (scopes \<sigma>)" by (simp add: registering_def del: contents_def)
  from arg_cong [OF this, of "map fst"] have "map sc_values (scopes \<sigma>') = map sc_values (scopes \<sigma>)" by (simp add: comp_def)
  note vals = same_values [OF this]
  from reg obtain cs where cs: "ctors \<sigma>' = ctors \<sigma> @ cs" "\<forall>c \<in> set cs. \<not> cn_called c"
    by (auto simp: registering_def fresh_ctor_def)
  have "n < length (ctors \<sigma>') \<and> cn_called (ctor_of \<sigma>' n) \<longleftrightarrow> n < length (ctors \<sigma>) \<and> cn_called (ctor_of \<sigma> n)" for n
    using cs by (auto simp: nth_append)
  then have "produced \<sigma>' s = produced \<sigma> s" for s
    using registering_nodes(3) [OF reg] unfolding produced_def by (metis (no_types, lifting))
  with assms(2) vals show ?thesis by (simp add: cached_def)
qed

lemma cached_ScopeScope:
  assumes wf: "well_indexed \<sigma>" and s: "s < length (scopes \<sigma>)" and "cached \<sigma>"
  shows "cached (snd (ScopeScope s name \<sigma>))"
proof -
  let ?\<sigma>' = "snd (ScopeScope s name \<sigma>)" and ?L = "length (scopes \<sigma>)"
  note frame = ScopeScope_frame [where s = s and name = name and \<sigma> = \<sigma>]
  have "cn_called (ctor_of ?\<sigma>' n) = cn_called (ctor_of \<sigma> n) \<and> cn_s (ctor_of ?\<sigma>' n) = cn_s (ctor_of \<sigma> n) \<and>
      cn_resultList (ctor_of ?\<sigma>' n) = cn_resultList (ctor_of \<sigma> n)" if "n < length (ctors \<sigma>)" for n
    using frame(9) [OF that] by auto
  then have produced: "produced ?\<sigma>' t = produced \<sigma> t" for t by (auto simp: produced_def frame(8))
  have "produced \<sigma> ?L = {}" using well_indexed_ctor(1) [OF wf] by (fastforce simp: produced_def)
  moreover have "sc_values (scope_of ?\<sigma>' ?L) = []" using s by (simp add: ScopeScope_scopes nth_append newScope_def)
  moreover have "sc_values (scope_of ?\<sigma>' t) = sc_values (scope_of \<sigma> t)" if "t < ?L" for t
    using frame(2) [OF that] by simp
  ultimately show ?thesis using assms(3) by (auto simp: cached_def frame(1) produced less_Suc_eq)
qed

interpretation cached_api: api_frame "keeps_cached E" E for E
proof
  show "keeps_cached E \<sigma> \<sigma>" for E \<sigma> by (simp add: keeps_cached_def typed_api.R_refl)
  show "keeps_cached E \<sigma>1 \<sigma>3" if "keeps_cached E \<sigma>1 \<sigma>2" "keeps_cached E \<sigma>2 \<sigma>3" for E \<sigma>1 \<sigma>2 \<sigma>3
    using that by (rule keeps_cached_trans)
  show "keeps_cached E \<sigma> \<sigma>'" if "well_indexed \<sigma>" "registering \<sigma> \<sigma>'" for E \<sigma> \<sigma>'
    using typed_api.R_registering [OF that] cached_registering [OF that(2)] by (simp add: keeps_cached_def)
  show "keeps_cached E \<sigma> (snd (BuildList E (callC E k) (callD E k) pl c \<sigma>))"
    if "well_indexed \<sigma>" "c < length (scopes \<sigma>)" for E \<sigma> k pl c
  proof -
    let ?\<sigma>' = "snd (BuildList E (callC E k) (callD E k) pl c \<sigma>)"
    have eq: "static ?\<sigma>' = static \<sigma>" using static_calls.keeps_BuildList_calls by (simp add: keeps_def same_static_def)
    have "cached ?\<sigma>'" if "typed \<sigma>" "honest_env E ?\<sigma>'" "cached \<sigma>"
    proof -
      have "caching E \<sigma> \<sigma>"
        using that \<open>well_indexed \<sigma>\<close> honest_env_back [OF that(2) same_fns_static [OF eq]] by (simp add: caching_def typed_def)
      from fineD [OF caching_run.fine_run [OF \<open>c < length (scopes \<sigma>)\<close>] this] show ?thesis
        by (simp add: fine_at_def caching_def)
    qed
    with typed_api.R_build [OF that] show ?thesis by (simp add: keeps_cached_def)
  qed
  show "keeps_cached E \<sigma> (snd (invokeRun E s f args \<sigma>))" if "well_indexed \<sigma>" "s < length (scopes \<sigma>)" for E \<sigma> s f args
  proof -
    have "same_cache \<sigma> (snd (invokeRun E s f args \<sigma>))"
      using nodes_of_invoke_fn by (simp add: snd_invokeRun same_cache_def nodes_of_def)
    with typed_api.R_invokeRun [OF that] cached_same show ?thesis by (simp add: keeps_cached_def)
  qed
  show "keeps_cached E \<sigma> (snd (ScopeScope s name \<sigma>))" if "well_indexed \<sigma>" "s < length (scopes \<sigma>)" for E \<sigma> s name
    using typed_api.R_scope [OF that] cached_ScopeScope [OF that] by (simp add: keeps_cached_def)
qed

lemma cached_New: "cached (New opts)"
proof -
  have "ctors (New opts) = [] \<and> map sc_values (scopes (New opts)) = [[]]"
    unfolding New_def
  proof (rule fold_invariant, goal_cases)
    case (2 opt \<sigma>)
    have "same_cache \<sigma> (applyOption opt \<sigma>)" by (cases opt rule: Option.exhaust) (auto intro: same_cache_upd_scope)
    with 2(2) show ?case by (simp add: same_cache_def)
  qed (simp add: empty_store_def newScope_def)
  then show ?thesis by (auto simp: cached_def produced_def)
qed

text \<open>
  C11: In every reachable container whose constructors return values of their result types, a scope holds a
  value under a key exactly when a constructor that was provided to the scope has completed and has the
  key among its results.
\<close>

theorem values_of_completed:
  assumes "reachable E \<sigma>" and "honest_env E \<sigma>" and s: "s < length (scopes \<sigma>)"
  shows "getValue \<sigma> s name t \<noteq> None \<longleftrightarrow>
    (\<exists>n < length (ctors \<sigma>). cn_called (ctor_of \<sigma> n) \<and> cn_s (ctor_of \<sigma> n) = s \<and>
       (True, value_key name t) \<in> set (list_keys (cn_resultList (ctor_of \<sigma> n))))"
proof -
  from assms(1) obtain opts where "api_run E (New opts) \<sigma>" by (auto simp: reachable_def)
  from cached_api.R_run [OF this well_indexed_New] assms(2) cached_New [of opts] typed_New [of opts] well_indexed_New [of opts]
  have "cached \<sigma>" by (simp add: keeps_cached_def)
  with s have "value_key name t \<in> dom (map_of (sc_values (scope_of \<sigma> s))) \<longleftrightarrow> value_key name t \<in> produced \<sigma> s"
    by (simp add: cached_def)
  then show ?thesis by (simp add: getValue_def produced_def dom_def)
qed

theorem values_of_completed_witness:
  "getValue demo3 0 [] intT \<noteq> None \<and> (True, value_key [] intT) \<in> set (list_keys (cn_resultList (ctor_of demo3 0)))"
proof -
  have ctor: "0 < length (scopes demo3)" "0 < length (ctors demo3) \<and> cn_called (ctor_of demo3 0) \<and> cn_s (ctor_of demo3 0) = 0 \<and>
    (True, value_key [] intT) \<in> set (list_keys (cn_resultList (ctor_of demo3 0)))" by code_simp+
  with values_of_completed [OF demo_reachable demo_honest ctor(1), of "[]" intT] show ?thesis by blast
qed

end
