(* ===== verification/Scoping.thy ===== *)
theory Scoping
  imports Demo
begin

text \<open>
  What \<open>Decorate\<close> registers (src/decorate.go) and what a child scope sees (src/scope.go).
\<close>

subsection \<open>Decorate\<close>

lemma getDecorators_upd:
  "s < length (scopes \<sigma>) \<Longrightarrow>
   getDecorators (setDecorator s k d \<sigma>) t k' = (if t = s \<and> k' = k then Some d else getDecorators \<sigma> t k')"
  by (simp add: getDecorators_def setDecorator_def scope_of_upd_scope)

lemma setDecorator_frame [simp, frame]:
  "length (scopes (setDecorator s k d \<sigma>)) = length (scopes \<sigma>)" "dcors (setDecorator s k d \<sigma>) = dcors \<sigma>"
  "ctors (setDecorator s k d \<sigma>) = ctors \<sigma>" "log (setDecorator s k d \<sigma>) = log \<sigma>"
  by (simp_all add: setDecorator_def)

lemma decorateKey_Ret:
  "decorateKey s d k \<sigma> = (Ret u, \<sigma>1) \<longleftrightarrow> getDecorators \<sigma> s k = None \<and> \<sigma>1 = setDecorator s k d \<sigma>"
  by (auto simp: decorateKey_def)

lemma forS_decorateKey:
  assumes "s < length (scopes \<sigma>)" and "forS (decorateKey s d) keys \<sigma> = (Ret (), \<sigma>')"
  shows "distinct keys \<and> (\<forall>k \<in> set keys. getDecorators \<sigma> s k = None) \<and>
    (\<forall>t k. getDecorators \<sigma>' t k = (if t = s \<and> k \<in> set keys then Some d else getDecorators \<sigma> t k)) \<and>
    dcors \<sigma>' = dcors \<sigma> \<and> ctors \<sigma>' = ctors \<sigma> \<and> log \<sigma>' = log \<sigma>"
  using assms
proof (induction keys arbitrary: \<sigma>)
  case (Cons k keys)
  from Cons.prems(2) have new: "getDecorators \<sigma> s k = None"
    and rest: "forS (decorateKey s d) keys (setDecorator s k d \<sigma>) = (Ret (), \<sigma>')"
    by (auto simp: bindS_eq_Ret decorateKey_Ret)
  from Cons.IH [OF _ rest] Cons.prems(1) new show ?case
    by (auto simp: getDecorators_upd split: if_splits)
qed simp

lemma newDecoratorNode_Ret:
  assumes "newDecoratorNode f s cb bcb \<sigma> = (Ret d, \<sigma>1)" and wf: "wf_tree \<sigma>" "s < length (scopes \<sigma>)"
  obtains node where "d = length (dcors \<sigma>)" and "dcors \<sigma>1 = dcors \<sigma> @ [node]" and "dn_dcor node = f" and "dn_s node = s"
    and "dn_state node = decoratorReady" and "dn_callback node = cb" and "dn_beforeCallback node = bcb"
    and "length (scopes \<sigma>1) = length (scopes \<sigma>)" and "ctors \<sigma>1 = ctors \<sigma>" and "log \<sigma>1 = log \<sigma>"
    and "\<forall>t < length (scopes \<sigma>). decorators (scope_of \<sigma>1 t) = decorators (scope_of \<sigma> t)"
proof -
  obtain params \<sigma>2 node where pl: "newParamList (fn_type f) s \<sigma> = (Ret params, \<sigma>2)"
    and d: "d = length (dcors \<sigma>2)" and \<sigma>1: "\<sigma>1 = \<sigma>2\<lparr>dcors := dcors \<sigma>2 @ [node]\<rparr>"
    and node: "dn_dcor node = f" "dn_s node = s" "dn_state node = decoratorReady" "dn_callback node = cb" "dn_beforeCallback node = bcb"
    using assms(1) unfolding newDecoratorNode_def bindS_eq_Ret by (auto simp: Let_def)
  have same: "sans_graph \<sigma>2 = sans_graph \<sigma>"
    using keepsD [OF keeps_newParamList pl] wf by (simp add: registers_def)
  show ?thesis
    by (rule that [of node])
      (use node d sans_graph_scopes [OF same] no_gh_eq(2) [OF sans_graph_scopes(2) [OF same]] in \<open>simp_all add: \<sigma>1\<close>)
qed

text \<open>
  C32: When \<open>Decorate\<close> succeeds, it has added one decorator, ready to run, and registered it in its scope
  for exactly the keys of its results; none of those keys had a decorator in that scope, and no other
  decorator registration, no constructor and no earlier decorator changed, and no user code ran.
\<close>

theorem Decorate_registers:
  assumes "reachable E \<sigma>" and s: "s < length (scopes \<sigma>)" and "Decorate s (IFunc f) opts \<sigma> = (Ret i, \<sigma>')"
  shows "\<exists>node keys. dcors \<sigma>' = dcors \<sigma> @ [node] \<and> dn_dcor node = f \<and> dn_s node = s \<and> dn_state node = decoratorReady \<and>
    findResultKeys (dn_results node) = Ret keys \<and> distinct keys \<and> (\<forall>k \<in> set keys. getDecorators \<sigma> s k = None) \<and>
    (\<forall>t < length (scopes \<sigma>). \<forall>k. getDecorators \<sigma>' t k =
       (if t = s \<and> k \<in> set keys then Some (length (dcors \<sigma>)) else getDecorators \<sigma> t k)) \<and>
    ctors \<sigma>' = ctors \<sigma> \<and> log \<sigma>' = log \<sigma>"
proof -
  note wf = well_indexed_tree [OF reachable_well_indexed [OF assms(1)]]
  obtain cb bcb d \<sigma>1 keys \<sigma>2 where new: "newDecoratorNode f s cb bcb \<sigma> = (Ret d, \<sigma>1)"
    and keys: "findResultKeys (dn_results (dcor_of \<sigma>1 d)) = Ret keys"
    and forS: "forS (decorateKey s d) keys \<sigma>1 = (Ret (), \<sigma>2)" and \<sigma>': "\<sigma>' = \<sigma>2"
    using assms(3) by (auto simp: Decorate_def Let_def bindS_eq_Ret)
  obtain node where node: "d = length (dcors \<sigma>)" "dcors \<sigma>1 = dcors \<sigma> @ [node]" "dn_dcor node = f" "dn_s node = s"
    "dn_state node = decoratorReady" "length (scopes \<sigma>1) = length (scopes \<sigma>)" "ctors \<sigma>1 = ctors \<sigma>" "log \<sigma>1 = log \<sigma>"
    "\<forall>t < length (scopes \<sigma>). decorators (scope_of \<sigma>1 t) = decorators (scope_of \<sigma> t)"
    by (rule newDecoratorNode_Ret [OF new wf s])
  have "getDecorators \<sigma>1 t k = getDecorators \<sigma> t k" if "t < length (scopes \<sigma>)" for t k
    using node(9) that by (simp add: getDecorators_def)
  with forS_decorateKey [OF _ forS] s node keys show ?thesis
    by (intro exI [of _ node] exI [of _ keys]) (simp add: \<sigma>')
qed

theorem Decorate_registers_witness:
  "\<exists>node keys. dcors demo2 = dcors demo1 @ [node] \<and> dn_dcor node = fnOf 2 [intT] [intT] \<and> dn_s node = 0 \<and>
    dn_state node = decoratorReady \<and> findResultKeys (dn_results node) = Ret keys \<and> distinct keys \<and>
    (\<forall>k \<in> set keys. getDecorators demo1 0 k = None) \<and>
    (\<forall>t < length (scopes demo1). \<forall>k. getDecorators demo2 t k =
       (if t = 0 \<and> k \<in> set keys then Some (length (dcors demo1)) else getDecorators demo1 t k)) \<and>
    ctors demo2 = ctors demo1 \<and> log demo2 = log demo1"
proof (rule Decorate_registers)
  show "reachable demoE demo1" unfolding reachable_def using demo_steps(1) by blast
  show "0 < length (scopes demo1)" by code_simp
  have "fst (Decorate 0 (IFunc (fnOf 2 [intT] [intT])) [] demo1) = Ret None" by code_simp
  then show "Decorate 0 (IFunc (fnOf 2 [intT] [intT])) [] demo1 = (Ret None, demo2)"
    unfolding demo2_def by (metis prod.collapse)
qed

subsection \<open>Child scopes\<close>

lemma ancestorsUpTo_ScopeScope:
  assumes "wf_tree \<sigma>"
  shows "t < length (scopes \<sigma>) \<Longrightarrow> ancestorsUpTo k (snd (ScopeScope s name \<sigma>)) t = ancestorsUpTo k \<sigma> t"
proof (induction k arbitrary: t)
  case (Suc k)
  have "ancestorsUpTo k (snd (ScopeScope s name \<sigma>)) p = ancestorsUpTo k \<sigma> p" if "parentScope (scope_of \<sigma> t) = Some p" for p
    using Suc.IH [of p] wf_tree_parent(1) [OF assms Suc.prems that] Suc.prems by simp
  then show ?case by (simp add: ScopeScope_frame(2) [OF Suc.prems] split: option.split)
qed simp

lemma ancestors_ScopeScope:
  assumes wf: "wf_tree \<sigma>" and s: "s < length (scopes \<sigma>)"
  shows "t < length (scopes \<sigma>) \<Longrightarrow> ancestors (snd (ScopeScope s name \<sigma>)) t = ancestors \<sigma> t"
    and "ancestors (snd (ScopeScope s name \<sigma>)) (length (scopes \<sigma>)) = length (scopes \<sigma>) # ancestors \<sigma> s"
proof -
  let ?\<sigma>' = "snd (ScopeScope s name \<sigma>)"
  note wf' = wf_tree_ScopeScope [OF wf s, of name]
  show old: "ancestors ?\<sigma>' t = ancestors \<sigma> t" if "t < length (scopes \<sigma>)" for t
  proof -
    have "ancestors ?\<sigma>' t = ancestorsUpTo (Suc t) ?\<sigma>' t" "ancestors \<sigma> t = ancestorsUpTo (Suc t) \<sigma> t"
      unfolding ancestors_def using that
      by (intro ancestorsUpTo_fuel [OF wf'] ancestorsUpTo_fuel [OF wf]; simp add: ScopeScope_frame(1))+
    then show ?thesis by (simp only: ancestorsUpTo_ScopeScope [OF wf that])
  qed
  show "ancestors ?\<sigma>' (length (scopes \<sigma>)) = length (scopes \<sigma>) # ancestors \<sigma> s"
    using ancestors_unfold [OF wf', of "length (scopes \<sigma>)"] old [OF s]
    by (simp add: ScopeScope_frame(1,3))
qed



end
