(* ===== verification/Divergences.thy ===== *)
theory Divergences
  imports Once
begin

text \<open>
  Runs in which the code does something else than its documentation says, each a concrete container that
  the model evaluates. They also show that the hypotheses of the properties are needed.
\<close>

subsection \<open>Types and environments\<close>

definition inStruct :: "string \<Rightarrow> gofield list \<Rightarrow> gotype" where
  "inStruct name fs = GoType name [] [] (SStruct (GoField ''In'' [] inType [] True # fs))"

definition outStruct :: "string \<Rightarrow> gofield list \<Rightarrow> gotype" where
  "outStruct name fs = GoType name [] [] (SStruct (GoField ''Out'' [] outType [] True # fs))"

abbreviation mk :: "nat \<Rightarrow> gotype list \<Rightarrow> gotype list \<Rightarrow> iface" where
  "mk i is os \<equiv> IFunc (fnOf i is os)"

text \<open>Every function returns its number, the function 9 nothing.\<close>

definition plainE :: env where
  "plainE = \<lparr>env_call = (\<lambda>i log args. OReturn (if i = 9 then [] else [VData intT i])),
     env_perm = (\<lambda>s k n. [0..<n]), env_now = int\<rparr>"

fun is_error :: "'a res \<Rightarrow> bool" where
  "is_error (Throw e) = True"
| "is_error _ = False"

fun is_panic :: "'a res \<Rightarrow> bool" where
  "is_panic (Panicked p) = True"
| "is_panic _ = False"

subsection \<open>A child scope can report a cycle that is not there\<close>

text \<open>
  \<open>Scope\<close> copies the orders of constructor nodes for the child (src/scope.go), not those of value
  groups. In the child the node of a group therefore has order 0, the order of the first constructor.
\<close>

definition boolsIn :: gotype where
  "boolsIn = inStruct ''main.params'' [GoField ''Bools'' [] (SliceOf boolT) [(''group'', ''bools'')] False]"

definition group_store :: store where
  "group_store = snd (Provide 0 (mk 2 [boolsIn] [stringT]) [] (snd (Provide 0 (mk 1 [stringT] [intT]) [] (New []))))"

fun is_cycle_error :: "'a res \<Rightarrow> bool" where
  "is_cycle_error (Throw (EInvalidInput MsgCycleInGraph c)) = True"
| "is_cycle_error _ = False"


subsection \<open>A failed Provide can leave a provider behind\<close>

text \<open>
  When the cycle is seen in a scope below the one that is provided to, the old providers are written
  to that scope: the loop variable hides the other (src/provide.go).
\<close>

definition below_store :: store where
  "below_store = snd (Provide 1 (mk 1 [intT] [stringT]) [] (snd (ScopeScope 0 ''child'' (New []))))"


subsection \<open>A failed decorator decorates nevertheless\<close>

text \<open>
  A decorator writes to the scope directly, not through a staging writer, and its error is the last of
  its results (src/decorate.go, src/result.go). What it returned along with the error stays: the next
  \<open>Invoke\<close> succeeds and is given that value.
\<close>

definition userError :: gval where
  "userError = VError (EUser 1 None)"

definition failingE :: env where
  "failingE = plainE\<lparr>env_call := (\<lambda>i log args. OReturn (if i = 2 then [VZero intT, userError] else if i = 9 then [] else [VData intT i]))\<rparr>"

definition decorated_store :: store where
  "decorated_store = snd (Decorate 0 (mk 2 [intT] [intT, errType]) [] (snd (Provide 0 (mk 1 [] [intT]) [] (New []))))"


text \<open>
  A decorator that could not be called at all, because a parameter's constructor failed, stays on the stack: the
  next \<open>Invoke\<close> is given the value as it was before decoration.
\<close>

definition skipped_store :: store where
  "skipped_store = snd (Decorate 0 (mk 3 [intT, stringT] [intT]) []
     (snd (Provide 0 (mk 2 [] [stringT, errType]) [] (snd (Provide 0 (mk 1 [] [intT]) [] (New []))))))"

lemma failed_decorator_skipped:
  "is_error (fst (Invoke failingE 9 0 (mk 9 [intT] []) skipped_store)) \<and>
   fst (Invoke failingE 9 0 (mk 9 [intT] []) (snd (Invoke failingE 9 0 (mk 9 [intT] []) skipped_store))) = Ret () \<and>
   last (log (snd (Invoke failingE 9 0 (mk 9 [intT] []) (snd (Invoke failingE 9 0 (mk 9 [intT] []) skipped_store))))) =
     EvCall ByInvoke 9 [VData intT 1]"
  by code_simp

subsection \<open>A constructor can run more than once\<close>

text \<open>A constructor that returned an error is run again by the next \<open>Invoke\<close>.\<close>

definition error_store :: store where
  "error_store = snd (Provide 0 (mk 2 [] [intT, errType]) [] (New []))"

lemma failed_constructor_rerun:
  "runs (ByCtor 0) (snd (Invoke failingE 9 0 (mk 9 [intT] []) (snd (Invoke failingE 9 0 (mk 9 [intT] []) error_store)))) = 2"
  by code_simp

text \<open>
  A constructor that succeeds runs twice when a decorator of one of its parameters needs its result: the
  decorator calls the constructor while the first call is still building its arguments.
\<close>

definition reentrant_store :: store where
  "reentrant_store = snd (Decorate 0 (mk 3 [intT, stringT] [intT]) []
     (snd (Provide 0 (mk 2 [intT] [stringT]) [] (snd (Provide 0 (mk 1 [] [intT]) [] (New []))))))"

lemma constructor_runs_twice:
  "fst (Invoke plainE 9 0 (mk 9 [stringT] []) reentrant_store) = Ret () \<and>
   runs (ByCtor 1) (snd (Invoke plainE 9 0 (mk 9 [stringT] []) reentrant_store)) = 2"
  by code_simp

subsection \<open>A failed Decorate leaves decorators behind\<close>

definition half_store :: store where
  "half_store = snd (Decorate 0 (mk 1 [stringT] [stringT]) [] (New []))"

lemma failed_decorate_registers:
  "is_error (fst (Decorate 0 (mk 2 [intT, stringT] [intT, stringT]) [] half_store)) \<and>
   getDecorators half_store 0 (value_key [] intT) = None \<and>
   getDecorators (snd (Decorate 0 (mk 2 [intT, stringT] [intT, stringT]) [] half_store)) 0 (value_key [] intT) = Some 1"
  by code_simp

subsection \<open>Panics on input that is not rejected\<close>

text \<open>A group without a name is the key of the value itself.\<close>

definition namelessOut :: gotype where
  "namelessOut = outStruct ''main.result'' [GoField ''Ints'' [] (SliceOf intT) [(''group'', '',flatten'')] False]"

lemma nameless_group_panics:
  "\<not> is_error (fst (Provide 0 (mk 1 [] [namelessOut]) [] (New []))) \<and>
   is_panic (fst (Invoke (plainE\<lparr>env_call := (\<lambda>i log args. OReturn [VStruct namelessOut [VZero outType, VSlice (SliceOf intT) [VData intT 1]]])\<rparr>)
     9 0 (mk 9 [intT] []) (snd (Provide 0 (mk 1 [] [namelessOut]) [] (New [])))))"
  by code_simp

text \<open>
  A decorator that returns a flattened group. \<open>findResultKeys\<close> takes the type of the elements for the
  type of the group, and the slice of slices is stored as the decorated group (src/result.go, src/decorate.go):
  \<open>Decorate\<close> accepts the decorator, and building the parameter panics in \<open>reflect.Value.Set\<close>.
\<close>

definition intsIn :: gotype where
  "intsIn = inStruct ''main.params'' [GoField ''Ints'' [] (SliceOf intT) [(''group'', ''g'')] False]"

definition flatOut :: gotype where
  "flatOut = outStruct ''main.result'' [GoField ''Ints'' [] (SliceOf (SliceOf intT)) [(''group'', ''g,flatten'')] False]"

definition flatE :: env where
  "flatE = plainE\<lparr>env_call := (\<lambda>i log args. OReturn (if i = 9 then [] else
     [VStruct flatOut [VZero outType, VSlice (SliceOf (SliceOf intT)) [VSlice (SliceOf intT) [VData intT 1]]]]))\<rparr>"

lemma flatten_decorator_panics:
  "fst (Decorate 0 (mk 2 [intsIn] [flatOut]) [] (New [])) = Ret None \<and>
   fst (Invoke flatE 9 0 (mk 9 [intsIn] []) (New [])) = Ret () \<and>
   is_panic (fst (Invoke flatE 9 0 (mk 9 [intsIn] []) (snd (Decorate 0 (mk 2 [intsIn] [flatOut]) [] (New [])))))"
  by code_simp

text \<open>\<open>As\<close> with a flattened group: the element type of the interface is asked for.\<close>

definition stringerT :: gotype where
  "stringerT = GoType ''main.Stringer'' [] [] (SInterface [''String''])"

definition namesT :: gotype where
  "namesT = GoType ''main.Names'' [''String''] [] (SSlice stringT)"

lemma flatten_as_panics:
  "is_panic (fst (Provide 0 (mk 1 [] [namesT]) [provideGroupOption ''g,flatten'', provideAsOption [IVal (PointerTo stringerT)]] (New [])))"
  by code_simp

subsection \<open>A cycle that no scope sees\<close>

text \<open>
  A constructor that is exported from a scope is built there but seen everywhere. Two scopes that export
  a constructor each can form a cycle that runs through the private constructors of both, which no
  scope's graph contains. \<open>Provide\<close> accepts it, and \<open>Invoke\<close> recurses without end.

  \<open>awaits\<close> is the constructor that is called first when a parameter list is built.
\<close>

definition awaits :: "store \<Rightarrow> nat \<Rightarrow> paramList \<Rightarrow> nat option" where
  "awaits \<sigma> c pl =
     (case Params pl of
        paramSingle name optional t # ps \<Rightarrow>
          if findDecorator \<sigma> name t (storesToRoot \<sigma> c) = None \<and>
             firstSome (\<lambda>s. getDecoratedValue \<sigma> s name t) (storesToRoot \<sigma> c) = None
          then (case findProviding \<sigma> name t (storesToRoot \<sigma> c) of Provided s (m # ms) \<Rightarrow> Some m | _ \<Rightarrow> None)
          else None
      | _ \<Rightarrow> None)"

definition stuck :: "nat list \<Rightarrow> store \<Rightarrow> bool" where
  "stuck ns \<sigma> = list_all (\<lambda>n. let N = ctor_of \<sigma> n; c = cn_origS N in
     \<not> cn_called N \<and> shallowCheckDependencies \<sigma> c (cn_paramList N) = None \<and>
     (case awaits \<sigma> c (cn_paramList N) of Some m \<Rightarrow> m \<in> set ns | None \<Rightarrow> False)) ns"

lemma awaits_diverges:
  assumes "awaits \<sigma> c pl = Some m" and "cC m (cn_origS (ctor_of \<sigma> m)) \<sigma> = (Diverged, \<sigma>)"
  shows "BuildList E cC cD pl c \<sigma> = (Diverged, \<sigma>)"
  using assms
  by (auto simp: awaits_def BuildList_def buildSingle_def buildWithDecorators_def buildFromProviders_def
      bindS_def split: list.splits param.splits if_splits search.splits)

lemma stuck_diverges:
  assumes "stuck ns \<sigma>" and "n \<in> set ns"
  shows "callC E k n (cn_origS (ctor_of \<sigma> n)) \<sigma> = (Diverged, \<sigma>)"
  using assms(2)
proof (induction k arbitrary: n)
  case (Suc k)
  let ?N = "ctor_of \<sigma> n"
  obtain m where m: "awaits \<sigma> (cn_origS ?N) (cn_paramList ?N) = Some m" "m \<in> set ns"
    and ok: "\<not> cn_called ?N" "shallowCheckDependencies \<sigma> (cn_origS ?N) (cn_paramList ?N) = None"
    using assms(1) Suc.prems by (force simp: stuck_def list_all_iff Let_def split: option.splits)
  show ?case
    using awaits_diverges [where cC = "callC E k", OF m(1) Suc.IH [OF m(2)]] ok
    by (simp add: ctorCall_def Let_def bindS_def wrapS_def)
qed simp

abbreviation xT :: gotype where "xT \<equiv> basicT ''X''"
abbreviation yT :: gotype where "yT \<equiv> basicT ''Y''"

definition sibling_store :: store where
  "sibling_store =
     (let \<sigma> = snd (ScopeScope 0 ''y'' (snd (ScopeScope 0 ''x'' (New []))));
          \<sigma> = snd (Provide 1 (mk 1 [xT] [intT]) [provideExportOption True] \<sigma>);
          \<sigma> = snd (Provide 1 (mk 2 [stringT] [xT]) [] \<sigma>);
          \<sigma> = snd (Provide 2 (mk 3 [yT] [stringT]) [provideExportOption True] \<sigma>)
      in snd (Provide 2 (mk 4 [intT] [yT]) [] \<sigma>))"

lemma sibling_store_stuck: "stuck [0, 1, 2, 3] sibling_store"
  by code_simp

lemma sibling_store_accepted:
  "length (ctors sibling_store) = 4 \<and> list_all (\<lambda>s. isVerifiedAcyclic (scope_of sibling_store s)) [0, 1, 2]"
  by code_simp

lemma sibling_cycle_diverges: "fst (Invoke E k 0 (mk 9 [intT] []) sibling_store) = Diverged"
proof -
  let ?f = "fnOf 9 [intT] []"
  let ?pl = "\<lparr>plCtype = fn_type ?f, Params = [paramSingle [] False intT]\<rparr>"
  have pl: "newParamList (fn_type ?f) 0 sibling_store = (Ret ?pl, sibling_store)"
    "shallowCheckDependencies sibling_store 0 ?pl = None" "verifyAcyclic 0 sibling_store = (Ret (), sibling_store)"
    "Kind (fn_type ?f) = KFunc"
    by code_simp+
  have "awaits sibling_store 0 ?pl = Some 0"
    by code_simp
  then have "BuildList E (callC E k) (callD E k) ?pl 0 sibling_store = (Diverged, sibling_store)"
    by (rule awaits_diverges) (rule stuck_diverges [OF sibling_store_stuck], simp)
  then show ?thesis
    using pl by (simp add: Invoke_def invokeFn_def bindS_def wrapS_def)
qed

text \<open>
  C37: The container holds four constructors that \<open>Provide\<close> accepted, and each of its three scopes is
  verified to be acyclic; yet \<open>Invoke\<close> of a function that needs the first constructor's result does not
  return, whatever the constructors do.
\<close>

theorem sibling_cycle_undetected:
  "length (ctors sibling_store) = 4 \<and> list_all (\<lambda>s. isVerifiedAcyclic (scope_of sibling_store s)) [0, 1, 2] \<and>
   fst (Invoke E k 0 (mk 9 [intT] []) sibling_store) = Diverged"
  using sibling_store_accepted sibling_cycle_diverges by simp

subsection \<open>A dry run can fail\<close>

text \<open>
  A dry run returns zero values. The zero value of a result whose type is a concrete pointer that
  implements \<open>error\<close> is an interface value that is not nil, and so an error.
\<close>

definition myErrT :: gotype where
  "myErrT = PointerTo (GoType ''main.MyErr'' [] [''Error() string''] (SStruct []))"

lemma dry_run_fails:
  "is_error (fst (Invoke plainE 9 0 (mk 9 [intT] []) (snd (Provide 0 (mk 1 [] [intT, myErrT]) [] (New [dryRunOption True])))))"
  by code_simp

end
