(* ===== verification/Visualize.thy ===== *)
theory Visualize
  imports Provide
begin

text \<open>
  \<open>Visualize\<close> (src/visualize.go, the \<open>updateGraph\<close> methods of src/error.go and the \<open>String\<close> and
  \<open>Attributes\<close> methods of src/internal/dot/graph.go): building the DOT graph of a container,
  marking the errors in it and printing it. What is written to the \<open>io.Writer\<close> is the string that
  the model returns.
\<close>

subsection \<open>The graph of a container\<close>

definition newDotCtor :: "constructorNode \<Rightarrow> dotCtor" where
  "newDotCtor n =
     \<lparr>dc_name = fnName (cn_location n), dc_package = fnPackage (cn_location n),
      dc_file = fnFile (cn_location n), dc_line = nat (fnLine (cn_location n)), dc_id = cn_id n,
      dc_params = [], dc_groupParams = [], dc_results = [], dc_errorType = noError\<rparr>"

definition addDotNode :: "store \<Rightarrow> nat \<Rightarrow> dotGraph \<Rightarrow> dotGraph" where
  "addDotNode \<sigma> n =
     (let N = ctor_of \<sigma> n
      in AddCtor (newDotCtor N) (DotParamList (cn_paramList N)) (DotResultList (cn_resultList N)))"

fun addNodesUpTo :: "nat \<Rightarrow> store \<Rightarrow> nat \<Rightarrow> dotGraph \<Rightarrow> dotGraph" where
  "addNodesUpTo 0 \<sigma> s dg = dg"
| "addNodesUpTo (Suc k) \<sigma> s dg =
     fold (\<lambda>cs. addNodesUpTo k \<sigma> cs) (childScopes (scope_of \<sigma> s))
       (fold (addDotNode \<sigma>) (nodes (scope_of \<sigma> s)) dg)"

definition addNodes :: "store \<Rightarrow> nat \<Rightarrow> dotGraph \<Rightarrow> dotGraph" where
  "addNodes \<sigma> s dg = addNodesUpTo (length (scopes \<sigma>)) \<sigma> s dg"

definition createGraph :: "store \<Rightarrow> nat \<Rightarrow> dotGraph" where
  "createGraph \<sigma> s = addNodes \<sigma> s NewGraph"

subsection \<open>Marking errors\<close>

definition failedResult :: "key \<Rightarrow> dotResult" where
  "failedResult k = dotResultAt (key_t k) (key_name k) (key_group k)"

fun errUpdateGraph :: "goerr \<Rightarrow> dotGraph \<Rightarrow> dotGraph" where
  "errUpdateGraph (EParamSingleFailed k r cid) dg = FailNodes [failedResult k] cid dg"
| "errUpdateGraph (EParamGroupFailed k r cid) dg = FailGroupNodes (key_group k) (key_t k) cid dg"
| "errUpdateGraph (EMissingTypes ms) dg = AddMissingNodes (map (\<lambda>m. failedResult (mtKey m)) ms) dg"
| "errUpdateGraph _ dg = dg"

text \<open>The errors of the chain that can be drawn, outermost first; they are applied in reverse.\<close>

definition visualizers :: "goerr \<Rightarrow> goerr list" where
  "visualizers e = filter is_errVisualizer (chain e)"

definition updateGraph :: "dotGraph \<Rightarrow> goerr \<Rightarrow> dotGraph" where
  "updateGraph dg e =
     (let errs = visualizers e
      in if errs = [] then dg else PruneSuccess (fold errUpdateGraph (rev errs) dg))"

definition CanVisualizeError :: "goerr \<Rightarrow> bool" where
  "CanVisualizeError e \<longleftrightarrow> list_ex is_errVisualizer (chain e)"

subsection \<open>Printing\<close>

definition nl :: string where "nl = [CHR 0x0A]"
definition tab :: string where "tab = [CHR 0x09]"

fun Color :: "ErrorType \<Rightarrow> string" where
  "Color rootCause = ''red''"
| "Color transitiveFailure = ''orange''"
| "Color noError = ''black''"

definition dotParam_String :: "dotParam \<Rightarrow> string" where
  "dotParam_String p =
     (let n = dp_node p
      in if nk_name n \<noteq> '''' then type_string (nk_t n) @ ''[name='' @ nk_name n @ '']''
         else type_string (nk_t n))"

definition dotResult_String :: "dotResult \<Rightarrow> string" where
  "dotResult_String r =
     (let n = dr_node r
      in if nk_name n \<noteq> '''' then type_string (nk_t n) @ ''[name='' @ nk_name n @ '']''
         else if nk_group n \<noteq> '''' then
           type_string (nk_t n) @ ''[group='' @ nk_group n @ '']'' @ digits (dr_groupIndex r)
         else type_string (nk_t n))"

definition dotGroup_String :: "dotGroup \<Rightarrow> string" where
  "dotGroup_String g = ''[type='' @ type_string (dg_type g) @ '' group='' @ dg_name g @ '']''"

definition small :: "string \<Rightarrow> string \<Rightarrow> string" where
  "small what v = ''<BR /><FONT POINT-SIZE='' @ [CHR 0x22] @ ''10'' @ [CHR 0x22] @ ''>'' @ what @ '': '' @ v @ ''</FONT>''"

definition Result_Attributes :: "dotResult \<Rightarrow> string" where
  "Result_Attributes r =
     (let n = dr_node r; t = type_string (nk_t n)
      in if nk_name n \<noteq> '''' then ''label=<'' @ t @ small ''Name'' (nk_name n) @ ''>''
         else if nk_group n \<noteq> '''' then ''label=<'' @ t @ small ''Group'' (nk_group n) @ ''>''
         else ''label=<'' @ t @ ''>'')"

definition Group_Attributes :: "dotGroup \<Rightarrow> string" where
  "Group_Attributes g =
     ''shape=diamond label=<'' @ type_string (dg_type g) @ small ''Group'' (dg_name g) @ ''>'' @
     (if dg_errorType g \<noteq> noError then '' color='' @ Color (dg_errorType g) else '''')"

definition visualizeGroup :: "dotGroup \<Rightarrow> string" where
  "visualizeGroup g =
     tab @ goQuote (dotGroup_String g) @ '' ['' @ Group_Attributes g @ ''];'' @ nl @
     concat (map (\<lambda>r. tab @ goQuote (dotGroup_String g) @ '' -> '' @ goQuote (dotResult_String r) @ '';'' @ nl)
       (dg_results g))"

definition visualizeCtor :: "dotGraph \<Rightarrow> nat \<Rightarrow> dotCtor \<Rightarrow> string" where
  "visualizeCtor dg index c =
     (let ix = digits index
      in tab @ ''subgraph cluster_'' @ ix @ '' {'' @ nl @
         (if dc_package c \<noteq> '''' then tab @ tab @ ''label = '' @ goQuote (dc_package c) @ '';'' @ nl else '''') @
         tab @ tab @ ''constructor_'' @ ix @ '' [shape=plaintext label='' @ goQuote (dc_name c) @ ''];'' @ nl @
         (if dc_errorType c \<noteq> noError then tab @ tab @ ''color='' @ Color (dc_errorType c) @ '';'' @ nl else '''') @
         concat (map (\<lambda>r. tab @ tab @ goQuote (dotResult_String r) @ '' ['' @ Result_Attributes r @ ''];'' @ nl)
           (dc_results c)) @
         tab @ ''}'' @ nl @
         concat (map (\<lambda>p. tab @ ''constructor_'' @ ix @ '' -> '' @ goQuote (dotParam_String p) @
             '' [ltail=cluster_'' @ ix @ (if dp_optional p then '' style=dashed'' else '''') @ ''];'' @ nl)
           (dc_params c)) @
         concat (map (\<lambda>i. tab @ ''constructor_'' @ ix @ '' -> '' @
             goQuote (dotGroup_String (groupHeap dg ! i)) @ '' [ltail=cluster_'' @ ix @ ''];'' @ nl)
           (dc_groupParams c)))"

definition visualizeGraph :: "dotGraph \<Rightarrow> string" where
  "visualizeGraph dg =
     ''digraph {'' @ nl @ tab @ ''rankdir=RL;'' @ nl @ tab @ ''graph [compound=true];'' @ nl @
     concat (map (\<lambda>i. visualizeGroup (groupHeap dg ! i)) (Groups dg)) @
     concat (map (\<lambda>(idx, i). visualizeCtor dg idx (ctorHeap dg ! i)) (enumerate 0 (Ctors dg))) @
     concat (map (\<lambda>f. tab @ goQuote (dotResult_String f) @ '' [color=orange];'' @ nl)
       (TransitiveFailures (Failed dg))) @
     concat (map (\<lambda>f. tab @ goQuote (dotResult_String f) @ '' [color=red];'' @ nl)
       (RootCauses (Failed dg))) @
     ''}''"

definition Visualize :: "store \<Rightarrow> goerr option \<Rightarrow> string" where
  "Visualize \<sigma> err =
     (let dg = createGraph \<sigma> 0
      in visualizeGraph (case err of None \<Rightarrow> dg | Some e \<Rightarrow> updateGraph dg e))"

end
