(* ===== verification/Messages.thy ===== *)
theory Messages
  imports Visualize
begin

text \<open>
  The text of errors: \<open>writeMessage\<close>, \<open>Format\<close> and \<open>Error\<close> of the error types (src/error.go,
  src/cycle_error.go, src/group.go), the messages of \<open>errInvalidInput\<close> at the places that create
  them, \<open>Func.Format\<close> (src/internal/digreflect/func.go) and the \<open>String\<close> methods of the options.

  Printing user data is user code: \<open>printers\<close> holds what it prints. A value passed instead of a
  function is known to the model by its type, a user's error by its number. The flag \<open>long\<close> is the verb \<open>%+v\<close>,
  as opposed to \<open>%v\<close>.
\<close>

record printers =
  pr_value :: "gotype \<Rightarrow> string"
  pr_panic :: "gval \<Rightarrow> string"
  pr_user :: "bool \<Rightarrow> nat \<Rightarrow> goerr option \<Rightarrow> string"
  pr_zero :: "bool \<Rightarrow> gotype \<Rightarrow> string"

subsection \<open>Functions\<close>

definition goInt :: "int \<Rightarrow> string" where
  "goInt i = (if i < 0 then ''-'' @ digits (nat (- i)) else digits (nat i))"

definition Func_Format :: "bool \<Rightarrow> Func \<Rightarrow> string" where
  "Func_Format long f =
     (if long then
        goQuote (fnPackage f) @ ''.'' @ fnName f @ nl @ tab @ fnFile f @ '':'' @ goInt (fnLine f)
      else
        goQuote (fnPackage f) @ ''.'' @ fnName f @ '' ('' @ fnFile f @ '':'' @ goInt (fnLine f) @ '')'')"

subsection \<open>Messages of errInvalidInput\<close>

text \<open>The text that the format string of each message prints, by the file that creates the error.\<close>

primrec inputMessage :: "printers \<Rightarrow> errmsg \<Rightarrow> string" where
  "inputMessage P (MsgDependOnOut t) =
     ''cannot depend on result objects: '' @ type_string t @ '' embeds a dig.Out''"
| "inputMessage P (MsgParamEmbedsInPtr t) =
     ''cannot build a parameter object by embedding *dig.In, embed dig.In instead: '' @
       type_string t @ '' embeds *dig.In''"
| "inputMessage P (MsgPtrToIn t) =
     ''cannot depend on a pointer to a parameter object, use a value instead: '' @
       type_string t @ '' is a pointer to a struct that embeds dig.In''"
| "inputMessage P (MsgBadArgument i) =
     ''bad argument '' @ digits i"
| "inputMessage P (MsgBadField n t) =
     ''bad field '' @ goQuote n @ '' of '' @ type_string t"
| "inputMessage P (MsgUnexportedIn n t) =
     ''unexported fields not allowed in dig.In, did you mean to export '' @ goQuote n @
       '' ('' @ type_string t @ '')?''"
| "inputMessage P (MsgGroupNotSlice n t) =
     ''value groups may be consumed as slices only: field '' @ goQuote n @
       '' ('' @ type_string t @ '') is not a slice''"
| "inputMessage P (MsgFlattenParam n t) =
     ''cannot use flatten in parameter value groups: field '' @ goQuote n @
       '' ('' @ type_string t @ '') specifies flatten''"
| "inputMessage P (MsgNamedGroupRequested n g) =
     ''cannot use named values with value groups: name:'' @ goQuote n @
       '' requested with group:'' @ goQuote g"
| "inputMessage P MsgGroupOptional =
     ''value groups cannot be optional''"
| "inputMessage P (MsgBadTag tag name f) =
     ''invalid value '' @ goQuote tag @ '' for '' @ goQuote name @ '' tag on field '' @ f"
| "inputMessage P (MsgProvideIn t) =
     ''cannot provide parameter objects: '' @ type_string t @ '' embeds a dig.In''"
| "inputMessage P MsgReturnError =
     ''cannot return an error here, return it from the constructor instead''"
| "inputMessage P (MsgResultEmbedsOutPtr t) =
     ''cannot build a result object by embedding *dig.Out, embed dig.Out instead: '' @
       type_string t @ '' embeds *dig.Out''"
| "inputMessage P (MsgPtrToOut t) =
     ''cannot return a pointer to a result object, use a value instead: '' @
       type_string t @ '' is a pointer to a struct that embeds dig.Out''"
| "inputMessage P (MsgParseGroup g) =
     ''cannot parse group '' @ goQuote g"
| "inputMessage P (MsgAsNotImplemented t i) =
     ''invalid dig.As: '' @ type_string t @ '' does not implement '' @ type_string i"
| "inputMessage P (MsgSoftResult g) =
     ''cannot use soft with result value groups: soft was used with group:'' @ goQuote g"
| "inputMessage P (MsgSoftField g) =
     ''cannot use soft with result value groups: soft was used with group '' @ goQuote g"
| "inputMessage P (MsgFlattenNotSlice t) =
     ''flatten can be applied to slices only: '' @ type_string t @ '' is not a slice''"
| "inputMessage P (MsgBadResult i) =
     ''bad result '' @ digits i"
| "inputMessage P (MsgNameOnOut t) =
     ''cannot specify a name for result objects: '' @ type_string t @ '' embeds dig.Out''"
| "inputMessage P (MsgGroupOnOut t) =
     ''cannot specify a group for result objects: '' @ type_string t @ '' embeds dig.Out''"
| "inputMessage P (MsgUnexportedOut n t) =
     ''unexported fields not allowed in dig.Out, did you mean to export '' @ goQuote n @
       '' ('' @ type_string t @ '')?''"
| "inputMessage P (MsgFlattenFieldNotSlice n t) =
     ''flatten can be applied to slices only: field '' @ goQuote n @
       '' ('' @ type_string t @ '') is not a slice''"
| "inputMessage P (MsgNamedGroupProvided n g) =
     ''cannot use named values with value groups: name:'' @ goQuote n @
       '' provided with group:'' @ goQuote g"
| "inputMessage P (MsgNameWithGroup n g) =
     ''cannot use named values with value groups: name:'' @ goQuote n @
       '' provided with group:'' @ goQuote g"
| "inputMessage P (MsgNameBackquote n) =
     ''invalid dig.Name('' @ goQuote n @ ''): names cannot contain backquotes''"
| "inputMessage P (MsgGroupBackquote g) =
     ''invalid dig.Group('' @ goQuote g @ ''): group names cannot contain backquotes''"
| "inputMessage P MsgAsNil =
     ''invalid dig.As(nil): argument must be a pointer to an interface''"
| "inputMessage P (MsgAsNotPtr t) =
     ''invalid dig.As('' @ type_string t @ ''): argument must be a pointer to an interface''"
| "inputMessage P (MsgAsNotInterface t) =
     ''invalid dig.As(*'' @ type_string t @ ''): argument must be a pointer to an interface''"
| "inputMessage P MsgProvideNil =
     ''can't provide an untyped nil''"
| "inputMessage P (MsgProvideNonFunc t) =
     ''must provide constructor function, got '' @ pr_value P t @ '' (type '' @ type_string t @ '')''"
| "inputMessage P (MsgNoResults t) =
     type_string t @ '' must provide at least one non-error type''"
| "inputMessage P MsgIntroducesCycle =
     ''this function introduces a cycle''"
| "inputMessage P (MsgCannotProvide k path) =
     ''cannot provide '' @ key_String k @ '' from '' @ path"
| "inputMessage P (MsgAlreadyProvidedAt path) =
     ''already provided by '' @ path"
| "inputMessage P (MsgAlreadyProvidedBy fs) =
     ''already provided by '' @ joinWith ''; '' (map (Func_Format False) fs)"
| "inputMessage P (MsgAlreadyDecorated t k) =
     ''cannot decorate using function '' @ type_string t @ '': '' @ key_String k @ '' already decorated''"
| "inputMessage P MsgDecorateSingle =
     ''decorating a value group requires decorating the entire value group, not a single value''"
| "inputMessage P MsgInvokeNil =
     ''can't invoke an untyped nil''"
| "inputMessage P (MsgInvokeNonFunc t) =
     ''can't invoke non-function '' @ pr_value P t @ '' (type '' @ type_string t @ '')''"
| "inputMessage P MsgCycleInGraph =
     ''cycle detected in dependency graph''"

subsection \<open>Messages of the other errors\<close>

definition missingType_Format :: "bool \<Rightarrow> missingType \<Rightarrow> string" where
  "missingType_Format long mt = key_String (mtKey mt) @
     (case suggestions mt of
        [] \<Rightarrow> if long then '' (did you mean to Provide it?)'' else []
      | [sug] \<Rightarrow>
          (if long then '' (did you mean to use '' else '' (did you mean '') @ key_String sug @ ''?)''
      | sugs \<Rightarrow>
          (if long then '' (did you mean to use one of '' else '' (did you mean '') @
          joinWith '', '' (map key_String (butlast sugs) @ [''or '' @ key_String (last sugs)]) @ ''?)'')"

definition missingTypes_message :: "bool \<Rightarrow> missingType list \<Rightarrow> string" where
  "missingTypes_message long ms =
     (if length ms = 1 then ''missing type:'' else ''missing types:'') @
     (if long then concat (map (\<lambda>mt. nl @ tab @ ''- '' @ missingType_Format True mt) ms)
      else '' '' @ joinWith ''; '' (map (missingType_Format False) ms))"

definition cyclePath_message :: "cycleErrPathEntry list \<Rightarrow> string \<Rightarrow> string" where
  "cyclePath_message path name =
     (if name \<noteq> [] then ''[scope '' @ goQuote name @ '']'' @ nl else []) @
     joinWith (nl @ tab @ ''depends on '')
       (map (\<lambda>e. key_String (cePathKey e) @ '' provided by '' @ Func_Format False (cePathFunc e)) path)"

fun writeMessage :: "printers \<Rightarrow> bool \<Rightarrow> goerr \<Rightarrow> string" where
  "writeMessage P long (EInvalidInput msg c) = inputMessage P msg"
| "writeMessage P long (EProvide f r) = ''cannot provide function '' @ Func_Format long f"
| "writeMessage P long (EConstructorFailed f r) = ''received non-nil error from function '' @ Func_Format long f"
| "writeMessage P long (EArgumentsFailed f r) = ''could not build arguments for function '' @ Func_Format long f"
| "writeMessage P long (EMissingDependencies f r) = ''missing dependencies for function '' @ Func_Format long f"
| "writeMessage P long (EParamSingleFailed k r c) = ''failed to build '' @ key_String k"
| "writeMessage P long (EParamGroupFailed k r c) = ''could not build value group '' @ key_String k"
| "writeMessage P long (EMissingTypes ms) = missingTypes_message long ms"
| "writeMessage P long (ECycleDetected path name) = cyclePath_message path name"
| "writeMessage P long (EInvalidGroupOption opt) = ''invalid option '' @ goQuote opt"
| "writeMessage P long _ = []"

definition PanicError_Format :: "printers \<Rightarrow> bool \<Rightarrow> Func \<Rightarrow> gval \<Rightarrow> string" where
  "PanicError_Format P long f v = ''panic: '' @ pr_panic P v @ '' in func: '' @ Func_Format long f"

text \<open>Printing an error that does not implement \<open>dig.Error\<close>.\<close>

fun foreignText :: "printers \<Rightarrow> bool \<Rightarrow> goerr \<Rightarrow> string" where
  "foreignText P long (EPanic f v) = PanicError_Format P long f v"
| "foreignText P long (EParseBool s) = ''strconv.ParseBool: parsing '' @ goQuote s @ '': invalid syntax''"
| "foreignText P long (EUser n c) = pr_user P long n c"
| "foreignText P long (EZero t) = pr_zero P long t"
| "foreignText P long _ = []"

text \<open>\<open>formatError\<close>, which prints the wrapped error by the same verb.\<close>

function formatError :: "printers \<Rightarrow> bool \<Rightarrow> goerr \<Rightarrow> string" where
  "formatError P long e =
     (if is_digError e then
        writeMessage P long e @
        (case Unwrap e of None \<Rightarrow> [] | Some w \<Rightarrow> '':'' @ (if long then nl else '' '') @ formatError P long w)
      else foreignText P long e)"
  by pat_completeness auto
termination
  by (relation "measure (\<lambda>(P, long, e). size e)") (auto dest: Unwrap_size)

declare formatError.simps [simp del]

definition Error_text :: "printers \<Rightarrow> goerr \<Rightarrow> string" where
  "Error_text P e = formatError P False e"

subsection \<open>Options and nodes\<close>

text \<open>
  The \<open>String\<close> methods of the options that print no address. \<open>As\<close> asks each argument for its element
  type, which panics unless it is a pointer or the like: \<^const>\<open>None\<close>.
\<close>

definition goBool :: "bool \<Rightarrow> string" where
  "goBool b = (if b then ''true'' else ''false'')"

fun Option_String :: "Option \<Rightarrow> string" where
  "Option_String deferAcyclicVerificationOption = ''DeferAcyclicVerification()''"
| "Option_String recoverFromPanicsOption = ''RecoverFromPanics()''"
| "Option_String (dryRunOption b) = ''DryRun('' @ goBool b @ '')''"

definition Name_String :: "string \<Rightarrow> string" where
  "Name_String n = ''Name('' @ goQuote n @ '')''"

definition Group_String :: "string \<Rightarrow> string" where
  "Group_String g = ''Group('' @ goQuote g @ '')''"

definition Export_String :: "bool \<Rightarrow> string" where
  "Export_String b = ''Export('' @ goBool b @ '')''"

definition Location_String :: "Func option \<Rightarrow> string" where
  "Location_String loc =
     ''LocationForPC('' @ (case loc of None \<Rightarrow> ''<nil>'' | Some f \<Rightarrow> Func_Format False f) @ '')''"

definition As_String :: "iface list \<Rightarrow> string option" where
  "As_String is =
     (let es = map (\<lambda>i. Option.bind (TypeOf i) Elem) is
      in if None \<in> set es then None else Some (''As('' @ joinWith '', '' (map (type_string \<circ> the) es) @ '')''))"

definition constructorNode_String :: "constructorNode \<Rightarrow> string" where
  "constructorNode_String n = ''deps: '' @ paramList_String (cn_paramList n) @ '', ctor: '' @ type_string (cn_ctype n)"

subsection \<open>The text follows the chain\<close>

text \<open>The part of the chain that the container prints: its own errors and the first one that is not.\<close>

function spine :: "goerr \<Rightarrow> goerr list" where
  "spine e = e # (case Unwrap e of None \<Rightarrow> [] | Some w \<Rightarrow> if is_digError e then spine w else [])"
  by pat_completeness auto
termination
  by (relation "measure size") (auto dest: Unwrap_size)

declare spine.simps [simp del]

lemma spine_chain: "spine e = takeWhile is_digError (chain e) @ take 1 (dropWhile is_digError (chain e))"
proof (induction e rule: spine.induct)
  case (1 e)
  then show ?case by (subst spine.simps, subst (1 2) chain.simps) (auto split: option.splits)
qed

definition ownText :: "printers \<Rightarrow> bool \<Rightarrow> goerr \<Rightarrow> string" where
  "ownText P long e = (if is_digError e then writeMessage P long e else foreignText P long e)"

lemma joinWith_Cons: "xs \<noteq> [] \<Longrightarrow> joinWith sep (x # xs) = x @ sep @ joinWith sep xs"
  by (cases xs) auto

lemma spine_not_Nil [simp]: "spine e \<noteq> []"
  by (subst spine.simps) simp

text \<open>
  C34: What is printed for an error is the message of each error of its chain, joined by a colon and a blank
  (a line break with \<open>%+v\<close>), down to and including the first error that is not one of the
  container's: that error is printed by its own means and nothing below it is printed.
\<close>

theorem formatError_chain:
  "formatError P long e = joinWith ('':'' @ (if long then nl else '' ''))
     (map (ownText P long) (takeWhile is_digError (chain e) @ take 1 (dropWhile is_digError (chain e))))"
  unfolding spine_chain [symmetric]
proof (induction e rule: spine.induct)
  case (1 e)
  show ?case
  proof (cases "Unwrap e")
    case (Some w)
    with 1 show ?thesis
      by (subst formatError.simps, subst spine.simps) (simp add: ownText_def [of P long e] joinWith_Cons)
  qed (subst formatError.simps, subst spine.simps, simp add: ownText_def)
qed

subsection \<open>Quoted text can be read back\<close>

text \<open>The character that an escape starts with, and how long it is.\<close>

definition tokenLength :: "string \<Rightarrow> nat" where
  "tokenLength s = (if hd s \<noteq> CHR 0x5C then 1 else if s ! 1 = CHR ''x'' then 4 else 2)"

definition hexValue :: "char \<Rightarrow> nat" where
  "hexValue c = (let k = of_char c :: nat in if k < 58 then k - 48 else k - 87)"

definition tokenChar :: "string \<Rightarrow> nat" where
  "tokenChar q =
     (let n = of_char (hd q) :: nat; m = of_char (q ! 1) :: nat
      in if n \<noteq> 92 then n
         else if m = 120 then 16 * hexValue (q ! 2) + hexValue (q ! 3)
         else if m = 34 \<or> m = 92 then m
         else if m = 97 then 7 else if m = 98 then 8 else if m = 102 then 12 else if m = 110 then 10
         else if m = 114 then 13 else if m = 116 then 9 else 11)"

lemma hexDigits: "list_all (\<lambda>n. hexValue (hexDigit n) = n) [0..<16]"
  by code_simp

lemma hexValue_hexDigit: "n < 16 \<Longrightarrow> hexValue (hexDigit n) = n"
  using hexDigits by (simp add: list_all_iff)

lemma quoteChar_read:
  "tokenLength (quoteChar c) = length (quoteChar c)" "tokenChar (quoteChar c) = of_char c" "hd (quoteChar c) \<noteq> CHR 0x22"
proof -
  have c: "c = CHR 0x5C \<longleftrightarrow> (of_char c :: nat) = 92" "c = CHR 0x22 \<longleftrightarrow> (of_char c :: nat) = 34"
    "c = CHR ''x'' \<longleftrightarrow> (of_char c :: nat) = 120" for c
    by (simp_all flip: of_char_eq_iff [where ?'a = nat])
  have hex: "16 * hexValue (hexDigit (of_char c div 16)) + hexValue (hexDigit (of_char c mod 16)) = of_char c"
  proof -
    have "(of_char c :: nat) div 16 < 16" using nat_of_char_less_256 [of c] by (simp add: div_less_iff_less_mult)
    then show ?thesis by (simp add: hexValue_hexDigit)
  qed
  show "tokenLength (quoteChar c) = length (quoteChar c)"
    by (simp add: quoteChar_def tokenLength_def Let_def c)
  show "hd (quoteChar c) \<noteq> CHR 0x22"
    by (simp add: quoteChar_def Let_def c)
  show "tokenChar (quoteChar c) = of_char c"
    using hex by (simp add: quoteChar_def tokenChar_def Let_def)
qed

lemma quoteChar_not_Nil [simp]: "quoteChar c \<noteq> []"
  by (simp add: quoteChar_def Let_def)

lemma quoteChar_no_quote [simp]: "quoteChar c \<noteq> CHR 0x22 # q" "CHR 0x22 # q \<noteq> quoteChar c"
  by (metis quoteChar_read(3) list.sel(1))+

lemma quoteChar_append: "tokenLength (quoteChar c @ r) = length (quoteChar c)"
proof -
  have "hd (quoteChar c) = CHR 0x5C \<Longrightarrow> 1 < length (quoteChar c)"
    using quoteChar_read(1) [of c] by (auto simp: tokenLength_def split: if_splits)
  with quoteChar_read(1) [of c] show ?thesis by (auto simp: tokenLength_def nth_append)
qed

lemma quoteChars_inj:
  "concat (map quoteChar s) @ CHR 0x22 # x = concat (map quoteChar t) @ CHR 0x22 # y \<Longrightarrow> s = t \<and> x = y"
proof (induction s arbitrary: t)
  case Nil
  then show ?case by (cases t) (auto simp: append_eq_Cons_conv Cons_eq_append_conv)
next
  case (Cons c s)
  then obtain d t' where t: "t = d # t'"
    by (cases t) (auto simp: append_eq_Cons_conv Cons_eq_append_conv)
  let ?r = "concat (map quoteChar s) @ CHR 0x22 # x" and ?r' = "concat (map quoteChar t') @ CHR 0x22 # y"
  have eq: "quoteChar c @ ?r = quoteChar d @ ?r'" using Cons.prems t by simp
  have "length (quoteChar c) = length (quoteChar d)"
    using arg_cong [OF eq, of tokenLength] unfolding quoteChar_append .
  with eq have "quoteChar c = quoteChar d \<and> ?r = ?r'" using append_eq_append_conv by blast
  then have same: "quoteChar c = quoteChar d" and rest: "?r = ?r'" by blast+
  from same have "(of_char c :: nat) = of_char d" unfolding quoteChar_read(2) [symmetric] by (rule arg_cong)
  then have "c = d" by simp
  with Cons.IH [OF rest] t show ?case by blast
qed

lemma goQuote_inj: "goQuote s @ x = goQuote t @ y \<Longrightarrow> s = t \<and> x = y"
  using quoteChars_inj [of s x t y] by (simp add: goQuote_def)

lemma goQuote_eq [simp]: "goQuote s = goQuote t \<longleftrightarrow> s = t"
  using goQuote_inj [of s "[]" t "[]"] by auto



end
