(* ===== verification/Recording.thy ===== *)
theory Recording
  imports Demo
begin

text \<open>
  \<open>FillInvokeInfo\<close> (src/invoke.go): \<open>Invoke\<close> with a place to record the inputs of the function. They are
  recorded when the arguments have been built, before the function is called; an \<open>Invoke\<close> that fails before
  leaves the record as it was.
\<close>

record InvokeInfo =
  ii_inputs :: "Input list"

text \<open>\<open>Invoke\<close> up to the built arguments.\<close>

definition invokeArgs :: "env \<Rightarrow> nat \<Rightarrow> nat \<Rightarrow> gofn \<Rightarrow> (store, paramList \<times> gval list) eff" where
  "invokeArgs E fuel s f =
     bindS (newParamList (fn_type f) s) (\<lambda>pl \<sigma>.
       case shallowCheckDependencies \<sigma> s pl of
         Some err \<Rightarrow> (Throw (EMissingDependencies (InspectFunc f) err), \<sigma>)
       | None \<Rightarrow>
           bindS (verifyAcyclic s) (\<lambda>_.
           bindS (wrapS (EArgumentsFailed (InspectFunc f)) (BuildList E (callC E fuel) (callD E fuel) pl s))
             (\<lambda>args. retS (pl, args))) \<sigma>)"

definition recordInfo :: "paramList \<Rightarrow> InvokeInfo \<Rightarrow> InvokeInfo" where
  "recordInfo pl info = info\<lparr>ii_inputs := inputsOf pl\<rparr>"

definition InvokeFilling ::
  "env \<Rightarrow> nat \<Rightarrow> nat \<Rightarrow> iface \<Rightarrow> InvokeInfo \<Rightarrow> store \<Rightarrow> (unit res \<times> store) \<times> InvokeInfo" where
  "InvokeFilling E fuel s function info \<sigma> =
     (case function of
        INil \<Rightarrow> ((Throw (newErrInvalidInput MsgInvokeNil None), \<sigma>), info)
      | IVal t \<Rightarrow> ((Throw (newErrInvalidInput (MsgInvokeNonFunc t) None), \<sigma>), info)
      | IFunc f \<Rightarrow>
          if Kind (fn_type f) \<noteq> KFunc then
            ((Throw (newErrInvalidInput (MsgInvokeNonFunc (fn_type f)) None), \<sigma>), info)
          else
            (case invokeArgs E fuel s f \<sigma> of
               (Ret (pl, args), \<sigma>1) \<Rightarrow> (invokeRun E s f args \<sigma>1, recordInfo pl info)
             | (Throw e, \<sigma>1) \<Rightarrow> ((Throw e, \<sigma>1), info)
             | (Panicked p, \<sigma>1) \<Rightarrow> ((Panicked p, \<sigma>1), info)
             | (Diverged, \<sigma>1) \<Rightarrow> ((Diverged, \<sigma>1), info)))"

lemma invokeFn_invokeArgs: "invokeFn E fuel s f = bindS (invokeArgs E fuel s f) (\<lambda>(pl, args). invokeRun E s f args)"
  by (rule ext) (auto simp: invokeFn_def invokeArgs_def bindS_def split: res.splits option.splits prod.splits)

text \<open>
  Recording the inputs does not change what \<open>Invoke\<close> does: result and state are those of \<open>Invoke\<close> without
  the option.
\<close>

lemma InvokeFilling_is_Invoke: "fst (InvokeFilling E fuel s function info \<sigma>) = Invoke E fuel s function \<sigma>"
  by (auto simp: InvokeFilling_def Invoke_def invokeFn_invokeArgs bindS_def throwS_def
      split: iface.splits res.splits prod.splits)

subsection \<open>What is recorded\<close>

text \<open>The parameters that \<open>Invoke\<close> fills: all but a variadic one.\<close>

definition filledTypes :: "gotype \<Rightarrow> gotype list" where
  "filledTypes t = take (length (ins t) - (if IsVariadic t then 1 else 0)) (ins t)"

lemma newParam_plain: "newParam t c \<sigma> = (Ret p, \<sigma>') \<Longrightarrow> \<not> IsIn t \<Longrightarrow> p = paramSingle [] False t"
  by (subst (asm) newParam.simps) (auto simp: throwS_def split: if_splits)

lemma mapS_plain:
  "mapS (\<lambda>(i, t). wrapS (w i) (newParam t c)) its \<sigma> = (Ret ps, \<sigma>') \<Longrightarrow> \<forall>t \<in> set (map snd its). \<not> IsIn t \<Longrightarrow>
   ps = map (\<lambda>(i, t). paramSingle [] False t) its"
  by (induction its arbitrary: \<sigma> ps) (auto simp: bindS_eq_Ret wrapS_eq_Ret dest: newParam_plain)

lemma newParamList_plain:
  assumes "newParamList t c \<sigma> = (Ret pl, \<sigma>')" and "\<forall>u \<in> set (filledTypes t). \<not> IsIn u"
  shows "Params pl = map (paramSingle [] False) (filledTypes t)"
proof -
  have "(if IsVariadic t then length (ins t) - 1 else length (ins t)) = length (ins t) - (if IsVariadic t then 1 else 0)"
    by simp
  with assms(1) obtain ps \<sigma>'' where m:
    "mapS (\<lambda>(i, t). wrapS (\<lambda>e. newErrInvalidInput (MsgBadArgument (Suc i)) (Some e)) (newParam t c)) (enumerate 0 (filledTypes t)) \<sigma> = (Ret ps, \<sigma>'')"
    and ps: "Params pl = ps"
    unfolding newParamList_def filledTypes_def Let_def by (auto simp: bindS_eq_Ret)
  have "map (\<lambda>(i, t). paramSingle [] False t) its = map (paramSingle [] False) (map snd its)" for its :: "(nat \<times> gotype) list"
    by auto
  with mapS_plain [OF m] assms(2) ps show ?thesis by simp
qed



end
