(* ===== verification/Clock.thy ===== *)
theory Clock
  imports Errors
begin

text \<open>
  The mock clock of src/internal/digclock/clock.go. A time and a duration are integers
  (nanoseconds).
\<close>

record Mock =
  mock_now :: int

definition Now :: "Mock \<Rightarrow> int" where
  "Now m = mock_now m"

definition Since :: "Mock \<Rightarrow> int \<Rightarrow> int" where
  "Since m t = Now m - t"

definition Add :: "int \<Rightarrow> Mock \<Rightarrow> Mock res" where
  "Add d m =
     (if d < 0 then Panicked (VRuntime ''cannot add negative duration'')
      else Ret (m\<lparr>mock_now := mock_now m + d\<rparr>))"

end
