(* ===== verification/Containers.thy ===== *)
theory Containers
  imports Api Messages
begin

text \<open>
  The type \<open>Container\<close> (src/container.go) and its methods, which forward to the root scope, the \<open>String\<close>
  of a scope (src/scope.go), and the containers for tests (src/internal/digtest/container.go), whose
  operations halt the test when the container returns an error.
\<close>

subsection \<open>Containers\<close>

record Container =
  co_scope :: nat

definition NewContainer :: "Option list \<Rightarrow> Container \<times> store" where
  "NewContainer opts = (\<lparr>co_scope = 0\<rparr>, New opts)"

definition Container_Provide :: "Container \<Rightarrow> iface \<Rightarrow> ProvideOption list \<Rightarrow> (store, ProvideInfo option) eff" where
  "Container_Provide c constructor opts = Provide (co_scope c) constructor opts"

definition Container_Decorate :: "Container \<Rightarrow> iface \<Rightarrow> DecorateOption list \<Rightarrow> (store, ProvideInfo option) eff" where
  "Container_Decorate c decorator opts = Decorate (co_scope c) decorator opts"

definition Container_Invoke :: "env \<Rightarrow> nat \<Rightarrow> Container \<Rightarrow> iface \<Rightarrow> (store, unit) eff" where
  "Container_Invoke E fuel c function = Invoke E fuel (co_scope c) function"

definition Container_Scope :: "Container \<Rightarrow> string \<Rightarrow> store \<Rightarrow> nat \<times> store" where
  "Container_Scope c name = ScopeScope (co_scope c) name"

definition Container_createGraph :: "Container \<Rightarrow> store \<Rightarrow> dotGraph" where
  "Container_createGraph c \<sigma> = createGraph \<sigma> (co_scope c)"

text \<open>
  \<open>Scope.String\<close>: \<open>Fprintln\<close> separates its operands by blanks. Go does not fix the order in which a loop goes
  through a map: \<open>ord\<close> lists the positions of the entries in that order, for each of the three maps.
  \<open>show_value\<close> prints a value of the user.
\<close>

definition println :: "string list \<Rightarrow> string" where
  "println ws = joinWith '' '' ws @ nl"

definition ranged :: "nat list \<Rightarrow> 'a list \<Rightarrow> 'a list" where
  "ranged ord xs = map (\<lambda>i. xs ! i) (filter (\<lambda>i. i < length xs) ord)"

definition Scope_String :: "(gval \<Rightarrow> string) \<Rightarrow> nat list \<times> nat list \<times> nat list \<Rightarrow> nat \<Rightarrow> store \<Rightarrow> string" where
  "Scope_String show_value ords s \<sigma> =
     (let (ordp, ordv, ordg) = ords;
          sc = scope_of \<sigma> s;
          entry = (\<lambda>k v. println [tab, key_String k, ''=>'', show_value v])
      in println [''nodes: {''] @
         concat (map (\<lambda>(k, ns). concat (map (\<lambda>n.
           println [tab, key_String k, ''->'', constructorNode_String (ctor_of \<sigma> n)]) ns)) (ranged ordp (providers sc))) @
         println [''}''] @
         println [''values: {''] @
         concat (map (\<lambda>(k, v). entry k v) (ranged ordv (sc_values sc))) @
         concat (map (\<lambda>(k, vs). concat (map (entry k) vs)) (ranged ordg (groups sc))) @
         println [''}''])"

definition Container_String :: "(gval \<Rightarrow> string) \<Rightarrow> nat list \<times> nat list \<times> nat list \<Rightarrow> Container \<Rightarrow> store \<Rightarrow> string" where
  "Container_String show_value ords c \<sigma> = Scope_String show_value ords (co_scope c) \<sigma>"

text \<open>Every order of a map goes through the same entries, so that what is printed differs in the order of lines only.\<close>

lemma ranged_mset: "mset ord = mset [0..<length xs] \<Longrightarrow> mset (ranged ord xs) = mset xs"
proof -
  assume ord: "mset ord = mset [0..<length xs]"
  then have "set ord = set [0..<length xs]" by (rule mset_eq_setD)
  then have "filter (\<lambda>i. i < length xs) ord = ord" by (auto intro: filter_True)
  then have "mset (ranged ord xs) = image_mset ((!) xs) (mset ord)" by (simp add: ranged_def)
  also have "\<dots> = mset (map ((!) xs) [0..<length xs])" by (simp add: ord)
  finally show ?thesis by (simp add: map_nth)
qed

subsection \<open>Containers for tests\<close>

text \<open>
  What a test does next: it goes on, \<open>FailNow\<close> ends it, a panic or a stack overflow ends it. \<open>require.NoError\<close>
  is code of another package: \<open>no_error t err msg\<close> says whether it returns.
\<close>

datatype 'a halting = Returns 'a | FailNow | Panics gval | Overflows

record 't digtest_Container =
  tc_t :: 't
  tc_Container :: Container

record 't digtest_Scope =
  ts_t :: 't
  ts_scope :: nat

definition require_NoError ::
  "('t \<Rightarrow> goerr option \<Rightarrow> string \<Rightarrow> bool) \<Rightarrow> 't \<Rightarrow> 'a res \<times> store \<Rightarrow> string \<Rightarrow> unit halting \<times> store" where
  "require_NoError no_error t call msg =
     (case call of
        (Ret _, \<sigma>) \<Rightarrow> (if no_error t None msg then Returns () else FailNow, \<sigma>)
      | (Throw e, \<sigma>) \<Rightarrow> (if no_error t (Some e) msg then Returns () else FailNow, \<sigma>)
      | (Panicked p, \<sigma>) \<Rightarrow> (Panics p, \<sigma>)
      | (Diverged, \<sigma>) \<Rightarrow> (Overflows, \<sigma>))"

definition digtest_New :: "'t \<Rightarrow> Option list \<Rightarrow> 't digtest_Container \<times> store" where
  "digtest_New t opts = (let (c, \<sigma>) = NewContainer opts in (\<lparr>tc_t = t, tc_Container = c\<rparr>, \<sigma>))"

definition Container_RequireProvide where
  "Container_RequireProvide no_error c f opts \<sigma> =
     require_NoError no_error (tc_t c) (Container_Provide (tc_Container c) f opts \<sigma>) ''failed to provide''"

definition Scope_RequireProvide where
  "Scope_RequireProvide no_error s f opts \<sigma> =
     require_NoError no_error (ts_t s) (Provide (ts_scope s) f opts \<sigma>) ''failed to provide''"

definition Container_RequireInvoke where
  "Container_RequireInvoke no_error E fuel c f \<sigma> =
     require_NoError no_error (tc_t c) (Container_Invoke E fuel (tc_Container c) f \<sigma>) ''failed to invoke''"

definition Scope_RequireInvoke where
  "Scope_RequireInvoke no_error E fuel s f \<sigma> =
     require_NoError no_error (ts_t s) (Invoke E fuel (ts_scope s) f \<sigma>) ''failed to invoke''"

definition Container_RequireDecorate where
  "Container_RequireDecorate no_error c f opts \<sigma> =
     require_NoError no_error (tc_t c) (Container_Decorate (tc_Container c) f opts \<sigma>) ''failed to decorate''"

definition Scope_RequireDecorate where
  "Scope_RequireDecorate no_error s f opts \<sigma> =
     require_NoError no_error (ts_t s) (Decorate (ts_scope s) f opts \<sigma>) ''failed to decorate''"

definition digtest_Container_Scope :: "'t digtest_Container \<Rightarrow> string \<Rightarrow> store \<Rightarrow> 't digtest_Scope \<times> store" where
  "digtest_Container_Scope c name \<sigma> =
     (let (s, \<sigma>') = Container_Scope (tc_Container c) name \<sigma> in (\<lparr>ts_t = tc_t c, ts_scope = s\<rparr>, \<sigma>'))"

definition digtest_Scope_Scope :: "'t digtest_Scope \<Rightarrow> string \<Rightarrow> store \<Rightarrow> 't digtest_Scope \<times> store" where
  "digtest_Scope_Scope s name \<sigma> =
     (let (s', \<sigma>') = ScopeScope (ts_scope s) name \<sigma> in (\<lparr>ts_t = ts_t s, ts_scope = s'\<rparr>, \<sigma>'))"

text \<open>
  With a \<open>NoError\<close> that returns exactly on a nil error, a test goes on only after a call that succeeded, and
  the calls of tests are steps of the container: what holds in every reachable container holds in tests.
\<close>

lemma require_Returns:
  assumes "\<And>t err msg. no_error t err msg \<longleftrightarrow> err = None" and "require_NoError no_error t call msg = (Returns (), \<sigma>)"
  shows "\<exists>x. call = (Ret x, \<sigma>)"
  using assms by (cases call; cases "fst call") (auto simp: require_NoError_def split: if_splits)

lemma tests_reachable:
  assumes \<sigma>: "reachable E \<sigma>" and ok: "\<And>t err msg. no_error t err msg \<longleftrightarrow> err = None"
    and s: "ts_scope s < length (scopes \<sigma>)"
  shows "Scope_RequireProvide no_error s f popts \<sigma> = (Returns (), \<sigma>') \<Longrightarrow> reachable E \<sigma>'"
    and "Scope_RequireDecorate no_error s f dopts \<sigma> = (Returns (), \<sigma>') \<Longrightarrow> reachable E \<sigma>'"
    and "Scope_RequireInvoke no_error E fuel s f \<sigma> = (Returns (), \<sigma>') \<Longrightarrow> reachable E \<sigma>'"
    and "reachable E (snd (digtest_Scope_Scope s name \<sigma>))"
proof -
  have step: "reachable E \<sigma>'" if "api_step E \<sigma> \<sigma>'" for \<sigma>'
    using \<sigma> that unfolding reachable_def by (meson rtranclp.rtrancl_into_rtrancl)
  show "Scope_RequireProvide no_error s f popts \<sigma> = (Returns (), \<sigma>') \<Longrightarrow> reachable E \<sigma>'"
    unfolding Scope_RequireProvide_def by (fastforce dest!: require_Returns [OF ok] intro: step [OF step_Provide [OF s]])
  show "Scope_RequireDecorate no_error s f dopts \<sigma> = (Returns (), \<sigma>') \<Longrightarrow> reachable E \<sigma>'"
    unfolding Scope_RequireDecorate_def by (fastforce dest!: require_Returns [OF ok] intro: step [OF step_Decorate [OF s]])
  show "Scope_RequireInvoke no_error E fuel s f \<sigma> = (Returns (), \<sigma>') \<Longrightarrow> reachable E \<sigma>'"
    unfolding Scope_RequireInvoke_def by (fastforce dest!: require_Returns [OF ok] intro: step [OF step_Invoke [OF s]])
  show "reachable E (snd (digtest_Scope_Scope s name \<sigma>))"
    unfolding digtest_Scope_Scope_def using step [OF step_Scope [OF s prod.collapse [symmetric]]] by (simp add: split_beta)
qed

text \<open>The methods of a container are those of its root scope.\<close>

lemma digtest_root:
  fixes c :: "'t digtest_Container" defines "s \<equiv> \<lparr>ts_t = tc_t c, ts_scope = co_scope (tc_Container c)\<rparr>"
  shows "Container_RequireProvide no_error c f popts \<sigma> = Scope_RequireProvide no_error s f popts \<sigma>"
    and "Container_RequireDecorate no_error c f dopts \<sigma> = Scope_RequireDecorate no_error s f dopts \<sigma>"
    and "Container_RequireInvoke no_error E fuel c f \<sigma> = Scope_RequireInvoke no_error E fuel s f \<sigma>"
    and "digtest_Container_Scope c name \<sigma> = digtest_Scope_Scope s name \<sigma>"
  by (simp_all add: s_def Container_RequireProvide_def Scope_RequireProvide_def Container_RequireDecorate_def
      Scope_RequireDecorate_def Container_RequireInvoke_def Scope_RequireInvoke_def digtest_Container_Scope_def
      digtest_Scope_Scope_def Container_Provide_def Container_Decorate_def Container_Invoke_def Container_Scope_def)

end
